(* ===== verification/Prelude.thy ===== *)
theory Prelude
  imports Main "HOL-Library.Word" "HOL-Library.Multiset"
begin

text \<open>
  Shared vocabulary of the development: the C integer types the agent uses, the
  \<open>nr_status_t\<close> result, the collections of simplification rules that the component
  theories fill, and the generic lemmas on lists and words that several components need.

  A C pointer argument that the code compares with NULL is an \<open>option\<close> (\<open>None\<close> is NULL).
  A C string is a \<open>string\<close> without its terminating zero.  Calls that end the process when
  memory runs out (\<open>nr_malloc\<close>, \<open>nr_calloc\<close>, \<open>nr_realloc\<close>, \<open>nr_strdup\<close> of
  util_memory.c) always succeed in the model, because nothing runs after them otherwise;
  \<open>nr_reallocarray\<close>, which returns NULL to its caller, is modelled with its failure.
\<close>

unbundle bit_operations_syntax

section \<open>Types\<close>

type_synonym size_t = "64 word"
type_synonym uint64 = "64 word"
type_synonym uint32 = "32 word"
type_synonym uint8 = "8 word"
type_synonym nrtime_t = "64 word"

datatype nr_status_t = NR_SUCCESS | NR_FAILURE

named_theorems vec_simps \<open>unfolding rules of the vector operations\<close>
named_theorems heap_simps \<open>unfolding rules of the min-max heap operations\<close>
named_theorems hm_simps \<open>unfolding rules of the hashmap operations\<close>
named_theorems pool_simps \<open>unfolding rules of the string pool operations\<close>
named_theorems metric_simps \<open>unfolding rules of the metric table operations\<close>

section \<open>util_time.h\<close>

definition nr_time_duration :: "nrtime_t \<Rightarrow> nrtime_t \<Rightarrow> nrtime_t" where
  "nr_time_duration start stop = (if start > stop then 0 else stop - start)"

definition NR_TIME_MAX :: nrtime_t where
  "NR_TIME_MAX = - 1"

lemma unat_nr_time_duration: "unat (nr_time_duration a b) = unat b - unat a"
  by (simp add: nr_time_duration_def unat_sub word_less_nat_alt word_le_nat_alt not_less)

section \<open>Lists\<close>

lemma nth_append_Cons_eq [simp]: "length xs = n \<Longrightarrow> (xs @ y # ys) ! n = y"
  by auto

lemma mset_swap_update:
  assumes "i < length xs" "j < length xs"
  shows "mset (xs[i := xs ! j, j := xs ! i]) = mset xs"
  using assms by (simp add: mset_swap)

lemma take_Suc_list_update:
  "n < length xs \<Longrightarrow> take (Suc n) (xs[n := x]) = take n xs @ [x]"
  by (simp add: take_Suc_conv_app_nth)

lemma map_the_Some [simp]: "map (the \<circ> Some) xs = xs"
  by (induction xs) auto

section \<open>Words\<close>

lemma unat_plus1_lt:
  fixes x :: "'a :: len word"
  assumes "x < y"
  shows "unat (x + 1) = Suc (unat x)"
  using assms by unat_arith

lemma unat_minus1:
  fixes x :: "'a :: len word"
  shows "x \<noteq> 0 \<Longrightarrow> unat (x - 1) = unat x - 1"
  by (rule unat_minus_one)

lemma unat_max_u64: "unat (- 1 :: uint64) = 2 ^ 64 - 1"
  by (simp add: unsigned_minus_1_eq_mask mask_eq_exp_minus_1)

end
