(* ===== verification/Sorting.thy ===== *)
theory Sorting
  imports Prelude
begin

text \<open>
  util_sort.c.  \<open>nr_sort\<close> hands its array to the C library's \<open>qsort_r\<close>.  The model of
  \<open>qsort_r\<close> is an insertion sort by the comparator; the locale \<open>sorting\<close> states what the C
  standard promises of it (the result is a rearrangement, in order when the comparator is a
  consistent total order), and everything proved about the callers rests on that contract.
\<close>

type_synonym 'a comparator = "'a \<Rightarrow> 'a \<Rightarrow> int"

text \<open>The insertion step of the library sort and the sort itself.\<close>

fun qsort_insert :: "'a comparator \<Rightarrow> 'a \<Rightarrow> 'a list \<Rightarrow> 'a list" where
  "qsort_insert c x [] = [x]"
| "qsort_insert c x (y # ys) = (if c x y \<le> 0 then x # y # ys else y # qsort_insert c x ys)"

fun qsort_r :: "'a comparator \<Rightarrow> 'a list \<Rightarrow> 'a list" where
  "qsort_r c [] = []"
| "qsort_r c (x # xs) = qsort_insert c x (qsort_r c xs)"

text \<open>\<open>base\<close> is NULL or the array, \<open>compar\<close> is NULL or the comparator applied to its argument.\<close>

definition nr_sort :: "'a list option \<Rightarrow> 'a comparator option \<Rightarrow> 'a list option" where
  "nr_sort base compar =
     (case base of None \<Rightarrow> None
      | Some xs \<Rightarrow> (case compar of None \<Rightarrow> base | Some c \<Rightarrow> Some (qsort_r c xs)))"

definition comparator_ok :: "'a comparator \<Rightarrow> bool" where
  "comparator_ok c \<longleftrightarrow>
     (\<forall>x y. c x y \<le> 0 \<or> c y x \<le> 0) \<and> (\<forall>x y z. c x y \<le> 0 \<longrightarrow> c y z \<le> 0 \<longrightarrow> c x z \<le> 0)"

locale sorting =
  fixes srt :: "'a comparator \<Rightarrow> 'a list \<Rightarrow> 'a list"
  assumes srt_perm: "mset (srt c xs) = mset xs"
    and srt_ordered: "comparator_ok c \<Longrightarrow> sorted_wrt (\<lambda>x y. c x y \<le> 0) (srt c xs)"
begin

lemma srt_length: "length (srt c xs) = length xs"
  by (metis srt_perm size_mset)

lemma srt_set: "set (srt c xs) = set xs"
  by (metis srt_perm set_mset_mset)

end

lemma mset_qsort_insert: "mset (qsort_insert c x xs) = add_mset x (mset xs)"
  by (induction xs) auto

lemma set_qsort_insert: "set (qsort_insert c x xs) = insert x (set xs)"
  by (metis mset_qsort_insert set_mset_add_mset_insert set_mset_mset)

lemma qsort_insert_ordered:
  assumes "comparator_ok c" "sorted_wrt (\<lambda>x y. c x y \<le> 0) xs"
  shows "sorted_wrt (\<lambda>x y. c x y \<le> 0) (qsort_insert c x xs)"
  using assms(2)
proof (induction xs)
  case Nil
  then show ?case by simp
next
  case (Cons y ys)
  have total: "c x y \<le> 0 \<or> c y x \<le> 0"
    and trans: "c x y \<le> 0 \<Longrightarrow> c y z \<le> 0 \<Longrightarrow> c x z \<le> 0" for z
    using assms(1) unfolding comparator_ok_def by blast+
  show ?case
  proof (cases "c x y \<le> 0")
    case True
    with Cons.prems trans show ?thesis by auto
  next
    case False
    with Cons total show ?thesis by (auto simp: set_qsort_insert)
  qed
qed

interpretation libc: sorting qsort_r
proof
  show "mset (qsort_r c xs) = mset xs" for c :: "'a comparator" and xs
    by (induction xs) (simp_all add: mset_qsort_insert)
  show "comparator_ok c \<Longrightarrow> sorted_wrt (\<lambda>x y. c x y \<le> 0) (qsort_r c xs)"
    for c :: "'a comparator" and xs
    by (induction xs) (simp_all add: qsort_insert_ordered)
qed

end
