(* ===== verification/Exclusive_Time.thy ===== *)
theory Exclusive_Time
  imports Sorting
begin

text \<open>
  nr_exclusive_time.c: the time a segment spends outside its direct children.  The structure
  collects a start and a stop transition per child; the calculation sorts them and sweeps over
  them with a counter of active children.  The theorem at the end says that the sweep computes the
  number of microseconds of the segment's own window that no child covers.
\<close>

section \<open>State\<close>

datatype transition_type = CHILD_START | CHILD_STOP

record nr_exclusive_time_transition =
  tr_time :: nrtime_t
  tr_type :: transition_type

text \<open>
  \<open>et_transitions\<close> is the part of the flexible array that has been written; \<open>et_used\<close> and
  \<open>et_capacity\<close> are the counters of the struct.
\<close>

record nr_exclusive_time =
  et_start_time :: nrtime_t
  et_stop_time :: nrtime_t
  et_capacity :: size_t
  et_used :: size_t
  et_transitions :: "nr_exclusive_time_transition list"

section \<open>Operations\<close>

definition nr_exclusive_time_create :: "size_t \<Rightarrow> nrtime_t \<Rightarrow> nrtime_t \<Rightarrow> nr_exclusive_time option" where
  "nr_exclusive_time_create child_segments start_time stop_time =
     (if start_time > stop_time then None
      else Some \<lparr>et_start_time = start_time, et_stop_time = stop_time,
                 et_capacity = child_segments * 2, et_used = 0, et_transitions = []\<rparr>)"

text \<open>The argument is the \<open>nr_exclusive_time_t**\<close>; the pointer it holds is NULL afterwards.\<close>

definition nr_exclusive_time_destroy :: "nr_exclusive_time option option \<Rightarrow> bool \<times> nr_exclusive_time option option" where
  "nr_exclusive_time_destroy et_ptr =
     (case et_ptr of None \<Rightarrow> (False, None) | Some None \<Rightarrow> (False, Some None) | Some (Some _) \<Rightarrow> (True, Some None))"

definition nr_exclusive_time_add_child ::
  "nr_exclusive_time option \<Rightarrow> nrtime_t \<Rightarrow> nrtime_t \<Rightarrow> bool \<times> nr_exclusive_time option" where
  "nr_exclusive_time_add_child parent_et start_time stop_time =
     (case parent_et of None \<Rightarrow> (False, None)
      | Some et \<Rightarrow>
          if et_used et + 2 > et_capacity et then (False, parent_et)
          else if start_time > stop_time then (False, parent_et)
          else if stop_time < et_start_time et \<or> start_time > et_stop_time et then (True, parent_et)
          else (True, Some (et\<lparr>et_transitions := et_transitions et @
                  [\<lparr>tr_time = start_time, tr_type = CHILD_START\<rparr>, \<lparr>tr_time = stop_time, tr_type = CHILD_STOP\<rparr>],
                et_used := et_used et + 2\<rparr>)))"

definition nr_exclusive_time_transition_compare ::
  "nr_exclusive_time_transition \<Rightarrow> nr_exclusive_time_transition \<Rightarrow> int" where
  "nr_exclusive_time_transition_compare a b =
     (if tr_time a < tr_time b then -1
      else if tr_time a > tr_time b then 1
      else if tr_type a \<noteq> tr_type b
      then (if tr_type a = CHILD_START then -1 else if tr_type b = CHILD_START then 1 else 0)
      else 0)"

text \<open>
  The loop of \<open>nr_exclusive_time_calculate\<close>: the remaining transitions, the counter of active
  children (an \<open>unsigned int\<close>), the exclusive time so far and the last start.  The two \<open>goto end\<close>
  are the branches that return without a recursive call.
\<close>

fun exclusive_loop ::
  "nrtime_t \<Rightarrow> nrtime_t \<Rightarrow> nr_exclusive_time_transition list \<Rightarrow> uint32 \<Rightarrow> nrtime_t \<Rightarrow> nrtime_t \<Rightarrow> nrtime_t" where
  "exclusive_loop start_time stop_time [] active_children exclusive_time last_start = exclusive_time"
| "exclusive_loop start_time stop_time (tr # trs) active_children exclusive_time last_start =
     (let time = tr_time tr in
      case tr_type tr of
        CHILD_START \<Rightarrow>
          exclusive_loop start_time stop_time trs (active_children + 1) exclusive_time
            (if active_children = 0 then (if time > start_time then time else start_time) else last_start)
      | CHILD_STOP \<Rightarrow>
          if active_children = 0
          then exclusive_loop start_time stop_time trs active_children exclusive_time last_start
          else if active_children = 1
          then (let duration = (if stop_time < time then nr_time_duration last_start stop_time
                                else nr_time_duration last_start time)
                in if duration > exclusive_time then 0
                   else if time > stop_time then exclusive_time - duration
                   else exclusive_loop start_time stop_time trs (active_children - 1)
                          (exclusive_time - duration) last_start)
          else exclusive_loop start_time stop_time trs (active_children - 1) exclusive_time last_start)"

text \<open>The result and the structure, whose transitions have been sorted in place.\<close>

definition nr_exclusive_time_calculate :: "nr_exclusive_time option \<Rightarrow> nrtime_t \<times> nr_exclusive_time option" where
  "nr_exclusive_time_calculate et_ptr =
     (case et_ptr of None \<Rightarrow> (0, None)
      | Some et \<Rightarrow>
          if et_used et = 0 then (nr_time_duration (et_start_time et) (et_stop_time et), et_ptr)
          else let trs = the (nr_sort (Some (et_transitions et)) (Some nr_exclusive_time_transition_compare))
               in (exclusive_loop (et_start_time et) (et_stop_time et) trs 0
                     (nr_time_duration (et_start_time et) (et_stop_time et)) 0,
                   Some (et\<lparr>et_transitions := trs\<rparr>)))"

text \<open>A caller's sequence of \<open>nr_exclusive_time_add_child\<close> calls.\<close>

fun add_children :: "nr_exclusive_time option \<Rightarrow> (nrtime_t \<times> nrtime_t) list \<Rightarrow> nr_exclusive_time option" where
  "add_children et [] = et"
| "add_children et ((s, e) # cs) = add_children (snd (nr_exclusive_time_add_child et s e)) cs"

section \<open>The order of the transitions\<close>

lemma transition_compare_ok: "comparator_ok nr_exclusive_time_transition_compare"
  unfolding comparator_ok_def
proof (intro conjI allI impI)
  fix x y z :: nr_exclusive_time_transition
  show "nr_exclusive_time_transition_compare x y \<le> 0 \<or> nr_exclusive_time_transition_compare y x \<le> 0"
    by (auto simp: nr_exclusive_time_transition_compare_def)
  show "nr_exclusive_time_transition_compare x z \<le> 0"
    if "nr_exclusive_time_transition_compare x y \<le> 0" "nr_exclusive_time_transition_compare y z \<le> 0"
    using that by (cases "tr_type x"; cases "tr_type y"; cases "tr_type z")
      (auto simp: nr_exclusive_time_transition_compare_def split: if_splits)
qed

lemma transition_compare_le:
  "nr_exclusive_time_transition_compare x y \<le> 0 \<Longrightarrow> tr_time x \<le> tr_time y"
  by (auto simp: nr_exclusive_time_transition_compare_def split: if_splits)

lemma transition_compare_stop_start:
  assumes "nr_exclusive_time_transition_compare x y \<le> 0" "tr_type x = CHILD_STOP" "tr_type y = CHILD_START"
  shows "tr_time x < tr_time y"
  using assms by (auto simp: nr_exclusive_time_transition_compare_def split: if_splits)

section \<open>Depth of nesting\<close>

definition delta_of :: "nr_exclusive_time_transition \<Rightarrow> int" where
  "delta_of tr = (case tr_type tr of CHILD_START \<Rightarrow> 1 | CHILD_STOP \<Rightarrow> -1)"

text \<open>Starts minus stops up to and including time \<open>t\<close>.\<close>

fun depth_at :: "nr_exclusive_time_transition list \<Rightarrow> nat \<Rightarrow> int" where
  "depth_at [] t = 0"
| "depth_at (tr # trs) t = (if unat (tr_time tr) \<le> t then delta_of tr else 0) + depth_at trs t"

lemma depth_at_append [simp]: "depth_at (xs @ ys) t = depth_at xs t + depth_at ys t"
  by (induction xs) auto

lemma depth_at_sum: "depth_at trs t = (\<Sum>tr\<in>#mset trs. if unat (tr_time tr) \<le> t then delta_of tr else 0)"
  by (induction trs) auto

lemma depth_at_cong: "mset xs = mset ys \<Longrightarrow> depth_at xs t = depth_at ys t"
  by (simp add: depth_at_sum)

lemma depth_at_before: "\<forall>tr\<in>set trs. t < unat (tr_time tr) \<Longrightarrow> depth_at trs t = 0"
  by (induction trs) auto

text \<open>Microseconds of the window from \<open>tau\<close> on at which the nesting depth is positive.\<close>

definition covered :: "nat \<Rightarrow> nat \<Rightarrow> nat \<Rightarrow> int \<Rightarrow> nr_exclusive_time_transition list \<Rightarrow> nat" where
  "covered st sp tau a trs = card {t. tau \<le> t \<and> st \<le> t \<and> t < sp \<and> 0 < a + depth_at trs t}"

lemma card_window_split:
  "card {t. a \<le> t \<and> t < b \<and> \<not> P t} + card {t. a \<le> t \<and> t < b \<and> P t} = b - (a :: nat)"
proof -
  let ?A = "{t. a \<le> t \<and> t < b \<and> \<not> P t}" and ?B = "{t. a \<le> t \<and> t < b \<and> P t}"
  have "card (?A \<union> ?B) = card ?A + card ?B" by (rule card_Un_disjoint) auto
  moreover have "?A \<union> ?B = {a..<b}" by auto
  ultimately show ?thesis by simp
qed

lemma covered_Nil: "covered st sp tau 0 [] = 0"
  by (simp add: covered_def)

lemma covered_past: "sp \<le> tau \<Longrightarrow> covered st sp tau a trs = 0"
  by (auto simp: covered_def card_eq_0_iff)

lemma covered_Cons:
  assumes "tau \<le> unat (tr_time tr)" "\<forall>x\<in>set trs. tr_time tr \<le> tr_time x"
  shows "covered st sp tau a (tr # trs) =
    (if 0 < a then min (unat (tr_time tr)) sp - max tau st else 0) +
    covered st sp (unat (tr_time tr)) (a + delta_of tr) trs"
proof -
  let ?x = "unat (tr_time tr)"
  let ?B = "{t. tau \<le> t \<and> t < ?x \<and> st \<le> t \<and> t < sp \<and> 0 < a}"
  let ?C = "{t. ?x \<le> t \<and> st \<le> t \<and> t < sp \<and> 0 < a + delta_of tr + depth_at trs t}"
  have before: "depth_at trs t = 0" if "t < ?x" for t
    using assms(2) that by (intro depth_at_before) (auto simp: word_le_nat_alt)
  have "{t. tau \<le> t \<and> st \<le> t \<and> t < sp \<and> 0 < a + depth_at (tr # trs) t} = ?B \<union> ?C"
    using assms(1) before by (auto simp: not_le)
  moreover have "finite ?B" "finite ?C" "?B \<inter> ?C = {}" by auto
  moreover have "card ?B = (if 0 < a then min ?x sp - max tau st else 0)"
  proof -
    have "0 < a \<Longrightarrow> ?B = {max tau st..<min ?x sp}" by auto
    then show ?thesis by auto
  qed
  ultimately show ?thesis by (simp add: covered_def card_Un_disjoint)
qed

section \<open>The sweep\<close>

text \<open>
  Time since the last start that the loop has not subtracted yet, when children are active.
\<close>

definition pending :: "nat \<Rightarrow> nat \<Rightarrow> nat \<Rightarrow> nat \<Rightarrow> nat" where
  "pending sp tau a last_start = (if a = 0 then 0 else min tau sp - last_start)"

definition sweep_ok :: "nat \<Rightarrow> nat \<Rightarrow> nr_exclusive_time_transition list \<Rightarrow> bool" where
  "sweep_ok tau a trs \<longleftrightarrow>
     sorted_wrt (\<lambda>x y. nr_exclusive_time_transition_compare x y \<le> 0) trs \<and>
     (\<forall>x\<in>set trs. tau \<le> unat (tr_time x)) \<and>
     (\<forall>t. 0 \<le> int a + depth_at trs t) \<and> int a + sum_list (map delta_of trs) = 0 \<and>
     a + length trs < 2 ^ 32"

lemma sweep_ok_tail:
  assumes "sweep_ok tau a (tr # trs)" "int b = int a + delta_of tr"
  shows "sweep_ok (unat (tr_time tr)) b trs"
proof -
  let ?x = "unat (tr_time tr)"
  have le: "\<forall>y\<in>set trs. ?x \<le> unat (tr_time y)"
    using assms(1) transition_compare_le by (auto simp: sweep_ok_def word_le_nat_alt)
  have "0 \<le> int b + depth_at trs t" for t
  proof (cases "?x \<le> t")
    case True
    have "0 \<le> int a + depth_at (tr # trs) t" using assms(1) unfolding sweep_ok_def by blast
    with True assms(2) show ?thesis by simp
  next
    case False
    then have "depth_at trs t = 0" using le by (intro depth_at_before) auto
    then show ?thesis by simp
  qed
  moreover have "b + length trs < 2 ^ 32"
    using assms by (cases "tr_type tr") (auto simp: sweep_ok_def delta_of_def)
  ultimately show ?thesis using assms le by (auto simp: sweep_ok_def)
qed

lemma sweep_ok_stop_active:
  assumes "sweep_ok tau a (tr # trs)" "tr_type tr = CHILD_STOP"
  shows "0 < a"
proof -
  let ?x = "unat (tr_time tr)"
  have "depth_at trs ?x \<le> 0"
  proof -
    have stops: "tr_type y = CHILD_STOP" if "y \<in> set trs" "unat (tr_time y) \<le> ?x" for y
    proof (rule ccontr)
      assume "tr_type y \<noteq> CHILD_STOP"
      then have "tr_type y = CHILD_START" by (cases "tr_type y") auto
      moreover have "nr_exclusive_time_transition_compare tr y \<le> 0"
        using assms(1) that(1) by (simp add: sweep_ok_def)
      ultimately have "tr_time tr < tr_time y"
        using assms(2) transition_compare_stop_start by blast
      with that(2) show False by (simp add: word_less_nat_alt)
    qed
    have "\<forall>y\<in>set ys. unat (tr_time y) \<le> ?x \<longrightarrow> tr_type y = CHILD_STOP \<Longrightarrow> depth_at ys ?x \<le> 0" for ys
      by (induction ys) (auto simp: delta_of_def)
    with stops show ?thesis by blast
  qed
  moreover have "0 \<le> int a + depth_at (tr # trs) ?x" using assms(1) unfolding sweep_ok_def by blast
  ultimately show ?thesis using assms(2) by (simp add: delta_of_def)
qed

lemma sweep_ok_sorted_time: "sweep_ok tau a (tr # trs) \<Longrightarrow> \<forall>x\<in>set trs. tr_time tr \<le> tr_time x"
  using transition_compare_le by (auto simp: sweep_ok_def)

lemma interval_split:
  fixes x tau l st sp :: nat
  assumes "tau \<le> x" "st \<le> l" "l \<le> max tau st"
  shows "min x sp - l = (min tau sp - l) + (min x sp - max tau st)"
  using assms by (simp add: min_def max_def split: if_splits) 

lemma exclusive_loop_sweep:
  assumes "sweep_ok tau a trs" "unat active = a"
    and "0 < a \<Longrightarrow> unat st \<le> unat last_start \<and> unat last_start \<le> max tau (unat st)"
    and "pending (unat sp) tau a (unat last_start) + covered (unat st) (unat sp) tau (int a) trs \<le> unat excl"
  shows "unat (exclusive_loop st sp trs active excl last_start) =
    unat excl - (pending (unat sp) tau a (unat last_start) + covered (unat st) (unat sp) tau (int a) trs)"
  using assms
proof (induction trs arbitrary: tau a active excl last_start)
  case Nil
  then have "a = 0" by (simp add: sweep_ok_def)
  then show ?case by (simp add: pending_def covered_Nil)
next
  case (Cons tr trs)
  let ?x = "unat (tr_time tr)" and ?st = "unat st" and ?sp = "unat sp"
  note ok = Cons.prems(1)
  have tx: "tau \<le> ?x" using ok by (simp add: sweep_ok_def)
  note cov = covered_Cons [OF tx sweep_ok_sorted_time [OF ok], of ?st ?sp]
  have a32: "Suc a < 2 ^ 32" using ok by (simp add: sweep_ok_def)
  show ?case
  proof (cases "tr_type tr")
    case CHILD_START
    then have d: "delta_of tr = 1" by (simp add: delta_of_def)
    have u: "unat (active + 1) = Suc a"
      using a32 Cons.prems(2) by (intro unat_plus1_lt [of active "- 1", THEN trans])
        (auto simp: word_less_nat_alt unsigned_minus_1_eq_mask mask_eq_exp_minus_1)
    have ok': "sweep_ok ?x (Suc a) trs" using sweep_ok_tail [OF ok, of "Suc a"] d by simp
    let ?l = "if active = 0 then if tr_time tr > st then tr_time tr else st else last_start"
    have az: "active = 0 \<longleftrightarrow> a = 0" using Cons.prems(2) unat_eq_0 [of active] by simp
    have l: "?st \<le> unat ?l \<and> unat ?l \<le> max ?x ?st"
      using Cons.prems(3) tx az by (cases "a = 0") (auto simp: word_less_nat_alt not_less)
    have eq: "pending ?sp ?x (Suc a) (unat ?l) + covered ?st ?sp ?x (int (Suc a)) trs =
      pending ?sp tau a (unat last_start) + covered ?st ?sp tau (int a) (tr # trs)"
      using Cons.prems(3) tx cov [of "int a"] d az
      by (cases "a = 0") (auto simp: pending_def word_less_nat_alt not_less add.commute interval_split [OF tx])
    have "unat (exclusive_loop st sp trs (active + 1) excl ?l) = unat excl -
      (pending ?sp ?x (Suc a) (unat ?l) + covered ?st ?sp ?x (int (Suc a)) trs)"
      by (rule Cons.IH [OF ok' u]) (use l eq Cons.prems(4) in simp_all)
    then show ?thesis using CHILD_START eq by (simp add: Let_def)
  next
    case CHILD_STOP
    then have d: "delta_of tr = -1" by (simp add: delta_of_def)
    have pos: "0 < a" using sweep_ok_stop_active [OF ok CHILD_STOP] .
    then have nz: "active \<noteq> 0" using Cons.prems(2) by auto
    then have u: "unat (active - 1) = a - 1" using Cons.prems(2) by (simp add: unat_minus1)
    have ok': "sweep_ok ?x (a - 1) trs" using sweep_ok_tail [OF ok, of "a - 1"] d pos by simp
    have ls: "?st \<le> unat last_start" "unat last_start \<le> max tau ?st" using Cons.prems(3) pos by auto
    have total: "pending ?sp tau a (unat last_start) + covered ?st ?sp tau (int a) (tr # trs) =
      (min ?x ?sp - unat last_start) + covered ?st ?sp ?x (int (a - 1)) trs"
      using pos ls tx cov [of "int a"] d by (auto simp: pending_def of_nat_diff interval_split [OF tx])
    show ?thesis
    proof (cases "active = 1")
      case False
      then have "a \<noteq> 1" using Cons.prems(2) by (metis unat_1 unsigned_word_eqI)
      then have "1 < a" using pos by simp
      then have p': "pending ?sp ?x (a - 1) (unat last_start) = min ?x ?sp - unat last_start"
        by (simp add: pending_def)
      have "unat (exclusive_loop st sp trs (active - 1) excl last_start) = unat excl -
        (pending ?sp ?x (a - 1) (unat last_start) + covered ?st ?sp ?x (int (a - 1)) trs)"
        by (rule Cons.IH [OF ok' u]) (use ls tx total p' Cons.prems(4) in simp_all)
      then show ?thesis using CHILD_STOP nz False total p' by (simp add: Let_def)
    next
      case True
      then have a1: "a = 1" using Cons.prems(2) by simp
      let ?d = "if sp < tr_time tr then nr_time_duration last_start sp else nr_time_duration last_start (tr_time tr)"
      have dur: "unat ?d = min ?x ?sp - unat last_start"
        by (auto simp: unat_nr_time_duration word_less_nat_alt)
      have le: "unat ?d \<le> unat excl" using Cons.prems(4) total dur by simp
      then have sub: "unat (excl - ?d) = unat excl - unat ?d" by (simp add: unat_sub word_le_nat_alt)
      show ?thesis
      proof (cases "tr_time tr > sp")
        case past: True
        then have "covered ?st ?sp ?x (int (a - 1)) trs = 0"
          by (intro covered_past) (simp add: word_less_nat_alt)
        then show ?thesis
          using CHILD_STOP nz True past le sub total dur by (simp add: Let_def word_less_nat_alt)
      next
        case inside: False
        have rest: "covered ?st ?sp ?x (int (a - 1)) trs \<le> unat (excl - ?d)"
          using Cons.prems(4) unfolding total sub dur by linarith
        have "unat (exclusive_loop st sp trs (active - 1) (excl - ?d) last_start) = unat (excl - ?d) -
          (pending ?sp ?x (a - 1) (unat last_start) + covered ?st ?sp ?x (int (a - 1)) trs)"
          by (rule Cons.IH [OF ok' u]) (use a1 rest in \<open>simp_all add: pending_def\<close>)
        then show ?thesis
          using CHILD_STOP nz True inside le sub total dur a1
          by (simp add: Let_def word_less_nat_alt pending_def)
      qed
    qed
  qed
qed

section \<open>The calculation\<close>

text \<open>The transitions that a list of accepted children leaves in the structure.\<close>

definition transitions_of :: "(nrtime_t \<times> nrtime_t) list \<Rightarrow> nr_exclusive_time_transition list" where
  "transitions_of cs = concat (map (\<lambda>(s, e).
     [\<lparr>tr_time = s, tr_type = CHILD_START\<rparr>, \<lparr>tr_time = e, tr_type = CHILD_STOP\<rparr>]) cs)"

definition relevant :: "nrtime_t \<Rightarrow> nrtime_t \<Rightarrow> nrtime_t \<times> nrtime_t \<Rightarrow> bool" where
  "relevant st sp c = (case c of (s, e) \<Rightarrow> s \<le> e \<and> \<not> e < st \<and> \<not> s > sp)"

lemma transitions_of_simps [simp]:
  "transitions_of [] = []"
  "transitions_of (c # cs) =
     \<lparr>tr_time = fst c, tr_type = CHILD_START\<rparr> # \<lparr>tr_time = snd c, tr_type = CHILD_STOP\<rparr> # transitions_of cs"
  "transitions_of (xs @ ys) = transitions_of xs @ transitions_of ys"
  by (auto simp: transitions_of_def split: prod.splits)

lemma length_transitions_of: "length (transitions_of cs) = 2 * length cs"
  by (induction cs) auto

lemma depth_transitions_of:
  "depth_at (transitions_of cs) t =
   int (length (filter (\<lambda>(s, e). unat s \<le> t) cs)) - int (length (filter (\<lambda>(s, e). unat e \<le> t) cs))"
  by (induction cs) (auto simp: delta_of_def)

lemma depth_transitions_covering:
  assumes "\<forall>(s, e)\<in>set cs. s \<le> e"
  shows "depth_at (transitions_of cs) t = int (length (filter (\<lambda>(s, e). unat s \<le> t \<and> t < unat e) cs))"
  using assms by (induction cs) (auto simp: delta_of_def word_le_nat_alt)

lemma sum_delta_transitions_of: "sum_list (map delta_of (transitions_of cs)) = 0"
  by (induction cs) (auto simp: delta_of_def)

lemma add_children_struct:
  assumes "unat (et_used et) = length (et_transitions et)"
    and "unat (et_used et) + 2 * length cs \<le> unat (et_capacity et)"
  shows "\<exists>et'. add_children (Some et) cs = Some et' \<and>
    et_start_time et' = et_start_time et \<and> et_stop_time et' = et_stop_time et \<and>
    unat (et_used et') = length (et_transitions et') \<and>
    et_transitions et' =
      et_transitions et @ transitions_of (filter (relevant (et_start_time et) (et_stop_time et)) cs)"
  using assms
proof (induction cs arbitrary: et)
  case Nil
  then show ?case by simp
next
  case (Cons c cs)
  obtain s e where c: "c = (s, e)" by (cases c)
  have u2: "unat (et_used et + 2) = unat (et_used et) + 2"
  proof -
    have "unat (et_used et) + unat (2 :: size_t) < 2 ^ 64"
      using Cons.prems(2) unsigned_less [of "et_capacity et", where 'a = nat] by simp
    then show ?thesis by (simp add: unat_add_lem [THEN iffD1])
  qed
  have room: "\<not> et_used et + 2 > et_capacity et"
    using Cons.prems(2) u2 by (simp add: word_less_nat_alt)
  show ?case
  proof (cases "relevant (et_start_time et) (et_stop_time et) c")
    case False
    then have "snd (nr_exclusive_time_add_child (Some et) s e) = Some et"
      using c room by (auto simp: nr_exclusive_time_add_child_def relevant_def not_le)
    then show ?thesis using Cons.IH [of et] Cons.prems False c by simp
  next
    case True
    let ?et = "et\<lparr>et_transitions := et_transitions et @
                  [\<lparr>tr_time = s, tr_type = CHILD_START\<rparr>, \<lparr>tr_time = e, tr_type = CHILD_STOP\<rparr>],
                et_used := et_used et + 2\<rparr>"
    have "snd (nr_exclusive_time_add_child (Some et) s e) = Some ?et"
      using c room True by (auto simp: nr_exclusive_time_add_child_def relevant_def not_less)
    moreover have "\<exists>et'. add_children (Some ?et) cs = Some et' \<and>
      et_start_time et' = et_start_time ?et \<and> et_stop_time et' = et_stop_time ?et \<and>
      unat (et_used et') = length (et_transitions et') \<and>
      et_transitions et' =
        et_transitions ?et @ transitions_of (filter (relevant (et_start_time ?et) (et_stop_time ?et)) cs)"
      using Cons.prems u2 by (intro Cons.IH) auto
    ultimately show ?thesis using True c by simp
  qed
qed

lemma calculate_transitions:
  assumes ts: "et_transitions et = transitions_of cs" and used: "unat (et_used et) = length (et_transitions et)"
    and small: "length cs < 2 ^ 31" and ordered: "\<forall>(s, e)\<in>set cs. s \<le> e"
  shows "unat (fst (nr_exclusive_time_calculate (Some et))) =
    (unat (et_stop_time et) - unat (et_start_time et)) -
    covered (unat (et_start_time et)) (unat (et_stop_time et)) 0 0 (transitions_of cs)"
proof (cases "et_used et = 0")
  case True
  then have "transitions_of cs = []" using ts used by simp
  with True show ?thesis by (simp add: nr_exclusive_time_calculate_def unat_nr_time_duration covered_Nil)
next
  case False
  let ?trs = "qsort_r nr_exclusive_time_transition_compare (transitions_of cs)"
  let ?st = "unat (et_start_time et)" and ?sp = "unat (et_stop_time et)"
  have perm: "mset ?trs = mset (transitions_of cs)" by (rule libc.srt_perm)
  have cov: "covered ?st ?sp 0 0 ?trs = covered ?st ?sp 0 0 (transitions_of cs)"
    by (simp add: covered_def depth_at_cong [OF perm])
  have "sweep_ok 0 0 ?trs"
    unfolding sweep_ok_def
  proof (intro conjI)
    show "sorted_wrt (\<lambda>x y. nr_exclusive_time_transition_compare x y \<le> 0) ?trs"
      by (rule libc.srt_ordered [OF transition_compare_ok])
    show "\<forall>t. 0 \<le> int 0 + depth_at ?trs t"
      using depth_transitions_covering [OF ordered] by (simp add: depth_at_cong [OF perm])
    have "sum_list (map delta_of ?trs) = sum_list (map delta_of (transitions_of cs))"
      by (metis mset_map perm sum_mset_sum_list)
    then show "int 0 + sum_list (map delta_of ?trs) = 0" by (simp add: sum_delta_transitions_of)
    show "0 + length ?trs < 2 ^ 32" using small by (simp add: libc.srt_length length_transitions_of)
  qed simp
  moreover have "covered ?st ?sp 0 0 ?trs \<le> ?sp - ?st"
  proof -
    have "{t. 0 \<le> t \<and> ?st \<le> t \<and> t < ?sp \<and> 0 < 0 + depth_at ?trs t} \<subseteq> {?st..<?sp}" by auto
    from card_mono [OF _ this] show ?thesis by (simp add: covered_def)
  qed
  ultimately have "unat (exclusive_loop (et_start_time et) (et_stop_time et) ?trs 0
      (nr_time_duration (et_start_time et) (et_stop_time et)) 0) = (?sp - ?st) - covered ?st ?sp 0 0 ?trs"
    using exclusive_loop_sweep [of 0 0 ?trs 0 "et_start_time et" 0 "et_stop_time et"
        "nr_time_duration (et_start_time et) (et_stop_time et)"]
    by (simp add: pending_def unat_nr_time_duration)
  with False show ?thesis
    by (simp add: nr_exclusive_time_calculate_def nr_sort_def ts cov Let_def)
qed

text \<open>
  C2 (functional). Take a segment \<open>[start, stop]\<close> and any children, given to a structure created
  with room for them.  The exclusive time that \<open>nr_exclusive_time_calculate\<close> returns is the number
  of microseconds of the segment that lie in no child, however the children overlap, nest, start
  before the segment or end after it; children with start after stop, which are refused, and
  children outside the window count for nothing.
\<close>

theorem nr_exclusive_time_correct:
  assumes "start \<le> stop" "length cs \<le> unat n" "unat n < 2 ^ 31"
  shows "unat (fst (nr_exclusive_time_calculate (add_children (nr_exclusive_time_create n start stop) cs))) =
    card {t. unat start \<le> t \<and> t < unat stop \<and> (\<forall>(s, e)\<in>set cs. \<not> (unat s \<le> t \<and> t < unat e))}"
proof -
  let ?et = "\<lparr>et_start_time = start, et_stop_time = stop, et_capacity = n * 2, et_used = 0, et_transitions = []\<rparr>"
  let ?cs = "filter (relevant start stop) cs"
  have create: "nr_exclusive_time_create n start stop = Some ?et"
    using assms(1) by (simp add: nr_exclusive_time_create_def)
  have "unat (n * 2) = unat n * 2"
    using assms(3) by (subst unat_mult_lem [THEN iffD1]) auto
  then obtain et where et: "add_children (Some ?et) cs = Some et" "et_start_time et = start"
    "et_stop_time et = stop" "unat (et_used et) = length (et_transitions et)" "et_transitions et = transitions_of ?cs"
    using add_children_struct [of ?et cs] assms(2) by auto
  have ordered: "\<forall>(s, e)\<in>set ?cs. s \<le> e" by (auto simp: relevant_def)
  have "length ?cs < 2 ^ 31" using assms(2,3) length_filter_le [of "relevant start stop" cs] by linarith
  from calculate_transitions [OF et(5,4) this ordered]
  have "unat (fst (nr_exclusive_time_calculate (Some et))) =
    (unat stop - unat start) - covered (unat start) (unat stop) 0 0 (transitions_of ?cs)"
    by (simp add: et)
  moreover have "covered (unat start) (unat stop) 0 0 (transitions_of ?cs) =
    card {t. unat start \<le> t \<and> t < unat stop \<and> \<not> (\<forall>(s, e)\<in>set cs. \<not> (unat s \<le> t \<and> t < unat e))}"
  proof -
    have "0 < depth_at (transitions_of ?cs) t \<longleftrightarrow> \<not> (\<forall>(s, e)\<in>set cs. \<not> (unat s \<le> t \<and> t < unat e))"
      if "unat start \<le> t" "t < unat stop" for t
    proof -
      have "relevant start stop (s, e)" if "unat s \<le> t" "t < unat e" for s e
        using that \<open>unat start \<le> t\<close> \<open>t < unat stop\<close>
        by (simp add: relevant_def word_le_nat_alt word_less_nat_alt)
      then have "filter (\<lambda>(s, e). unat s \<le> t \<and> t < unat e) ?cs = filter (\<lambda>(s, e). unat s \<le> t \<and> t < unat e) cs"
        by (auto intro!: filter_cong)
      then have "depth_at (transitions_of ?cs) t = int (length (filter (\<lambda>(s, e). unat s \<le> t \<and> t < unat e) cs))"
        by (simp only: depth_transitions_covering [OF ordered])
      then show ?thesis by (simp add: filter_empty_conv case_prod_unfold)
    qed
    then show ?thesis unfolding covered_def by (intro arg_cong [where f = card]) auto
  qed
  moreover have "unat stop - unat start =
      card {t. unat start \<le> t \<and> t < unat stop \<and> \<not> (\<forall>(s, e)\<in>set cs. \<not> (unat s \<le> t \<and> t < unat e))} +
      card {t. unat start \<le> t \<and> t < unat stop \<and> (\<forall>(s, e)\<in>set cs. \<not> (unat s \<le> t \<and> t < unat e))}"
    by (simp only: card_window_split)
  ultimately show ?thesis using create et(1) by simp
qed

theorem nr_exclusive_time_correct_witness:
  "(10 :: nrtime_t) \<le> 20 \<and> length [(5 :: nrtime_t, 12 :: nrtime_t), (11, 13), (18, 30)] \<le> unat (3 :: size_t) \<and>
   unat (fst (nr_exclusive_time_calculate
     (add_children (nr_exclusive_time_create 3 10 20) [(5, 12), (11, 13), (18, 30)]))) =
   card {t. 10 \<le> t \<and> t < (20 :: nat) \<and> (\<forall>(s, e)\<in>set [(5, 12), (11, 13), (18, 30 :: nrtime_t)].
              \<not> (unat (s :: nrtime_t) \<le> t \<and> t < unat e))}"
  using nr_exclusive_time_correct [of 10 20 "[(5, 12), (11, 13), (18, 30)]" 3] by simp

end
