(* ===== verification/C_Strings.thy ===== *)
theory C_Strings
  imports Prelude
begin

text \<open>
  The string helpers of util_strings.c, util_strings.h and util_memory.c that the SDK uses.

  A \<open>char*\<close> that may be NULL is a \<open>string option\<close>; the characters of a string are the ones
  before its terminating zero.  A \<open>char\<close> array inside a struct is a list of characters of the
  array's size (zeros included), so that a copy that does not fit can be told from one that does:
  the functions that write arrays return \<open>None\<close> when the C code would write outside the array,
  which is undefined behaviour.
\<close>

section \<open>Strings\<close>

definition nr_strlen :: "string option \<Rightarrow> nat" where
  "nr_strlen str = (case str of None \<Rightarrow> 0 | Some s \<Rightarrow> length s)"

definition nr_strempty :: "string option \<Rightarrow> bool" where
  "nr_strempty str = (case str of None \<Rightarrow> True | Some s \<Rightarrow> s = [])"

text \<open>Only whether the character was found matters to the callers.\<close>

definition nr_strchr :: "string option \<Rightarrow> char \<Rightarrow> bool" where
  "nr_strchr str c = (case str of None \<Rightarrow> False | Some s \<Rightarrow> c \<in> set s)"

definition nr_strdup_or :: "string option \<Rightarrow> string option \<Rightarrow> string" where
  "nr_strdup_or string_if_not_null default_string =
     (case string_if_not_null of Some s \<Rightarrow> s
      | None \<Rightarrow> (case default_string of Some s \<Rightarrow> s | None \<Rightarrow> []))"

text \<open>\<open>nr_strdup\<close> returns an empty string for NULL.\<close>

definition nr_strdup :: "string option \<Rightarrow> string" where
  "nr_strdup orig = (case orig of None \<Rightarrow> [] | Some s \<Rightarrow> s)"

definition nr_tolower :: "char \<Rightarrow> char" where
  "nr_tolower c = (if 65 \<le> (of_char c :: nat) \<and> (of_char c :: nat) \<le> 90 then char_of (of_char c + 32 :: nat) else c)"

definition nr_string_to_lowercase :: "string \<Rightarrow> string" where
  "nr_string_to_lowercase str = map nr_tolower str"

section \<open>Character arrays\<close>

abbreviation NUL :: char where "NUL \<equiv> CHR 0x00"

text \<open>The C string an array holds.\<close>

definition cstr :: "string \<Rightarrow> string" where
  "cstr a = takeWhile (\<lambda>c. c \<noteq> NUL) a"

text \<open>A zeroed array of a given size.\<close>

definition zero_array :: "nat \<Rightarrow> string" where
  "zero_array n = replicate n NUL"

text \<open>
  \<open>nr_strxcpy (dest, src, len)\<close> writes \<open>len\<close> bytes and a zero.  With \<open>len = 0\<close> it only writes
  the zero.
\<close>

definition nr_strxcpy :: "string \<Rightarrow> string option \<Rightarrow> nat \<Rightarrow> string option" where
  "nr_strxcpy dest src len =
     (case src of
        Some s \<Rightarrow>
          if len > 0 then
            if len < length dest \<and> len \<le> Suc (length s)
            then Some (take len (s @ [NUL]) @ [NUL] @ drop (Suc len) dest)
            else None
          else if dest \<noteq> [] then Some (dest[0 := NUL]) else None
      | None \<Rightarrow> if dest \<noteq> [] then Some (dest[0 := NUL]) else None)"

text \<open>\<open>nr_strlen\<close> on an array: without a zero inside the array it reads past the end.\<close>

definition array_strlen :: "string \<Rightarrow> nat option" where
  "array_strlen a = (if NUL \<in> set a then Some (length (cstr a)) else None)"

section \<open>Lemmas\<close>

text \<open>A C string has no zero inside.\<close>

definition is_cstring :: "string \<Rightarrow> bool" where
  "is_cstring s \<longleftrightarrow> NUL \<notin> set s"

lemma cstr_append_NUL: "is_cstring s \<Longrightarrow> cstr (s @ NUL # t) = s"
  unfolding cstr_def is_cstring_def by (subst takeWhile_append2) auto

lemma cstr_is_cstring [simp]: "is_cstring (cstr a)"
  unfolding cstr_def is_cstring_def using set_takeWhileD [of NUL "\<lambda>c. c \<noteq> NUL" a] by blast

lemma length_cstr_le: "length (cstr a) \<le> length a"
  by (simp add: cstr_def length_takeWhile_le)

lemma length_cstr_less: "NUL \<in> set a \<Longrightarrow> length (cstr a) < length a"
proof (rule ccontr)
  assume nul: "NUL \<in> set a" and "\<not> length (cstr a) < length a"
  then have "cstr a = a" using length_cstr_le [of a] takeWhile_eq_take [of "\<lambda>c. c \<noteq> NUL" a] by (simp add: cstr_def)
  with nul show False using cstr_is_cstring [of a] by (simp add: is_cstring_def)
qed

lemma nr_strxcpy_fits:
  assumes "is_cstring s"
  shows "nr_strxcpy dest (Some s) (length s) \<noteq> None \<longleftrightarrow> length s < length dest"
    "nr_strxcpy dest (Some s) (length s) = Some d \<Longrightarrow> cstr d = s \<and> length d = length dest"
  using assms cstr_append_NUL [OF assms]
  by (auto simp: nr_strxcpy_def cstr_def split: if_splits) (cases dest; auto)+

end
