(* ===== verification/Config.thy ===== *)
theory Config
  imports C_Strings "HOL-Library.Monad_Syntax"
begin

text \<open>
  The configuration types of libnewrelic.h, the transaction options of nr_txn.h and config.c.

  A C enumeration argument can hold any integer, so each enumeration has a constructor for the
  values outside it.  The \<open>int\<close> flags of \<open>nrtxnopt_t\<close> are booleans: the code only tests them.
  A result \<open>None\<close> is undefined behaviour (a write outside an array); \<open>Some None\<close> is a NULL
  result.
\<close>

section \<open>Types\<close>

type_synonym newrelic_time_us_t = uint64

datatype newrelic_loglevel_t =
  NEWRELIC_LOG_ERROR | NEWRELIC_LOG_WARNING | NEWRELIC_LOG_INFO | NEWRELIC_LOG_DEBUG | NEWRELIC_LOG_OTHER nat

datatype newrelic_tt_recordsql_t =
  NEWRELIC_SQL_OFF | NEWRELIC_SQL_RAW | NEWRELIC_SQL_OBFUSCATED | NEWRELIC_SQL_OUT_OF_RANGE nat

datatype newrelic_transaction_tracer_threshold_t =
  NEWRELIC_THRESHOLD_IS_APDEX_FAILING | NEWRELIC_THRESHOLD_IS_OVER_DURATION | NEWRELIC_THRESHOLD_OUT_OF_RANGE nat

record newrelic_datastore_reporting =
  dr_enabled :: bool
  dr_record_sql :: newrelic_tt_recordsql_t
  dr_threshold_us :: newrelic_time_us_t

record newrelic_transaction_tracer_config =
  ttc_enabled :: bool
  ttc_threshold :: newrelic_transaction_tracer_threshold_t
  ttc_duration_us :: newrelic_time_us_t
  ttc_stack_trace_threshold_us :: newrelic_time_us_t
  ttc_datastore_reporting :: newrelic_datastore_reporting

record newrelic_datastore_segment_config =
  dsc_instance_reporting :: bool
  dsc_database_name_reporting :: bool

record newrelic_distributed_tracing_config =
  dtc_enabled :: bool

record newrelic_span_event_config =
  sec_enabled :: bool

record newrelic_app_config =
  cfg_app_name :: string
  cfg_license_key :: string
  cfg_redirect_collector :: string
  cfg_log_filename :: string
  cfg_log_level :: newrelic_loglevel_t
  cfg_transaction_tracer :: newrelic_transaction_tracer_config
  cfg_datastore_tracer :: newrelic_datastore_segment_config
  cfg_distributed_tracing :: newrelic_distributed_tracing_config
  cfg_span_events :: newrelic_span_event_config

datatype nr_tt_recordsql_t = NR_SQL_NONE | NR_SQL_RAW | NR_SQL_OBFUSCATED

record nrtxnopt =
  opt_custom_events_enabled :: bool
  opt_synthetics_enabled :: bool
  opt_instance_reporting_enabled :: bool
  opt_database_name_reporting_enabled :: bool
  opt_err_enabled :: bool
  opt_request_params_enabled :: bool
  opt_autorum_enabled :: bool
  opt_analytics_events_enabled :: bool
  opt_error_events_enabled :: bool
  opt_tt_enabled :: bool
  opt_ep_enabled :: bool
  opt_tt_recordsql :: nr_tt_recordsql_t
  opt_tt_slowsql :: bool
  opt_apdex_t :: nrtime_t
  opt_tt_threshold :: nrtime_t
  opt_tt_is_apdex_f :: bool
  opt_ep_threshold :: nrtime_t
  opt_ss_threshold :: nrtime_t
  opt_cross_process_enabled :: bool
  opt_allow_raw_exception_messages :: bool
  opt_custom_parameters_enabled :: bool
  opt_distributed_tracing_enabled :: bool
  opt_span_events_enabled :: bool
  opt_max_span_events :: size_t
  opt_discount_main_context_blocking :: bool

definition NR_LICENSE_SIZE :: nat where "NR_LICENSE_SIZE = 40"
definition NR_TIME_DIVISOR_MS :: nrtime_t where "NR_TIME_DIVISOR_MS = 1000"
definition NR_TIME_DIVISOR_US :: nrtime_t where "NR_TIME_DIVISOR_US = 1"

text \<open>\<open>nr_zalloc (sizeof (newrelic_app_config_t))\<close>: every field is zero.\<close>

definition zero_app_config :: newrelic_app_config where
  "zero_app_config = \<lparr>
     cfg_app_name = zero_array 255, cfg_license_key = zero_array 255,
     cfg_redirect_collector = zero_array 100, cfg_log_filename = zero_array 512,
     cfg_log_level = NEWRELIC_LOG_ERROR,
     cfg_transaction_tracer = \<lparr>ttc_enabled = False, ttc_threshold = NEWRELIC_THRESHOLD_IS_APDEX_FAILING,
       ttc_duration_us = 0, ttc_stack_trace_threshold_us = 0,
       ttc_datastore_reporting = \<lparr>dr_enabled = False, dr_record_sql = NEWRELIC_SQL_OFF, dr_threshold_us = 0\<rparr>\<rparr>,
     cfg_datastore_tracer = \<lparr>dsc_instance_reporting = False, dsc_database_name_reporting = False\<rparr>,
     cfg_distributed_tracing = \<lparr>dtc_enabled = False\<rparr>,
     cfg_span_events = \<lparr>sec_enabled = False\<rparr>\<rparr>"

definition zero_txnopt :: nrtxnopt where
  "zero_txnopt = \<lparr>
     opt_custom_events_enabled = False, opt_synthetics_enabled = False, opt_instance_reporting_enabled = False,
     opt_database_name_reporting_enabled = False, opt_err_enabled = False, opt_request_params_enabled = False,
     opt_autorum_enabled = False, opt_analytics_events_enabled = False, opt_error_events_enabled = False,
     opt_tt_enabled = False, opt_ep_enabled = False, opt_tt_recordsql = NR_SQL_NONE, opt_tt_slowsql = False,
     opt_apdex_t = 0, opt_tt_threshold = 0, opt_tt_is_apdex_f = False, opt_ep_threshold = 0, opt_ss_threshold = 0,
     opt_cross_process_enabled = False, opt_allow_raw_exception_messages = False,
     opt_custom_parameters_enabled = False, opt_distributed_tracing_enabled = False,
     opt_span_events_enabled = False, opt_max_span_events = 0, opt_discount_main_context_blocking = False\<rparr>"

section \<open>Operations of config.c\<close>

fun newrelic_validate_recordsql :: "newrelic_tt_recordsql_t \<Rightarrow> nr_tt_recordsql_t" where
  "newrelic_validate_recordsql NEWRELIC_SQL_OFF = NR_SQL_NONE"
| "newrelic_validate_recordsql NEWRELIC_SQL_RAW = NR_SQL_RAW"
| "newrelic_validate_recordsql NEWRELIC_SQL_OBFUSCATED = NR_SQL_OBFUSCATED"
| "newrelic_validate_recordsql (NEWRELIC_SQL_OUT_OF_RANGE n) = NR_SQL_OBFUSCATED"

text \<open>The assignments of the defaults in \<open>newrelic_create_app_config\<close>, after the two copies.\<close>

definition set_config_defaults :: "newrelic_app_config \<Rightarrow> newrelic_app_config" where
  "set_config_defaults config = config\<lparr>
     cfg_transaction_tracer := \<lparr>ttc_enabled = True, ttc_threshold = NEWRELIC_THRESHOLD_IS_APDEX_FAILING,
       ttc_duration_us = 0, ttc_stack_trace_threshold_us = 500000,
       ttc_datastore_reporting =
         \<lparr>dr_enabled = True, dr_record_sql = NEWRELIC_SQL_OBFUSCATED, dr_threshold_us = 500000\<rparr>\<rparr>,
     cfg_datastore_tracer := \<lparr>dsc_instance_reporting = True, dsc_database_name_reporting = True\<rparr>,
     cfg_distributed_tracing := \<lparr>dtc_enabled = False\<rparr>,
     cfg_span_events := \<lparr>sec_enabled = True\<rparr>\<rparr>"

definition newrelic_create_app_config :: "string option \<Rightarrow> string option \<Rightarrow> newrelic_app_config option option" where
  "newrelic_create_app_config app_name license_key =
     (if app_name = None then Some None
      else if NR_LICENSE_SIZE \<noteq> nr_strlen license_key then Some None
      else do {
        name \<leftarrow> nr_strxcpy (cfg_app_name zero_app_config) app_name (nr_strlen app_name);
        key \<leftarrow> nr_strxcpy (cfg_license_key zero_app_config) license_key (nr_strlen license_key);
        Some (Some (set_config_defaults (zero_app_config\<lparr>cfg_app_name := name, cfg_license_key := key\<rparr>)))
      })"

text \<open>The argument is NULL, the address of a NULL pointer, or the address of a pointer to a config.\<close>

definition newrelic_destroy_app_config ::
  "newrelic_app_config option option \<Rightarrow> bool \<times> newrelic_app_config option option" where
  "newrelic_destroy_app_config config =
     (case config of None \<Rightarrow> (False, None) | Some None \<Rightarrow> (False, Some None) | Some (Some _) \<Rightarrow> (True, Some None))"

definition newrelic_get_default_options :: nrtxnopt where
  "newrelic_get_default_options = zero_txnopt\<lparr>
     opt_analytics_events_enabled := True,
     opt_custom_events_enabled := True,
     opt_synthetics_enabled := False,
     opt_instance_reporting_enabled := True,
     opt_database_name_reporting_enabled := True,
     opt_err_enabled := True,
     opt_request_params_enabled := False,
     opt_autorum_enabled := False,
     opt_error_events_enabled := True,
     opt_tt_enabled := True,
     opt_ep_enabled := False,
     opt_tt_recordsql := NR_SQL_OBFUSCATED,
     opt_tt_slowsql := True,
     opt_apdex_t := 0,
     opt_tt_threshold := 0,
     opt_ep_threshold := 500 * NR_TIME_DIVISOR_MS,
     opt_ss_threshold := 500 * NR_TIME_DIVISOR_MS,
     opt_cross_process_enabled := False,
     opt_tt_is_apdex_f := True,
     opt_allow_raw_exception_messages := True,
     opt_custom_parameters_enabled := True,
     opt_distributed_tracing_enabled := False,
     opt_span_events_enabled := True\<rparr>"

definition newrelic_get_transaction_options :: "newrelic_app_config option \<Rightarrow> nrtxnopt" where
  "newrelic_get_transaction_options config =
     (case config of None \<Rightarrow> newrelic_get_default_options
      | Some c \<Rightarrow>
          let tt = cfg_transaction_tracer c; ds = ttc_datastore_reporting tt;
              opt = newrelic_get_default_options\<lparr>
                opt_instance_reporting_enabled := dsc_instance_reporting (cfg_datastore_tracer c),
                opt_database_name_reporting_enabled := dsc_database_name_reporting (cfg_datastore_tracer c),
                opt_tt_enabled := ttc_enabled tt,
                opt_tt_recordsql := newrelic_validate_recordsql (dr_record_sql ds),
                opt_tt_slowsql := dr_enabled ds,
                opt_ep_threshold := dr_threshold_us ds * NR_TIME_DIVISOR_US,
                opt_ss_threshold := ttc_stack_trace_threshold_us tt * NR_TIME_DIVISOR_US,
                opt_distributed_tracing_enabled := dtc_enabled (cfg_distributed_tracing c),
                opt_span_events_enabled := sec_enabled (cfg_span_events c)\<rparr>
          in if ttc_threshold tt = NEWRELIC_THRESHOLD_IS_APDEX_FAILING
             then opt\<lparr>opt_tt_is_apdex_f := True\<rparr>
             else opt\<lparr>opt_tt_is_apdex_f := False, opt_tt_threshold := ttc_duration_us tt\<rparr>)"

section \<open>Well-formed configurations\<close>

text \<open>The arrays have their declared sizes and hold a terminated string.\<close>

definition config_wf :: "newrelic_app_config \<Rightarrow> bool" where
  "config_wf c \<longleftrightarrow>
     length (cfg_app_name c) = 255 \<and> length (cfg_license_key c) = 255 \<and>
     length (cfg_redirect_collector c) = 100 \<and> length (cfg_log_filename c) = 512 \<and>
     NUL \<in> set (cfg_app_name c) \<and> NUL \<in> set (cfg_license_key c) \<and>
     NUL \<in> set (cfg_redirect_collector c) \<and> NUL \<in> set (cfg_log_filename c)"

lemma set_config_defaults_arrays [simp]:
  "cfg_app_name (set_config_defaults c) = cfg_app_name c"
  "cfg_license_key (set_config_defaults c) = cfg_license_key c"
  "cfg_redirect_collector (set_config_defaults c) = cfg_redirect_collector c"
  "cfg_log_filename (set_config_defaults c) = cfg_log_filename c"
  by (simp_all add: set_config_defaults_def)

lemma length_zero_array [simp]: "length (zero_array n) = n"
  by (simp add: zero_array_def)

lemma NUL_from_length: "length (cstr a) < length a \<Longrightarrow> NUL \<in> set a"
proof (rule ccontr)
  assume less: "length (cstr a) < length a" and "NUL \<notin> set a"
  then have "cstr a = a" by (auto simp: cstr_def takeWhile_eq_all_conv)
  with less show False by simp
qed

text \<open>
  C18 (bounds).  \<open>newrelic_create_app_config\<close> on a license key of the right length stays inside the
  arrays of the struct exactly when the application name has at most 254 characters; then the
  result is a well-formed configuration whose name and key are the strings given.  A longer name is
  written past the end of \<open>app_name\<close>.
\<close>

theorem newrelic_create_app_config_bounds:
  assumes name: "is_cstring name" and key: "is_cstring key" "length key = NR_LICENSE_SIZE"
  shows "(newrelic_create_app_config (Some name) (Some key) = None \<longleftrightarrow> 254 < length name) \<and>
    (length name \<le> 254 \<longrightarrow>
      (\<exists>c. newrelic_create_app_config (Some name) (Some key) = Some (Some c) \<and> config_wf c \<and>
        cstr (cfg_app_name c) = name \<and> cstr (cfg_license_key c) = key))"
proof -
  let ?z = zero_app_config
  have z: "length (cfg_app_name ?z) = 255" "length (cfg_license_key ?z) = 255"
    by (simp_all add: zero_app_config_def)
  have k: "nr_strxcpy (cfg_license_key ?z) (Some key) (length key) \<noteq> None"
    using nr_strxcpy_fits(1) [OF key(1)] key(2) z by (simp add: NR_LICENSE_SIZE_def)
  then obtain kk where kk: "nr_strxcpy (cfg_license_key ?z) (Some key) (length key) = Some kk" by auto
  have eq: "newrelic_create_app_config (Some name) (Some key) =
      map_option (\<lambda>n. Some (set_config_defaults (?z\<lparr>cfg_app_name := n, cfg_license_key := kk\<rparr>)))
        (nr_strxcpy (cfg_app_name ?z) (Some name) (length name))"
    using key(2) kk
    by (cases "nr_strxcpy (cfg_app_name ?z) (Some name) (length name)")
      (simp_all add: newrelic_create_app_config_def nr_strlen_def)
  have none: "nr_strxcpy (cfg_app_name ?z) (Some name) (length name) = None \<longleftrightarrow> 254 < length name"
    using nr_strxcpy_fits(1) [OF name, of "cfg_app_name ?z"] z by auto
  moreover have "\<exists>c. newrelic_create_app_config (Some name) (Some key) = Some (Some c) \<and> config_wf c \<and>
      cstr (cfg_app_name c) = name \<and> cstr (cfg_license_key c) = key" if len: "length name \<le> 254"
  proof -
    from none len obtain n where n: "nr_strxcpy (cfg_app_name ?z) (Some name) (length name) = Some n" by fastforce
    note fn = nr_strxcpy_fits(2) [OF name n] and fk = nr_strxcpy_fits(2) [OF key(1) kk]
    have "NUL \<in> set n" "NUL \<in> set kk"
      using fn fk len key(2) z by (auto intro!: NUL_from_length simp: NR_LICENSE_SIZE_def)
    then have "config_wf (set_config_defaults (?z\<lparr>cfg_app_name := n, cfg_license_key := kk\<rparr>))"
      using fn fk z by (simp add: config_wf_def zero_app_config_def zero_array_def)
    with eq n fn fk show ?thesis by simp
  qed
  ultimately show ?thesis using eq by simp
qed

theorem newrelic_create_app_config_bounds_witness:
  "let key = replicate 40 (CHR ''a'') in
   is_cstring ''shop'' \<and> newrelic_create_app_config (Some ''shop'') (Some key) \<noteq> None \<and>
   newrelic_create_app_config (Some (replicate 300 (CHR ''n''))) (Some key) = None"
proof -
  let ?key = "replicate 40 (CHR ''a'')"
  have c: "is_cstring ''shop''" "is_cstring (replicate 300 (CHR ''n''))" "is_cstring ?key" "length ?key = NR_LICENSE_SIZE"
    by (simp_all add: is_cstring_def NR_LICENSE_SIZE_def)
  show ?thesis
    unfolding Let_def
    using newrelic_create_app_config_bounds [OF c(1,3,4)] newrelic_create_app_config_bounds [OF c(2,3,4)] c(1) by simp
qed

text \<open>
  C19 (equivalence).  The transaction options derived from a configuration that
  \<open>newrelic_create_app_config\<close> returned and nobody changed are the default options, the ones a NULL
  configuration gives.
\<close>

theorem default_config_gives_default_options:
  assumes "newrelic_create_app_config name key = Some (Some c)"
  shows "newrelic_get_transaction_options (Some c) = newrelic_get_transaction_options None"
proof -
  obtain c0 where "c = set_config_defaults c0"
    using assms by (auto simp: newrelic_create_app_config_def split: if_splits Option.bind_splits)
  then show ?thesis
    by (simp add: newrelic_get_transaction_options_def set_config_defaults_def newrelic_get_default_options_def
        Let_def NR_TIME_DIVISOR_MS_def NR_TIME_DIVISOR_US_def)
qed

theorem default_config_gives_default_options_witness:
  "\<exists>c. newrelic_create_app_config (Some ''shop'') (Some (replicate 40 (CHR ''a''))) = Some (Some c) \<and>
     opt_ss_threshold (newrelic_get_transaction_options (Some c)) = 500000"
proof -
  obtain c where c: "newrelic_create_app_config (Some ''shop'') (Some (replicate 40 (CHR ''a''))) = Some (Some c)"
    by (simp add: newrelic_create_app_config_def nr_strxcpy_def nr_strlen_def NR_LICENSE_SIZE_def zero_app_config_def)
  with default_config_gives_default_options [OF c] show ?thesis
    by (simp add: newrelic_get_transaction_options_def newrelic_get_default_options_def NR_TIME_DIVISOR_MS_def)
qed

end
