(* ===== verification/Hash_Tree.thy ===== *)
theory Hash_Tree
  imports C_Strings "HOL-Library.Monad_Syntax"
begin

text \<open>
  The hash function of util_hash.c, and binary trees of hashed nodes kept in an array, the structure
  that the string pool (util_string_pool.c) and the metric table (util_metrics.c) share.

  Both search from node 0 and go to the left child when the node's hash is less than the one searched
  for and to the right child otherwise; both append a new node and hang it below the node where the
  search ended.  The generic search \<open>descend\<close> and the well-formedness \<open>tree_ok\<close> are stated over the
  number of nodes, their hashes and the child that the search takes.
\<close>

section \<open>nr_mkhash\<close>

text \<open>The mixing of one four-byte block of MurmurHash3.\<close>

definition rotl32 :: "uint32 \<Rightarrow> nat \<Rightarrow> uint32" where
  "rotl32 k r = (push_bit r k) OR (drop_bit (32 - r) k)"

definition scramble :: "uint32 \<Rightarrow> uint32" where
  "scramble k = rotl32 (k * 0xcc9e2d51) 15 * 0x1b873593"

definition byte32 :: "char \<Rightarrow> uint32" where
  "byte32 c = word_of_nat (of_char c)"

text \<open>The blocks, read as little-endian words, and then the one to three bytes that remain.\<close>

fun hash_blocks :: "uint32 \<Rightarrow> string \<Rightarrow> uint32" where
  "hash_blocks hash (a # b # c # d # rest) =
     hash_blocks
       (rotl32 (hash XOR scramble (byte32 a OR push_bit 8 (byte32 b) OR push_bit 16 (byte32 c) OR push_bit 24 (byte32 d)))
          13 * 5 + 0xe6546b64) rest"
| "hash_blocks hash [a, b, c] = hash XOR scramble (push_bit 16 (byte32 c) XOR push_bit 8 (byte32 b) XOR byte32 a)"
| "hash_blocks hash [a, b] = hash XOR scramble (push_bit 8 (byte32 b) XOR byte32 a)"
| "hash_blocks hash [a] = hash XOR scramble (byte32 a)"
| "hash_blocks hash [] = hash"

definition hash_finish :: "uint32 \<Rightarrow> uint32" where
  "hash_finish hash =
     (let hash = hash XOR drop_bit 16 hash;
          hash = hash * 0x85ebca6b;
          hash = hash XOR drop_bit 13 hash;
          hash = hash * 0xc2b2ae35
      in hash XOR drop_bit 16 hash)"

text \<open>
  \<open>nr_mkhash\<close> with the length it stores through its second argument; every caller passes NULL or the
  address of a zero.
\<close>

definition nr_mkhash :: "string option \<Rightarrow> uint32 \<times> nat" where
  "nr_mkhash str =
     (case str of None \<Rightarrow> (0, 0)
      | Some s \<Rightarrow>
          if s = [] then (0, 0)
          else (hash_finish (hash_blocks 0x290848ab s XOR word_of_nat (length s)), length s))"

lemma snd_nr_mkhash [simp]: "snd (nr_mkhash (Some s)) = length s"
  by (simp add: nr_mkhash_def)

section \<open>Searching\<close>

text \<open>
  From node \<open>i\<close>: the first node on the way that matches (with \<open>True\<close>), or the last node of the way
  (with \<open>False\<close>).  \<open>None\<close> when the steps given do not suffice.
\<close>

fun descend :: "nat \<Rightarrow> (nat \<Rightarrow> bool) \<Rightarrow> (nat \<Rightarrow> nat option) \<Rightarrow> nat \<Rightarrow> (bool \<times> nat) option" where
  "descend fuel P link i =
     (if P i then Some (True, i)
      else case link i of None \<Rightarrow> Some (False, i)
        | Some j \<Rightarrow> (case fuel of 0 \<Rightarrow> None | Suc f \<Rightarrow> descend f P link j))"

declare descend.simps [simp del]

abbreviation path :: "(nat \<Rightarrow> nat option) \<Rightarrow> (nat \<times> nat) set" where
  "path link \<equiv> {(a, b). link a = Some b}\<^sup>*"

definition links_up :: "nat \<Rightarrow> (nat \<Rightarrow> nat option) \<Rightarrow> bool" where
  "links_up n link \<longleftrightarrow> (\<forall>i j. i < n \<longrightarrow> link i = Some j \<longrightarrow> i < j \<and> j < n)"

lemma descend_result:
  assumes "links_up n link" "i < n" "n \<le> i + fuel"
  obtains k where "descend fuel P link i = Some (True, k)" "k < n" "P k" "(i, k) \<in> path link"
  | k where "descend fuel P link i = Some (False, k)" "k < n" "link k = None" "(i, k) \<in> path link"
      "\<And>j. (i, j) \<in> path link \<Longrightarrow> \<not> P j"
proof -
  have "(\<exists>k. descend fuel P link i = Some (True, k) \<and> k < n \<and> P k \<and> (i, k) \<in> path link) \<or>
    (\<exists>k. descend fuel P link i = Some (False, k) \<and> k < n \<and> link k = None \<and> (i, k) \<in> path link \<and>
      (\<forall>j. (i, j) \<in> path link \<longrightarrow> \<not> P j))"
    using assms(2,3)
  proof (induction fuel arbitrary: i)
    case (Suc f)
    show ?case
    proof (cases "P i")
      case True
      then show ?thesis using Suc.prems by (auto simp: descend.simps)
    next
      case notP: False
      show ?thesis
      proof (cases "link i")
        case None
        then have "(i, j) \<in> path link \<Longrightarrow> j = i" for j by (auto elim: converse_rtranclE)
        with None notP Suc.prems show ?thesis by (auto simp: descend.simps)
      next
        case (Some j)
        have j: "i < j" "j < n" using assms(1) Suc.prems(1) Some unfolding links_up_def by blast+
        have step: "descend (Suc f) P link i = descend f P link j" using Some notP by (simp add: descend.simps [of "Suc f"])
        have to: "(j, k) \<in> path link \<Longrightarrow> (i, k) \<in> path link" for k
          using Some by (auto intro: converse_rtrancl_into_rtrancl)
        have from_i: "(i, k) \<in> path link \<Longrightarrow> k = i \<or> (j, k) \<in> path link" for k
          using Some by (auto elim: converse_rtranclE)
        consider k where "descend f P link j = Some (True, k)" "k < n" "P k" "(j, k) \<in> path link"
          | k where "descend f P link j = Some (False, k)" "k < n" "link k = None" "(j, k) \<in> path link"
              "\<forall>l. (j, l) \<in> path link \<longrightarrow> \<not> P l"
          using Suc.IH [of j] j Suc.prems by fastforce
        then show ?thesis
        proof cases
          case 1
          with step to show ?thesis by metis
        next
          case 2
          then have "\<forall>l. (i, l) \<in> path link \<longrightarrow> \<not> P l" using from_i notP by blast
          with 2 step to show ?thesis by metis
        qed
      qed
    qed
  qed simp
  then show thesis using that by blast
qed

section \<open>Well-formed trees\<close>

definition tree_ok :: "nat \<Rightarrow> (nat \<Rightarrow> uint32) \<Rightarrow> (uint32 \<Rightarrow> nat \<Rightarrow> nat option) \<Rightarrow> bool" where
  "tree_ok n hash link \<longleftrightarrow>
     (\<forall>h. links_up n (link h)) \<and> (\<forall>j < n. (0, j) \<in> path (link (hash j)))"

lemma tree_search:
  assumes "tree_ok n hash link" "0 < n" "\<And>k. k < n \<Longrightarrow> P k \<Longrightarrow> hash k = h"
  obtains k where "descend n P (link h) 0 = Some (True, k)" "k < n" "P k"
  | k where "descend n P (link h) 0 = Some (False, k)" "k < n" "link h k = None" "(0, k) \<in> path (link h)"
      "\<And>j. j < n \<Longrightarrow> \<not> P j"
proof -
  have up: "links_up n (link h)" using assms(1) by (simp add: tree_ok_def)
  show thesis
  proof (rule descend_result [OF up assms(2), of n P])
    show "n \<le> 0 + n" by simp
  next
    fix k
    assume r: "descend n P (link h) 0 = Some (False, k)" "k < n" "link h k = None" "(0, k) \<in> path (link h)"
      and none: "\<And>j. (0, j) \<in> path (link h) \<Longrightarrow> \<not> P j"
    have "\<not> P j" if "j < n" for j
    proof
      assume "P j"
      with assms(3) [OF that] assms(1) that have "(0, j) \<in> path (link h)" by (auto simp: tree_ok_def)
      with none \<open>P j\<close> show False by blast
    qed
    with r show thesis by (rule that(2))
  qed (use that(1) in blast)
qed

lemma tree_extend:
  assumes ok: "tree_ok n hash link" and k: "k < n" "(0, k) \<in> path (link h)" "link' h k = Some n"
    and old: "\<And>h' i j. i < n \<Longrightarrow> link h' i = Some j \<Longrightarrow> link' h' i = Some j"
    and new: "\<And>h' i j. i < n \<Longrightarrow> link' h' i = Some j \<Longrightarrow> link h' i = Some j \<or> j = n"
    and last: "\<And>h'. link' h' n = None"
    and hash: "\<And>j. j < n \<Longrightarrow> hash' j = hash j" "hash' n = h"
  shows "tree_ok (Suc n) hash' link'"
proof -
  have up: "links_up n (link h')" for h' using ok by (simp add: tree_ok_def)
  have "links_up (Suc n) (link' h')" for h'
  proof -
    have "i < j \<and> j < Suc n" if "i < Suc n" "link' h' i = Some j" for i j
    proof (cases "i = n")
      case True
      with that last show ?thesis by simp
    next
      case False
      then have i: "i < n" using that(1) by simp
      from new [OF i that(2)] show ?thesis
      proof
        assume "link h' i = Some j"
        then have "i < j \<and> j < n" using up [of h'] i unfolding links_up_def by blast
        then show ?thesis by simp
      qed (use i in simp)
    qed
    then show ?thesis unfolding links_up_def by blast
  qed
  moreover have mono: "(0, j) \<in> path (link' h')" if "(0, j) \<in> path (link h')" for h' j
  proof -
    have "(0, j) \<in> path (link' h') \<and> j < n" using that
    proof (induction rule: rtrancl_induct)
      case base
      then show ?case using k(1) by simp
    next
      case (step y z)
      then have y: "link h' y = Some z" "y < n" by auto
      then have "z < n" using up [of h'] unfolding links_up_def by blast
      moreover have "(y, z) \<in> {(a, b). link' h' a = Some b}" using old [OF y(2,1)] by simp
      ultimately show ?case using step.IH by (blast intro: rtrancl_into_rtrancl)
    qed
    then show ?thesis ..
  qed
  moreover have "(0, n) \<in> path (link' h)"
  proof -
    have "(k, n) \<in> {(a, b). link' h a = Some b}" using k(3) by simp
    with mono [OF k(2)] show ?thesis by (rule rtrancl_into_rtrancl)
  qed
  ultimately show ?thesis
    using ok hash by (auto simp: tree_ok_def less_Suc_eq)
qed

lemma tree_ok_singleton:
  assumes "\<And>h. link h 0 = None"
  shows "tree_ok 1 hash link"
  using assms by (simp add: tree_ok_def links_up_def)

end
