(* ===== verification/String_Pool.thy ===== *)
theory String_Pool
  imports Hash_Tree
begin

text \<open>
  String pools (util_string_pool.c): strings are stored once and named by an index counted from 1.

  \<open>sp_entries\<close> and \<open>sp_strings\<close> are the used parts of the two arrays.  The storage tables keep the
  number of bytes used and allocated, newest table first; the strings in them are \<open>sp_strings\<close>.  The
  search loops count their steps: \<open>None\<close> would be a loop that has not ended after as many steps as the
  pool has entries.  The pool itself is never NULL, because the callers pass the pool of a transaction
  or of a metric table; lengths are unbounded.
\<close>

section \<open>State\<close>

record nrstable =
  tb_used :: nat
  tb_allocated :: nat

record nrstring =
  se_hash :: uint32
  se_length :: nat
  se_left :: nat
  se_right :: nat

record nrstrpool =
  sp_size :: nat
  sp_entries :: "nrstring list"
  sp_strings :: "string list"
  sp_tables :: "nrstable list"

definition NR_STRPOOL_STARTING_SIZE :: nat where "NR_STRPOOL_STARTING_SIZE = 4096"
definition NR_STRPOOL_INCREASE_SIZE :: nat where "NR_STRPOOL_INCREASE_SIZE = 4096"
definition NR_STRPOOL_TABLE_SIZE :: nat where "NR_STRPOOL_TABLE_SIZE = 32768"

section \<open>Operations\<close>

definition nr_string_pool_create :: nrstrpool where
  "nr_string_pool_create = \<lparr>sp_size = NR_STRPOOL_STARTING_SIZE, sp_entries = [], sp_strings = [], sp_tables = []\<rparr>"

definition nr_string_len :: "nrstrpool \<Rightarrow> int \<Rightarrow> int" where
  "nr_string_len pool idx =
     (if idx \<le> 0 \<or> idx > int (length (sp_entries pool)) then -1
      else int (se_length (sp_entries pool ! (nat idx - 1))))"

definition nr_string_hash :: "nrstrpool \<Rightarrow> int \<Rightarrow> uint32" where
  "nr_string_hash pool idx =
     (if idx \<le> 0 \<or> idx > int (length (sp_entries pool)) then 0 else se_hash (sp_entries pool ! (nat idx - 1)))"

definition nr_string_get :: "nrstrpool \<Rightarrow> nat \<Rightarrow> string option" where
  "nr_string_get pool idx =
     (if idx = 0 \<or> idx > length (sp_entries pool) then None else Some (sp_strings pool ! (idx - 1)))"

text \<open>
  The entry and the string that the loops read at an index.  Only in an empty pool is the index
  outside the used part: the first entry there is zeroed memory.
\<close>

definition pool_entry :: "nrstrpool \<Rightarrow> nat \<Rightarrow> nrstring" where
  "pool_entry pool idx =
     (if idx - 1 < length (sp_entries pool) then sp_entries pool ! (idx - 1)
      else \<lparr>se_hash = 0, se_length = 0, se_left = 0, se_right = 0\<rparr>)"

definition pool_string :: "nrstrpool \<Rightarrow> nat \<Rightarrow> string option" where
  "pool_string pool idx = (if idx - 1 < length (sp_strings pool) then Some (sp_strings pool ! (idx - 1)) else None)"

definition pool_match :: "nrstrpool \<Rightarrow> string \<Rightarrow> uint32 \<Rightarrow> nat \<Rightarrow> nat \<Rightarrow> bool" where
  "pool_match pool string hash len idx \<longleftrightarrow>
     hash = se_hash (pool_entry pool idx) \<and> len = se_length (pool_entry pool idx) \<and>
     Some string = pool_string pool idx"

definition pool_next :: "nrstrpool \<Rightarrow> uint32 \<Rightarrow> nat \<Rightarrow> nat" where
  "pool_next pool hash idx =
     (if se_hash (pool_entry pool idx) < hash then se_left (pool_entry pool idx) else se_right (pool_entry pool idx))"

fun find_string_loop :: "nat \<Rightarrow> nrstrpool \<Rightarrow> string \<Rightarrow> uint32 \<Rightarrow> nat \<Rightarrow> nat \<Rightarrow> nat option" where
  "find_string_loop fuel pool string hash len idx =
     (if idx = 0 then Some 0
      else if pool_match pool string hash len idx then Some idx
      else case fuel of 0 \<Rightarrow> None
        | Suc f \<Rightarrow> find_string_loop f pool string hash len (pool_next pool hash idx))"

declare find_string_loop.simps [simp del]

definition nr_string_find_internal :: "nrstrpool \<Rightarrow> string option \<Rightarrow> uint32 \<Rightarrow> nat \<Rightarrow> nat option" where
  "nr_string_find_internal pool string hash len =
     (case string of None \<Rightarrow> Some 0
      | Some s \<Rightarrow> find_string_loop (Suc (length (sp_entries pool))) pool s hash len 1)"

definition nr_string_find :: "nrstrpool \<Rightarrow> string option \<Rightarrow> nat option" where
  "nr_string_find pool string =
     (let (hash, len) = nr_mkhash string in nr_string_find_internal pool string hash len)"

text \<open>The loop of \<open>nr_string_add_internal\<close>: the matching entry, or the entry below which to insert.\<close>

fun add_string_loop :: "nat \<Rightarrow> nrstrpool \<Rightarrow> string \<Rightarrow> uint32 \<Rightarrow> nat \<Rightarrow> nat \<Rightarrow> (bool \<times> nat) option" where
  "add_string_loop fuel pool string hash len idx =
     (if pool_match pool string hash len idx then Some (True, idx)
      else let next = pool_next pool hash idx
           in if next = 0 then Some (False, idx)
              else case fuel of 0 \<Rightarrow> None | Suc f \<Rightarrow> add_string_loop f pool string hash len next)"

declare add_string_loop.simps [simp del]

text \<open>The table that has room for the string, a new one if the newest has not, with the bytes counted.\<close>

definition store_bytes :: "nrstable list \<Rightarrow> nat \<Rightarrow> nrstable list" where
  "store_bytes tables len =
     (let tables =
        (case tables of
           t # ts \<Rightarrow> if int (tb_allocated t) - int (tb_used t) < int len + 1
                     then \<lparr>tb_used = 0, tb_allocated = max (len + 1) NR_STRPOOL_TABLE_SIZE\<rparr> # tables else tables
         | [] \<Rightarrow> [\<lparr>tb_used = 0, tb_allocated = max (len + 1) NR_STRPOOL_TABLE_SIZE\<rparr>])
      in (hd tables)\<lparr>tb_used := tb_used (hd tables) + (len + 1)\<rparr> # tl tables)"

definition new_string :: "nrstrpool \<Rightarrow> string \<Rightarrow> uint32 \<Rightarrow> nat \<Rightarrow> nat \<Rightarrow> nrstrpool" where
  "new_string pool string hash len idx =
     (let n = length (sp_entries pool);
          entries = sp_entries pool @ [\<lparr>se_hash = hash, se_length = len, se_left = 0, se_right = 0\<rparr>];
          entries =
            (if idx \<noteq> 0
             then if se_hash (entries ! (idx - 1)) < hash
                  then entries[idx - 1 := (entries ! (idx - 1))\<lparr>se_left := n + 1\<rparr>]
                  else entries[idx - 1 := (entries ! (idx - 1))\<lparr>se_right := n + 1\<rparr>]
             else entries)
      in pool\<lparr>sp_entries := entries, sp_strings := sp_strings pool @ [string],
           sp_tables := store_bytes (sp_tables pool) len\<rparr>)"

definition nr_string_add_internal :: "nrstrpool \<Rightarrow> string option \<Rightarrow> uint32 \<Rightarrow> nat \<Rightarrow> (nat \<times> nrstrpool) option" where
  "nr_string_add_internal pool string hash len =
     (case string of None \<Rightarrow> Some (0, pool)
      | Some s \<Rightarrow>
          let pool = (if sp_size pool = length (sp_entries pool)
                      then pool\<lparr>sp_size := sp_size pool + NR_STRPOOL_INCREASE_SIZE\<rparr> else pool);
              n = length (sp_entries pool)
          in do {
            (found, idx) \<leftarrow> (if n \<noteq> 0 then add_string_loop n pool s hash len 1 else Some (False, 0));
            if found then Some (idx, pool)
            else Some (n + 1, new_string pool s hash len idx)
          })"

definition nr_string_add :: "nrstrpool \<Rightarrow> string option \<Rightarrow> (nat \<times> nrstrpool) option" where
  "nr_string_add pool string =
     (let (hash, len) = nr_mkhash string in nr_string_add_internal pool string hash len)"

section \<open>Invariant\<close>

definition pool_link :: "nrstrpool \<Rightarrow> uint32 \<Rightarrow> nat \<Rightarrow> nat option" where
  "pool_link pool hash i = (let c = pool_next pool hash (Suc i) in if c = 0 then None else Some (c - 1))"

definition string_hash :: "string \<Rightarrow> uint32" where
  "string_hash s = fst (nr_mkhash (Some s))"

text \<open>
  Entries, strings and storage agree; no string occurs twice; every entry is found by its hash; every
  table holds its strings.
\<close>

definition pool_ok :: "nrstrpool \<Rightarrow> bool" where
  "pool_ok pool \<longleftrightarrow>
     length (sp_entries pool) = length (sp_strings pool) \<and> length (sp_entries pool) \<le> sp_size pool \<and>
     distinct (sp_strings pool) \<and>
     (\<forall>i < length (sp_entries pool). se_hash (sp_entries pool ! i) = string_hash (sp_strings pool ! i) \<and>
        se_length (sp_entries pool ! i) = length (sp_strings pool ! i)) \<and>
     tree_ok (length (sp_entries pool)) (\<lambda>i. string_hash (sp_strings pool ! i)) (pool_link pool) \<and>
     (\<forall>t \<in> set (sp_tables pool). tb_used t \<le> tb_allocated t)"

lemma pool_ok_create: "pool_ok nr_string_pool_create"
  by (simp add: pool_ok_def nr_string_pool_create_def tree_ok_def links_up_def)

lemma pool_link_size [simp]: "pool_link (p\<lparr>sp_size := x\<rparr>) = pool_link p"
  by (simp add: pool_link_def pool_next_def pool_entry_def fun_eq_iff)

lemma pool_ok_grow: "pool_ok p \<Longrightarrow> sp_size p \<le> x \<Longrightarrow> pool_ok (p\<lparr>sp_size := x\<rparr>)"
  by (auto simp: pool_ok_def)

lemma pool_match_at:
  assumes "pool_ok p" "i < length (sp_entries p)"
  shows "pool_match p s (string_hash s) (length s) (Suc i) \<longleftrightarrow> sp_strings p ! i = s"
  using assms by (auto simp: pool_match_def pool_entry_def pool_string_def pool_ok_def)

lemma add_string_loop_descend:
  "add_string_loop fuel p s h len (Suc i) =
    map_option (\<lambda>(f, k). (f, Suc k)) (descend fuel (\<lambda>i. pool_match p s h len (Suc i)) (pool_link p h) i)"
proof (induction fuel arbitrary: i)
  case 0
  then show ?case
    by (simp add: add_string_loop.simps [of 0] descend.simps [of 0] pool_link_def Let_def)
next
  case (Suc f)
  show ?case
    using Suc [of "pool_next p h (Suc i) - 1"]
    by (cases "pool_next p h (Suc i)")
      (simp_all add: add_string_loop.simps [of "Suc f"] descend.simps [of "Suc f"] pool_link_def Let_def)
qed

lemma find_string_loop_descend:
  "descend fuel (\<lambda>i. pool_match p s h len (Suc i)) (pool_link p h) i = Some (f, k) \<Longrightarrow>
    find_string_loop (Suc fuel) p s h len (Suc i) = Some (if f then Suc k else 0)"
proof (induction fuel arbitrary: i)
  case 0
  then show ?case
    by (auto simp: find_string_loop.simps [of "Suc 0"] find_string_loop.simps [of _ p s h len 0] descend.simps [of 0]
        pool_link_def Let_def split: if_splits)
next
  case (Suc g)
  show ?case
    using Suc.prems Suc.IH [of "pool_next p h (Suc i) - 1"]
    by (cases "pool_next p h (Suc i)")
      (auto simp: find_string_loop.simps [of "Suc (Suc g)"] find_string_loop.simps [of _ p s h len 0]
        descend.simps [of "Suc g"] pool_link_def Let_def split: if_splits)
qed

lemma store_bytes_ok:
  "\<forall>t \<in> set tables. tb_used t \<le> tb_allocated t \<Longrightarrow> \<forall>t \<in> set (store_bytes tables len). tb_used t \<le> tb_allocated t"
  by (auto simp: store_bytes_def Let_def split: list.splits if_splits)

lemma new_string_link:
  assumes "i \<le> length (sp_entries p)" "k < length (sp_entries p)" "pool_link p h k = None"
  shows "pool_link (new_string p s h len (Suc k)) h' i =
    (if i = length (sp_entries p) then None
     else if i = k \<and> (se_hash (sp_entries p ! k) < h' \<longleftrightarrow> se_hash (sp_entries p ! k) < h) then Some (length (sp_entries p))
     else pool_link p h' i)"
proof -
  let ?e = "sp_entries p"
  show ?thesis
    using assms
    by (auto simp: pool_link_def pool_next_def pool_entry_def new_string_def Let_def nth_append nth_list_update
        split: if_splits)
qed

lemma new_string_ok:
  assumes ok: "pool_ok p" "length (sp_entries p) < sp_size p" "s \<notin> set (sp_strings p)"
    and k: "k < length (sp_entries p)" "pool_link p (string_hash s) k = None" "(0, k) \<in> path (pool_link p (string_hash s))"
  shows "pool_ok (new_string p s (string_hash s) (length s) (Suc k))"
proof -
  let ?p = "new_string p s (string_hash s) (length s) (Suc k)" and ?n = "length (sp_entries p)" and ?h = "string_hash s"
  have len: "length (sp_strings p) = ?n" using ok(1) by (simp add: pool_ok_def)
  have strings: "sp_strings ?p = sp_strings p @ [s]" "length (sp_entries ?p) = Suc ?n" "sp_size ?p = sp_size p"
    "sp_tables ?p = store_bytes (sp_tables p) (length s)"
    by (simp_all add: new_string_def Let_def)
  have hash: "se_hash (sp_entries ?p ! i) = (if i = ?n then ?h else se_hash (sp_entries p ! i))"
    "se_length (sp_entries ?p ! i) = (if i = ?n then length s else se_length (sp_entries p ! i))" if "i \<le> ?n" for i
    using that k(1) by (auto simp: new_string_def Let_def nth_append nth_list_update)
  have "tree_ok (Suc ?n) (\<lambda>i. string_hash (sp_strings ?p ! i)) (pool_link ?p)"
  proof (rule tree_extend [where k = k and h = ?h])
    show "tree_ok ?n (\<lambda>i. string_hash (sp_strings p ! i)) (pool_link p)" using ok(1) unfolding pool_ok_def by blast
    show "pool_link ?p ?h k = Some ?n" using k new_string_link [of k p k ?h s "length s" ?h] by simp
    show "pool_link ?p h' i = Some j" if i: "i < ?n" and l: "pool_link p h' i = Some j" for h' i j
    proof -
      have "\<not> (i = k \<and> (se_hash (sp_entries p ! k) < h' \<longleftrightarrow> se_hash (sp_entries p ! k) < ?h))"
        using k l by (auto simp: pool_link_def pool_next_def pool_entry_def Let_def split: if_splits)
      then show ?thesis using i l new_string_link [of i p k ?h s "length s" h'] k by auto
    qed
    show "pool_link p h' i = Some j \<or> j = ?n" if "i < ?n" "pool_link ?p h' i = Some j" for h' i j
      using that k new_string_link [of i p k ?h s "length s" h'] by (auto split: if_splits)
    show "pool_link ?p h' ?n = None" for h' using k new_string_link [of ?n p k ?h s "length s" h'] by simp
  qed (use k strings len in \<open>simp_all add: nth_append\<close>)
  moreover have "\<forall>i < Suc ?n. se_hash (sp_entries ?p ! i) = string_hash (sp_strings ?p ! i) \<and>
      se_length (sp_entries ?p ! i) = length (sp_strings ?p ! i)"
  proof (intro allI impI)
    fix i assume i: "i < Suc ?n"
    show "se_hash (sp_entries ?p ! i) = string_hash (sp_strings ?p ! i) \<and>
        se_length (sp_entries ?p ! i) = length (sp_strings ?p ! i)"
    proof (cases "i = ?n")
      case True
      then show ?thesis using hash [of i] len by (simp add: strings)
    next
      case False
      then have "se_hash (sp_entries p ! i) = string_hash (sp_strings p ! i)"
        "se_length (sp_entries p ! i) = length (sp_strings p ! i)" using ok(1) i unfolding pool_ok_def by auto
      then show ?thesis using hash [of i] len False i by (simp add: strings nth_append)
    qed
  qed
  moreover have "\<forall>t \<in> set (store_bytes (sp_tables p) (length s)). tb_used t \<le> tb_allocated t"
    using ok(1) by (intro store_bytes_ok) (auto simp: pool_ok_def)
  ultimately show ?thesis
    using ok unfolding pool_ok_def strings by simp
qed

lemma first_string_ok:
  assumes "pool_ok p" "sp_entries p = []" "0 < sp_size p"
  shows "pool_ok (new_string p s (string_hash s) (length s) 0)"
proof -
  let ?p = "new_string p s (string_hash s) (length s) 0"
  have e: "sp_entries ?p = [\<lparr>se_hash = string_hash s, se_length = length s, se_left = 0, se_right = 0\<rparr>]"
    "sp_strings ?p = [s]" "sp_size ?p = sp_size p" "sp_tables ?p = store_bytes (sp_tables p) (length s)"
    using assms by (simp_all add: new_string_def Let_def pool_ok_def)
  have "tree_ok 1 (\<lambda>i. string_hash ([s] ! i)) (pool_link ?p)"
    by (rule tree_ok_singleton) (simp add: pool_link_def pool_next_def pool_entry_def e Let_def)
  moreover have "\<forall>t \<in> set (store_bytes (sp_tables p) (length s)). tb_used t \<le> tb_allocated t"
    using assms(1) by (intro store_bytes_ok) (auto simp: pool_ok_def)
  ultimately show ?thesis using assms by (auto simp: pool_ok_def e)
qed

text \<open>What \<open>nr_string_add\<close> and \<open>nr_string_find\<close> do to a well-formed pool.\<close>

lemma nr_string_add_ok:
  assumes ok: "pool_ok p"
  obtains i p' where "nr_string_add p (Some s) = Some (i, p')" "pool_ok p'" "0 < i" "i \<le> length (sp_strings p')"
    "sp_strings p' ! (i - 1) = s" "sp_strings p' = sp_strings p @ (if s \<in> set (sp_strings p) then [] else [s])"
proof -
  let ?h = "string_hash s" and ?l = "length s" and ?n = "length (sp_entries p)"
  define q where "q = (if sp_size p = ?n then p\<lparr>sp_size := sp_size p + NR_STRPOOL_INCREASE_SIZE\<rparr> else p)"
  have len: "length (sp_strings p) = ?n" using ok by (simp add: pool_ok_def)
  have q: "pool_ok q" "sp_entries q = sp_entries p" "sp_strings q = sp_strings p" "?n < sp_size q"
    using ok pool_ok_grow [OF ok, of "sp_size p + NR_STRPOOL_INCREASE_SIZE"]
    by (auto simp: q_def pool_ok_def NR_STRPOOL_INCREASE_SIZE_def)
  have mk: "nr_mkhash (Some s) = (?h, ?l)" by (simp add: string_hash_def prod_eq_iff)
  have eq: "nr_string_add p (Some s) = do {
      (found, idx) \<leftarrow> (if ?n \<noteq> 0 then add_string_loop ?n q s ?h ?l 1 else Some (False, 0));
      if found then Some (idx, q) else Some (?n + 1, new_string q s ?h ?l idx) }"
    unfolding nr_string_add_def nr_string_add_internal_def mk Let_def option.case prod.case q_def [symmetric] q(2)
    by (rule refl)
  have new: "sp_strings (new_string q s ?h ?l idx) = sp_strings p @ [s]" for idx
    by (simp add: new_string_def Let_def q(3))
  show thesis
  proof (cases "?n = 0")
    case True
    have "pool_ok (new_string q s ?h ?l 0)"
      using first_string_ok [OF q(1)] q(2,4) True by simp
    with True eq new len show thesis by (intro that) auto
  next
    case False
    let ?P = "\<lambda>i. pool_match q s ?h ?l (Suc i)"
    have tree: "tree_ok ?n (\<lambda>i. string_hash (sp_strings p ! i)) (pool_link q)"
      using q(1) unfolding pool_ok_def q(2,3) by blast
    have P: "?P i \<longleftrightarrow> sp_strings p ! i = s" if "i < ?n" for i using pool_match_at [OF q(1)] that q(2,3) by simp
    show thesis
    proof (rule tree_search [OF tree, of ?P ?h])
      fix k assume k: "descend ?n ?P (pool_link q ?h) 0 = Some (True, k)" "k < ?n" "?P k"
      have "nr_string_add p (Some s) = Some (Suc k, q)"
        using eq k(1) add_string_loop_descend [of ?n q s ?h ?l 0] False by simp
      moreover have "s \<in> set (sp_strings p)" using k P len by (auto simp: in_set_conv_nth)
      ultimately show thesis using k P len q by (intro that [of "Suc k" q]) auto
    next
      fix k assume k: "descend ?n ?P (pool_link q ?h) 0 = Some (False, k)" "k < ?n" "pool_link q ?h k = None"
        "(0, k) \<in> path (pool_link q ?h)" and none: "\<And>j. j < ?n \<Longrightarrow> \<not> ?P j"
      have add: "nr_string_add p (Some s) = Some (?n + 1, new_string q s ?h ?l (Suc k))"
        using eq k(1) add_string_loop_descend [of ?n q s ?h ?l 0] False by simp
      have "s \<notin> set (sp_strings p)" using none P len by (auto simp: in_set_conv_nth)
      moreover have "pool_ok (new_string q s ?h ?l (Suc k))"
        using new_string_ok [OF q(1), of s k] k q calculation by simp
      ultimately show thesis using add new len by (intro that) auto
    qed (use False P in auto)
  qed
qed

lemma nr_string_find_ok:
  assumes ok: "pool_ok p"
  shows "\<exists>i. nr_string_find p (Some s) = Some i \<and>
    (if s \<in> set (sp_strings p) then 0 < i \<and> i \<le> length (sp_strings p) \<and> sp_strings p ! (i - 1) = s else i = 0)"
proof -
  let ?h = "string_hash s" and ?l = "length s" and ?n = "length (sp_entries p)"
  have len: "length (sp_strings p) = ?n" using ok by (simp add: pool_ok_def)
  have mk: "nr_mkhash (Some s) = (?h, ?l)" by (simp add: string_hash_def prod_eq_iff)
  have eq: "nr_string_find p (Some s) = find_string_loop (Suc ?n) p s ?h ?l 1"
    by (simp add: nr_string_find_def nr_string_find_internal_def mk)
  show ?thesis
  proof (cases "?n = 0")
    case True
    then have "find_string_loop (Suc 0) p s ?h ?l 1 = Some 0"
      using len by (simp add: find_string_loop.simps [of "Suc 0"] find_string_loop.simps [of _ p s ?h ?l 0]
          pool_match_def pool_string_def pool_next_def pool_entry_def)
    with eq True len show ?thesis by auto
  next
    case False
    let ?P = "\<lambda>i. pool_match p s ?h ?l (Suc i)"
    have tree: "tree_ok ?n (\<lambda>i. string_hash (sp_strings p ! i)) (pool_link p)" using ok unfolding pool_ok_def by blast
    have P: "?P i \<longleftrightarrow> sp_strings p ! i = s" if "i < ?n" for i using pool_match_at [OF ok that] .
    show ?thesis
    proof (rule tree_search [OF tree, of ?P ?h])
      fix k assume "descend ?n ?P (pool_link p ?h) 0 = Some (True, k)" "k < ?n" "?P k"
      then show ?thesis using eq P len find_string_loop_descend [of ?n p s ?h ?l 0 True k] by (auto simp: in_set_conv_nth)
    next
      fix k assume "descend ?n ?P (pool_link p ?h) 0 = Some (False, k)" and none: "\<And>j. j < ?n \<Longrightarrow> \<not> ?P j"
      moreover have "s \<notin> set (sp_strings p)" using none P len by (auto simp: in_set_conv_nth)
      ultimately show ?thesis using eq find_string_loop_descend [of ?n p s ?h ?l 0 False k] by auto
    qed (use False P in auto)
  qed
qed

section \<open>The interface to the pool's clients\<close>

text \<open>
  What the metric table and the segments rely on: adding a string gives an index at which the string is
  found from then on, and keeps every index given before.
\<close>

locale interner =
  fixes inv :: "'p \<Rightarrow> bool" and empty :: 'p
    and add :: "'p \<Rightarrow> string option \<Rightarrow> (nat \<times> 'p) option" and get :: "'p \<Rightarrow> nat \<Rightarrow> string option"
  assumes inv_empty: "inv empty"
    and add_returns: "inv p \<Longrightarrow> \<exists>i p'. add p (Some s) = Some (i, p')"
    and add_inv: "inv p \<Longrightarrow> add p (Some s) = Some (i, p') \<Longrightarrow> inv p'"
    and get_add: "inv p \<Longrightarrow> add p (Some s) = Some (i, p') \<Longrightarrow> get p' i = Some s"
    and get_kept: "inv p \<Longrightarrow> add p (Some s) = Some (i, p') \<Longrightarrow> get p j = Some t \<Longrightarrow> get p' j = Some t"
    and get_inj: "inv p \<Longrightarrow> get p i = Some s \<Longrightarrow> get p j = Some s \<Longrightarrow> i = j"
begin

text \<open>The strings of a list added one after the other, with their indices.\<close>

fun add_all :: "'p \<Rightarrow> string list \<Rightarrow> (nat list \<times> 'p) option" where
  "add_all p [] = Some ([], p)"
| "add_all p (s # ss) = do { (i, p) \<leftarrow> add p (Some s); (is, p) \<leftarrow> add_all p ss; Some (i # is, p) }"

lemma add_all_ok:
  assumes "inv p"
  shows "\<exists>is p'. add_all p ss = Some (is, p') \<and> inv p' \<and> map (get p') is = map Some ss \<and>
    (\<forall>j t. get p j = Some t \<longrightarrow> get p' j = Some t)"
  using assms
proof (induction ss arbitrary: p)
  case (Cons s ss)
  obtain i p1 where 1: "add p (Some s) = Some (i, p1)" using add_returns [OF Cons.prems] by blast
  note p1 = add_inv [OF Cons.prems 1] get_add [OF Cons.prems 1] get_kept [OF Cons.prems 1]
  from Cons.IH [OF p1(1)] 1 p1(2,3) show ?case by fastforce
qed simp

lemma add_again:
  assumes "inv p" "add p (Some s) = Some (i, p1)" "add p1 (Some s) = Some (j, p2)"
  shows "i = j"
proof -
  have p1: "inv p1" using assms(1,2) by (rule add_inv)
  have "inv p2" using p1 assms(3) by (rule add_inv)
  moreover have "get p2 j = Some s" using p1 assms(3) by (rule get_add)
  moreover have "get p2 i = Some s" using get_kept [OF p1 assms(3)] get_add [OF assms(1,2)] by blast
  ultimately have "get p2 i = Some s" "get p2 j = Some s" "inv p2" by blast+
  then show ?thesis using get_inj by blast
qed

end

lemma nr_string_get_strings:
  "pool_ok p \<Longrightarrow> nr_string_get p i = (if i = 0 \<or> i > length (sp_strings p) then None else Some (sp_strings p ! (i - 1)))"
  by (auto simp: nr_string_get_def pool_ok_def)

lemma nr_string_add_get:
  assumes ok: "pool_ok p" and add: "nr_string_add p (Some s) = Some (i, p')"
  shows "pool_ok p'" "nr_string_get p' i = Some s" "nr_string_get p j = Some t \<Longrightarrow> nr_string_get p' j = Some t"
    "s \<in> set (sp_strings p) \<Longrightarrow> sp_strings p' = sp_strings p" "sp_strings p' = sp_strings p @ (if s \<in> set (sp_strings p) then [] else [s])"
proof -
  obtain i' q where q: "nr_string_add p (Some s) = Some (i', q)" "pool_ok q" "0 < i'" "i' \<le> length (sp_strings q)"
      "sp_strings q ! (i' - 1) = s" "sp_strings q = sp_strings p @ (if s \<in> set (sp_strings p) then [] else [s])"
    by (rule nr_string_add_ok [OF ok])
  then have eq: "i' = i" "q = p'" using add by simp_all
  show "pool_ok p'" using q eq by simp
  show "nr_string_get p' i = Some s" using q eq by (simp add: nr_string_get_strings)
  show "nr_string_get p' j = Some t" if "nr_string_get p j = Some t"
    using that q(2,6) eq ok by (auto simp: nr_string_get_strings nth_append split: if_splits)
  show "s \<in> set (sp_strings p) \<Longrightarrow> sp_strings p' = sp_strings p"
    "sp_strings p' = sp_strings p @ (if s \<in> set (sp_strings p) then [] else [s])" using q eq by auto
qed

interpretation pool: interner pool_ok nr_string_pool_create nr_string_add nr_string_get
proof
  show "pool_ok nr_string_pool_create" by (rule pool_ok_create)
next
  fix p s assume ok: "pool_ok p"
  show "\<exists>i p'. nr_string_add p (Some s) = Some (i, p')" by (rule nr_string_add_ok [OF ok]) blast
next
  fix p s i j assume ok: "pool_ok p" "nr_string_get p i = Some s" "nr_string_get p j = Some s"
  have d: "distinct (sp_strings p)" using ok(1) by (simp add: pool_ok_def)
  have "i - 1 = j - 1" "0 < i" "0 < j"
    using ok(2,3) d nth_eq_iff_index_eq [OF d, of "i - 1" "j - 1"] unfolding nr_string_get_strings [OF ok(1)]
    by (auto split: if_splits)
  then show "i = j" by simp
qed (use nr_string_add_get in blast)+

text \<open>
  C12 (roundtrip).  Adding a string to a well-formed pool returns, leaves a well-formed pool and gives an
  index at which \<open>nr_string_get\<close> finds the string; \<open>nr_string_find\<close> finds the same index; the strings
  added before keep their indices; adding a string that is present adds nothing.
\<close>

theorem nr_string_add_roundtrip:
  assumes "pool_ok p"
  shows "\<exists>i p'. nr_string_add p (Some s) = Some (i, p') \<and> pool_ok p' \<and> nr_string_get p' i = Some s \<and>
    nr_string_find p' (Some s) = Some i \<and>
    (\<forall>j t. nr_string_get p j = Some t \<longrightarrow> nr_string_get p' j = Some t) \<and>
    (s \<in> set (sp_strings p) \<longrightarrow> sp_strings p' = sp_strings p)"
proof -
  obtain i p' where a: "nr_string_add p (Some s) = Some (i, p')" using pool.add_returns [OF assms] by blast
  note g = nr_string_add_get [OF assms a]
  obtain k where k: "nr_string_find p' (Some s) = Some k"
    "if s \<in> set (sp_strings p') then 0 < k \<and> k \<le> length (sp_strings p') \<and> sp_strings p' ! (k - 1) = s else k = 0"
    using nr_string_find_ok [OF g(1)] by blast
  have "s \<in> set (sp_strings p')" using g(5) by simp
  then have "nr_string_get p' k = Some s" using k(2) g(1) by (auto simp: nr_string_get_strings)
  then have "k = i" using pool.get_inj [OF g(1)] g(2) by blast
  with a g k show ?thesis by blast
qed

theorem nr_string_add_roundtrip_witness:
  "\<exists>i p'. nr_string_add nr_string_pool_create (Some ''Custom/a'') = Some (i, p') \<and> nr_string_get p' i = Some ''Custom/a''"
  using nr_string_add_roundtrip [OF pool_ok_create, of "''Custom/a''"] by blast

text \<open>A sequence of additions to a new pool returns, and in the end each string is found at its index.\<close>

lemma nr_string_pool_sequence:
  "\<exists>is p'. pool.add_all nr_string_pool_create ss = Some (is, p') \<and> pool_ok p' \<and> map (nr_string_get p') is = map Some ss"
  using pool.add_all_ok [OF pool_ok_create, of ss] by blast

end
