(* ===== verification/Metrics.thy ===== *)
theory Metrics
  imports String_Pool
begin

text \<open>
  Metric tables (util_metrics.c): named counters, kept in an array that is also a binary tree by the
  hash of the name, with the names in a string pool.

  \<open>mt_metrics\<close> is the used part of the array.  A pointer to a metric is its position.  The tables a
  transaction has are never NULL.  As in the string pool, the search loops count their steps.  The
  JSON output is not modelled.
\<close>

section \<open>State\<close>

record nrmetric =
  m_hash :: uint32
  m_left :: int
  m_right :: int
  m_flags :: uint32
  m_name_index :: nat
  m_count :: nrtime_t
  m_total :: nrtime_t
  m_exclusive :: nrtime_t
  m_min :: nrtime_t
  m_max :: nrtime_t
  m_sumsquares :: nrtime_t

record nrmtable =
  mt_allocated :: nat
  mt_max_size :: nat
  mt_metrics :: "nrmetric list"
  mt_strpool :: nrstrpool

definition MET_IS_APDEX :: uint32 where "MET_IS_APDEX = 1"
definition MET_FORCED :: uint32 where "MET_FORCED = 2"
definition NRM_DEFAULT_MAX_SIZE :: nat where "NRM_DEFAULT_MAX_SIZE = 2048"
definition NR_METRIC_DEFAULT_LIMIT :: int where "NR_METRIC_DEFAULT_LIMIT = 2000"

section \<open>Operations\<close>

definition nrm_table_create :: "int \<Rightarrow> nrmtable" where
  "nrm_table_create max_size =
     (let max_size = (if max_size \<le> 0 then NRM_DEFAULT_MAX_SIZE else nat max_size)
      in \<lparr>mt_allocated = max_size, mt_max_size = max_size, mt_metrics = [], mt_strpool = nr_string_pool_create\<rparr>)"

definition nrm_is_apdex :: "nrmetric \<Rightarrow> bool" where "nrm_is_apdex metric \<longleftrightarrow> m_flags metric AND MET_IS_APDEX \<noteq> 0"
definition nrm_is_forced :: "nrmetric \<Rightarrow> bool" where "nrm_is_forced metric \<longleftrightarrow> MET_FORCED AND m_flags metric \<noteq> 0"

definition nrm_hash :: "string option \<Rightarrow> uint32" where
  "nrm_hash name = fst (nr_mkhash name)"

definition metric_next :: "nrmtable \<Rightarrow> uint32 \<Rightarrow> int \<Rightarrow> int" where
  "metric_next table hash i =
     (let metric = mt_metrics table ! nat i in if m_hash metric < hash then m_left metric else m_right metric)"

definition metric_match :: "nrmtable \<Rightarrow> string option \<Rightarrow> uint32 \<Rightarrow> int \<Rightarrow> bool" where
  "metric_match table name hash i \<longleftrightarrow>
     (let metric = mt_metrics table ! nat i
      in hash = m_hash metric \<and> name = nr_string_get (mt_strpool table) (m_name_index metric))"

fun find_metric_loop :: "nat \<Rightarrow> nrmtable \<Rightarrow> string option \<Rightarrow> uint32 \<Rightarrow> int \<Rightarrow> nat option option" where
  "find_metric_loop fuel table name hash i =
     (if i = -1 then Some None
      else if metric_match table name hash i then Some (Some (nat i))
      else case fuel of 0 \<Rightarrow> None
        | Suc f \<Rightarrow> find_metric_loop f table name hash (metric_next table hash i))"

declare find_metric_loop.simps [simp del]

definition nrm_find_internal :: "nrmtable \<Rightarrow> string option \<Rightarrow> uint32 \<Rightarrow> nat option option" where
  "nrm_find_internal table name hash =
     (if mt_metrics table = [] then Some None
      else find_metric_loop (Suc (length (mt_metrics table))) table name hash 0)"

definition nrm_find :: "nrmtable \<Rightarrow> string option \<Rightarrow> nat option option" where
  "nrm_find table name = nrm_find_internal table name (nrm_hash name)"

text \<open>The loop of \<open>nrm_create\<close>: the metric below which the new one is hung.\<close>

fun place_metric_loop :: "nat \<Rightarrow> nrmtable \<Rightarrow> uint32 \<Rightarrow> int \<Rightarrow> nat option" where
  "place_metric_loop fuel table hash i =
     (let next = metric_next table hash i
      in if next = -1 then Some (nat i)
         else case fuel of 0 \<Rightarrow> None | Suc f \<Rightarrow> place_metric_loop f table hash next)"

declare place_metric_loop.simps [simp del]

definition zero_metric :: "uint32 \<Rightarrow> nat \<Rightarrow> nrmetric" where
  "zero_metric hash name_index = \<lparr>m_hash = hash, m_left = -1, m_right = -1, m_flags = 0, m_name_index = name_index,
     m_count = 0, m_total = 0, m_exclusive = 0, m_min = NR_TIME_MAX, m_max = 0, m_sumsquares = 0\<rparr>"

definition hang_metric :: "nrmtable \<Rightarrow> uint32 \<Rightarrow> nat \<Rightarrow> nat \<Rightarrow> nrmtable" where
  "hang_metric table hash i new_index =
     (let metric = mt_metrics table ! i
      in if m_hash metric < hash
         then table\<lparr>mt_metrics := (mt_metrics table)[i := metric\<lparr>m_left := int new_index\<rparr>]\<rparr>
         else table\<lparr>mt_metrics := (mt_metrics table)[i := metric\<lparr>m_right := int new_index\<rparr>]\<rparr>)"

definition nrm_create :: "nrmtable \<Rightarrow> string option \<Rightarrow> uint32 \<Rightarrow> (nat option \<times> nrmtable) option" where
  "nrm_create table name hash =
     (if name = None then Some (None, table)
      else do {
        let n = length (mt_metrics table);
        let table = (if n \<ge> mt_allocated table then table\<lparr>mt_allocated := mt_allocated table + NRM_DEFAULT_MAX_SIZE\<rparr>
                     else table);
        (name_index, strpool) \<leftarrow> nr_string_add (mt_strpool table) name;
        let table = table\<lparr>mt_metrics := mt_metrics table @ [zero_metric hash name_index], mt_strpool := strpool\<rparr>;
        if n = 0 then Some (Some n, table)
        else do {
          i \<leftarrow> place_metric_loop n table hash 0;
          Some (Some n, hang_metric table hash i n)
        }
      })"

definition nrm_is_full :: "nrmtable \<Rightarrow> bool" where
  "nrm_is_full table \<longleftrightarrow> length (mt_metrics table) \<ge> mt_max_size table"

text \<open>
  \<open>nrm_find_or_create\<close> calls \<open>nrm_force_add\<close>, which calls it again with \<open>force\<close>; \<open>dropped\<close> is that
  inner call, which never drops a metric itself.
\<close>

definition find_or_create_with ::
  "(nrmtable \<Rightarrow> nrmtable option) \<Rightarrow> bool \<Rightarrow> nrmtable \<Rightarrow> string option \<Rightarrow> (nat option \<times> nrmtable) option" where
  "find_or_create_with dropped force table name =
     (let hash = nrm_hash name
      in if name = None then Some (None, table)
         else do {
           found \<leftarrow> nrm_find_internal table name hash;
           (metric, table) \<leftarrow>
             (case found of Some i \<Rightarrow> Some (Some i, table)
              | None \<Rightarrow>
                  if nrm_is_full table \<and> \<not> force then do { table \<leftarrow> dropped table; Some (None, table) }
                  else nrm_create table name hash);
           case metric of None \<Rightarrow> Some (None, table)
           | Some i \<Rightarrow>
               Some (Some i,
                 if force
                 then table\<lparr>mt_metrics := (mt_metrics table)[i :=
                   (mt_metrics table ! i)\<lparr>m_flags := m_flags (mt_metrics table ! i) OR MET_FORCED\<rparr>]\<rparr>
                 else table)
         })"

record metric_data =
  d_count :: nrtime_t
  d_total :: nrtime_t
  d_exclusive :: nrtime_t
  d_min :: nrtime_t
  d_max :: nrtime_t
  d_sumsquares :: nrtime_t

text \<open>The update of the counters in \<open>nrm_add_internal\<close>; they wrap around.\<close>

definition add_data :: "metric_data \<Rightarrow> nrmetric \<Rightarrow> nrmetric" where
  "add_data d m = m\<lparr>
     m_count := m_count m + d_count d, m_total := m_total m + d_total d, m_exclusive := m_exclusive m + d_exclusive d,
     m_min := (if d_min d < m_min m then d_min d else m_min m),
     m_max := (if d_max d > m_max m then d_max d else m_max m),
     m_sumsquares := m_sumsquares m + d_sumsquares d\<rparr>"

definition add_internal_with ::
  "(nrmtable \<Rightarrow> nrmtable option) \<Rightarrow> bool \<Rightarrow> nrmtable \<Rightarrow> string option \<Rightarrow> metric_data \<Rightarrow> nrmtable option" where
  "add_internal_with dropped force table name d = do {
     (metric, table) \<leftarrow> find_or_create_with dropped force table name;
     case metric of None \<Rightarrow> Some table
     | Some i \<Rightarrow> Some (table\<lparr>mt_metrics := (mt_metrics table)[i := add_data d (mt_metrics table ! i)]\<rparr>)
   }"

text \<open>One observation: a count of one, a duration and an exclusive time.\<close>

definition one_sample :: "nrtime_t \<Rightarrow> nrtime_t \<Rightarrow> metric_data" where
  "one_sample duration exclusive = \<lparr>d_count = 1, d_total = duration, d_exclusive = exclusive, d_min = duration,
     d_max = duration, d_sumsquares = duration * duration\<rparr>"

definition nrm_force_add :: "nrmtable \<Rightarrow> string option \<Rightarrow> nrtime_t \<Rightarrow> nrmtable option" where
  "nrm_force_add table name duration = add_internal_with Some True table name (one_sample duration duration)"

definition metrics_dropped :: string where "metrics_dropped = ''Supportability/MetricsDropped''"

definition nrm_find_or_create :: "bool \<Rightarrow> nrmtable \<Rightarrow> string option \<Rightarrow> (nat option \<times> nrmtable) option" where
  "nrm_find_or_create = find_or_create_with (\<lambda>t. nrm_force_add t (Some metrics_dropped) 0)"

definition nrm_add_internal :: "bool \<Rightarrow> nrmtable \<Rightarrow> string option \<Rightarrow> metric_data \<Rightarrow> nrmtable option" where
  "nrm_add_internal = add_internal_with (\<lambda>t. nrm_force_add t (Some metrics_dropped) 0)"

definition nrm_add :: "nrmtable \<Rightarrow> string option \<Rightarrow> nrtime_t \<Rightarrow> nrmtable option" where
  "nrm_add table name duration = nrm_add_internal False table name (one_sample duration duration)"

definition nrm_add_ex :: "nrmtable \<Rightarrow> string option \<Rightarrow> nrtime_t \<Rightarrow> nrtime_t \<Rightarrow> nrmtable option" where
  "nrm_add_ex table name duration exclusive = nrm_add_internal False table name (one_sample duration exclusive)"

definition nrm_force_add_ex :: "nrmtable \<Rightarrow> string option \<Rightarrow> nrtime_t \<Rightarrow> nrtime_t \<Rightarrow> nrmtable option" where
  "nrm_force_add_ex table name duration exclusive = nrm_add_internal True table name (one_sample duration exclusive)"

section \<open>Invariant and abstract view\<close>

definition metric_link :: "nrmtable \<Rightarrow> uint32 \<Rightarrow> nat \<Rightarrow> nat option" where
  "metric_link table hash i = (let c = metric_next table hash (int i) in if c = -1 then None else Some (nat c))"

definition metric_name :: "nrmtable \<Rightarrow> nat \<Rightarrow> string option" where
  "metric_name table i = nr_string_get (mt_strpool table) (m_name_index (mt_metrics table ! i))"

definition table_ok :: "nrmtable \<Rightarrow> bool" where
  "table_ok table \<longleftrightarrow>
     pool_ok (mt_strpool table) \<and> length (mt_metrics table) \<le> mt_allocated table \<and>
     (\<forall>i < length (mt_metrics table). \<exists>s. metric_name table i = Some s \<and> m_hash (mt_metrics table ! i) = string_hash s) \<and>
     (\<forall>i < length (mt_metrics table). m_left (mt_metrics table ! i) \<ge> -1 \<and> m_right (mt_metrics table ! i) \<ge> -1) \<and>
     distinct (map (metric_name table) [0..<length (mt_metrics table)]) \<and>
     tree_ok (length (mt_metrics table)) (\<lambda>i. m_hash (mt_metrics table ! i)) (metric_link table)"

text \<open>What the table is to its clients: the flags and counters of each name.\<close>

definition metric_value :: "nrmetric \<Rightarrow> uint32 \<times> metric_data" where
  "metric_value m = (m_flags m, \<lparr>d_count = m_count m, d_total = m_total m, d_exclusive = m_exclusive m,
     d_min = m_min m, d_max = m_max m, d_sumsquares = m_sumsquares m\<rparr>)"

definition table_map :: "nrmtable \<Rightarrow> string \<Rightarrow> (uint32 \<times> metric_data) option" where
  "table_map table name =
     map_of (map (\<lambda>i. (the (metric_name table i), metric_value (mt_metrics table ! i))) [0..<length (mt_metrics table)]) name"

definition merge_data :: "metric_data \<Rightarrow> metric_data \<Rightarrow> metric_data" where
  "merge_data d m = \<lparr>d_count = d_count m + d_count d, d_total = d_total m + d_total d,
     d_exclusive = d_exclusive m + d_exclusive d, d_min = min (d_min d) (d_min m), d_max = max (d_max d) (d_max m),
     d_sumsquares = d_sumsquares m + d_sumsquares d\<rparr>"

definition zero_data :: metric_data where
  "zero_data = \<lparr>d_count = 0, d_total = 0, d_exclusive = 0, d_min = NR_TIME_MAX, d_max = 0, d_sumsquares = 0\<rparr>"

text \<open>The specification: one observation recorded under a name.\<close>

definition spec_record ::
  "bool \<Rightarrow> string \<Rightarrow> metric_data \<Rightarrow> (string \<Rightarrow> (uint32 \<times> metric_data) option) \<Rightarrow> string \<Rightarrow> (uint32 \<times> metric_data) option" where
  "spec_record force name d f =
     (let (flags, old) = (case f name of Some v \<Rightarrow> v | None \<Rightarrow> (0, zero_data))
      in f(name \<mapsto> (if force then flags OR MET_FORCED else flags, merge_data d old)))"

definition spec_add ::
  "bool \<Rightarrow> bool \<Rightarrow> string \<Rightarrow> metric_data \<Rightarrow> (string \<Rightarrow> (uint32 \<times> metric_data) option) \<Rightarrow> string \<Rightarrow> (uint32 \<times> metric_data) option" where
  "spec_add full force name d f =
     (if f name = None \<and> full \<and> \<not> force then spec_record True metrics_dropped (one_sample 0 0) f
      else spec_record force name d f)"

section \<open>Searching\<close>

lemma nrm_hash_Some [simp]: "nrm_hash (Some s) = string_hash s"
  by (simp add: nrm_hash_def string_hash_def)

lemma table_ok_create: "table_ok (nrm_table_create n)"
  by (simp add: table_ok_def nrm_table_create_def Let_def pool_ok_create tree_ok_def links_up_def)

lemma find_metric_loop_descend:
  assumes up: "links_up n (metric_link t h)" "\<forall>i < n. metric_next t h (int i) \<ge> -1"
  shows "i < n \<Longrightarrow> descend fuel (\<lambda>i. metric_match t s h (int i)) (metric_link t h) i = Some (f, k) \<Longrightarrow>
    find_metric_loop (Suc fuel) t s h (int i) = Some (if f then Some k else None)"
proof (induction fuel arbitrary: i)
  case 0
  then show ?case
    by (auto simp: find_metric_loop.simps [of "Suc 0"] find_metric_loop.simps [of _ t s h "-1"] descend.simps [of 0]
        metric_link_def Let_def split: if_splits)
next
  case (Suc g)
  show ?case
  proof (cases "metric_match t s h (int i) \<or> metric_next t h (int i) = -1")
    case True
    with Suc.prems show ?thesis
      by (auto simp: find_metric_loop.simps [of "Suc (Suc g)"] find_metric_loop.simps [of _ t s h "-1"]
          descend.simps [of "Suc g"] metric_link_def Let_def split: if_splits)
  next
    case False
    let ?j = "nat (metric_next t h (int i))"
    have "metric_link t h i = Some ?j" using False by (simp add: metric_link_def)
    moreover have "?j < n" using calculation up(1) Suc.prems(1) unfolding links_up_def by blast
    moreover have "int ?j = metric_next t h (int i)"
    proof -
      have "metric_next t h (int i) \<ge> -1" using up(2) Suc.prems(1) by blast
      with False show ?thesis by linarith
    qed
    ultimately show ?thesis
      using Suc.IH [of ?j] Suc.prems False
      by (simp add: find_metric_loop.simps [of "Suc (Suc g)"] descend.simps [of "Suc g"])
  qed
qed

lemma place_metric_loop_descend:
  assumes up: "links_up n (metric_link t h)" "\<forall>i < n. metric_next t h (int i) \<ge> -1"
  shows "i < n \<Longrightarrow> descend fuel (\<lambda>_. False) (metric_link t h) i = Some (f, k) \<Longrightarrow>
    place_metric_loop fuel t h (int i) = Some k"
proof (induction fuel arbitrary: i)
  case 0
  then show ?case
    by (auto simp: place_metric_loop.simps [of 0] descend.simps [of 0] metric_link_def Let_def split: if_splits)
next
  case (Suc g)
  show ?case
  proof (cases "metric_next t h (int i) = -1")
    case True
    with Suc.prems show ?thesis
      by (simp add: place_metric_loop.simps [of "Suc g"] descend.simps [of "Suc g"] metric_link_def Let_def)
  next
    case False
    let ?j = "nat (metric_next t h (int i))"
    have "metric_link t h i = Some ?j" using False by (simp add: metric_link_def)
    moreover have "?j < n" using calculation up(1) Suc.prems(1) unfolding links_up_def by blast
    moreover have "int ?j = metric_next t h (int i)"
    proof -
      have "metric_next t h (int i) \<ge> -1" using up(2) Suc.prems(1) by blast
      with False show ?thesis by linarith
    qed
    ultimately show ?thesis
      using Suc.IH [of ?j] Suc.prems False
      by (simp add: place_metric_loop.simps [of "Suc g"] descend.simps [of "Suc g"] Let_def)
  qed
qed

lemma table_next_ge: "table_ok t \<Longrightarrow> i < length (mt_metrics t) \<Longrightarrow> metric_next t h (int i) \<ge> -1"
  by (auto simp: table_ok_def metric_next_def Let_def)

lemma table_tree: "table_ok t \<Longrightarrow> tree_ok (length (mt_metrics t)) (\<lambda>i. m_hash (mt_metrics t ! i)) (metric_link t)"
  by (simp add: table_ok_def)

lemma table_up: "table_ok t \<Longrightarrow> links_up (length (mt_metrics t)) (metric_link t h)"
  using table_tree [of t] unfolding tree_ok_def by blast

lemma table_name:
  assumes "table_ok t" "i < length (mt_metrics t)"
  obtains s where "metric_name t i = Some s" "m_hash (mt_metrics t ! i) = string_hash s"
  using assms unfolding table_ok_def by blast

lemma table_names_distinct:
  assumes "table_ok t" "i < length (mt_metrics t)" "j < length (mt_metrics t)" "metric_name t i = metric_name t j"
  shows "i = j"
proof -
  have "inj_on (metric_name t) (set [0..<length (mt_metrics t)])" using assms(1) by (simp add: table_ok_def distinct_map)
  then show ?thesis by (rule inj_onD) (use assms in auto)
qed

lemma metric_match_at:
  assumes "table_ok t" "i < length (mt_metrics t)"
  shows "metric_match t (Some s) (string_hash s) (int i) \<longleftrightarrow> metric_name t i = Some s"
proof -
  obtain r where "metric_name t i = Some r" "m_hash (mt_metrics t ! i) = string_hash r"
    by (rule table_name [OF assms])
  then show ?thesis by (auto simp: metric_match_def metric_name_def Let_def)
qed

lemma nrm_find_internal_ok:
  assumes "table_ok t"
  obtains i where "nrm_find_internal t (Some s) (string_hash s) = Some (Some i)" "i < length (mt_metrics t)"
      "metric_name t i = Some s"
  | "nrm_find_internal t (Some s) (string_hash s) = Some None"
      "\<And>i. i < length (mt_metrics t) \<Longrightarrow> metric_name t i \<noteq> Some s"
proof (cases "mt_metrics t = []")
  case True
  then show thesis using that(2) by (simp add: nrm_find_internal_def)
next
  case False
  let ?n = "length (mt_metrics t)" and ?h = "string_hash s" and ?P = "\<lambda>i. metric_match t (Some s) (string_hash s) (int i)"
  have n: "0 < ?n" using False by simp
  have eq: "descend ?n ?P (metric_link t ?h) 0 = Some (f, k) \<Longrightarrow>
      nrm_find_internal t (Some s) ?h = Some (if f then Some k else None)" for f k
    using find_metric_loop_descend [OF table_up [OF assms] _ n, of ?h ?n "Some s" f k] table_next_ge [OF assms] False
    by (simp add: nrm_find_internal_def)
  show thesis
  proof (rule tree_search [OF table_tree [OF assms] n, of ?P ?h])
    fix k assume k: "descend ?n ?P (metric_link t ?h) 0 = Some (True, k)" "k < ?n" "?P k"
    show thesis using that(1) [of k] eq [OF k(1)] k(2,3) metric_match_at [OF assms k(2)] by simp
  next
    fix k assume k: "descend ?n ?P (metric_link t ?h) 0 = Some (False, k)" and none: "\<And>j. j < ?n \<Longrightarrow> \<not> ?P j"
    show thesis using that(2) eq [OF k] none metric_match_at [OF assms] by simp
  next
    show "\<And>k. k < ?n \<Longrightarrow> ?P k \<Longrightarrow> m_hash (mt_metrics t ! k) = ?h" by (simp add: metric_match_def Let_def)
  qed
qed

lemma table_map_Some:
  assumes "table_ok t" "i < length (mt_metrics t)" "metric_name t i = Some s"
  shows "table_map t s = Some (metric_value (mt_metrics t ! i))"
proof -
  let ?n = "length (mt_metrics t)" and ?f = "\<lambda>i. (the (metric_name t i), metric_value (mt_metrics t ! i))"
  have "inj_on (\<lambda>j. the (metric_name t j)) {0..<?n}"
  proof (rule inj_onI)
    fix j k assume jk: "j \<in> {0..<?n}" "k \<in> {0..<?n}" "the (metric_name t j) = the (metric_name t k)"
    then have l: "j < ?n" "k < ?n" by auto
    obtain a where "metric_name t j = Some a" by (rule table_name [OF assms(1) l(1)])
    moreover obtain b where "metric_name t k = Some b" by (rule table_name [OF assms(1) l(2)])
    ultimately show "j = k" using table_names_distinct [OF assms(1) l] jk(3) by simp
  qed
  then have "distinct (map fst (map ?f [0..<?n]))" by (simp add: distinct_map comp_def)
  moreover have "(s, metric_value (mt_metrics t ! i)) \<in> set (map ?f [0..<?n])" using assms(2,3) by force
  ultimately show ?thesis unfolding table_map_def by (rule map_of_is_SomeI)
qed

lemma table_map_None:
  assumes "table_ok t" "\<And>i. i < length (mt_metrics t) \<Longrightarrow> metric_name t i \<noteq> Some s"
  shows "table_map t s = None"
proof -
  have "the (metric_name t j) \<noteq> s" if "j < length (mt_metrics t)" for j
    using table_name [OF assms(1) that] assms(2) [OF that] by (metis option.sel)
  then have "s \<notin> fst ` set (map (\<lambda>i. (the (metric_name t i), metric_value (mt_metrics t ! i))) [0..<length (mt_metrics t)])"
    by fastforce
  then show ?thesis unfolding table_map_def by (rule map_of_eq_None_iff [THEN iffD2])
qed

text \<open>Two well-formed tables whose metrics agree name by name have the same map.\<close>

lemma table_map_cases:
  assumes "table_ok t"
  obtains i where "i < length (mt_metrics t)" "metric_name t i = Some s" "table_map t s = Some (metric_value (mt_metrics t ! i))"
  | "\<And>i. i < length (mt_metrics t) \<Longrightarrow> metric_name t i \<noteq> Some s" "table_map t s = None"
  using table_map_Some [OF assms] table_map_None [OF assms, of s] that by metis

section \<open>Changing a metric's flags or counters\<close>

definition same_node :: "nrmetric \<Rightarrow> nrmetric \<Rightarrow> bool" where
  "same_node m m' \<longleftrightarrow> m_hash m' = m_hash m \<and> m_left m' = m_left m \<and> m_right m' = m_right m \<and>
     m_name_index m' = m_name_index m"

lemma update_metric_ok:
  assumes ok: "table_ok t" and i: "i < length (mt_metrics t)" and same: "same_node (mt_metrics t ! i) m"
    and name: "metric_name t i = Some s"
  defines "t' \<equiv> t\<lparr>mt_metrics := (mt_metrics t)[i := m]\<rparr>"
  shows "table_ok t'" "table_map t' = (table_map t)(s \<mapsto> metric_value m)" "length (mt_metrics t') = length (mt_metrics t)"
    "mt_max_size t' = mt_max_size t" "metric_name t' i = Some s" "mt_metrics t' ! i = m"
proof -
  have at: "mt_metrics t' ! j = (if j = i then m else mt_metrics t ! j)" for j
    using i by (simp add: t'_def nth_list_update)
  have names: "metric_name t' j = metric_name t j" for j
    using at same by (simp add: metric_name_def t'_def same_node_def nth_list_update)
  have links: "metric_link t' = metric_link t"
    using same i by (auto simp: fun_eq_iff metric_link_def metric_next_def t'_def same_node_def nth_list_update Let_def)
  have hash: "m_hash (mt_metrics t' ! j) = m_hash (mt_metrics t ! j)" "m_left (mt_metrics t' ! j) = m_left (mt_metrics t ! j)"
    "m_right (mt_metrics t' ! j) = m_right (mt_metrics t ! j)" for j using at same by (auto simp: same_node_def)
  have len: "length (mt_metrics t') = length (mt_metrics t)" "mt_strpool t' = mt_strpool t" "mt_allocated t' = mt_allocated t"
    by (simp_all add: t'_def)
  show ok': "table_ok t'" using ok unfolding table_ok_def len links hash names by simp
  show "table_map t' = (table_map t)(s \<mapsto> metric_value m)"
  proof
    fix r
    show "table_map t' r = ((table_map t)(s \<mapsto> metric_value m)) r"
    proof (cases rule: table_map_cases [OF ok', of r])
      case (1 j)
      show ?thesis
      proof (cases "j = i")
        case True
        with 1 name names at show ?thesis by simp
      next
        case False
        then have "r \<noteq> s" using 1 name names i len(1) table_names_distinct [OF ok, of j i] by auto
        with 1 False at names len table_map_Some [OF ok, of j r] show ?thesis by simp
      qed
    next
      case 2
      then have "r \<noteq> s" "table_map t r = None" using name names i len table_map_None [OF ok, of r] by auto
      with 2 show ?thesis by simp
    qed
  qed
  show "length (mt_metrics t') = length (mt_metrics t)" "mt_max_size t' = mt_max_size t" "metric_name t' i = Some s"
    "mt_metrics t' ! i = m" using len names name at by (simp_all add: t'_def)
qed

section \<open>Creating a metric\<close>

lemma hang_metric_link:
  assumes "k < n" "n = length (mt_metrics t)" "metric_link t h k = None" "i \<le> n" "m = zero_metric h x"
  shows "metric_link (hang_metric (t\<lparr>mt_metrics := mt_metrics t @ [m], mt_strpool := p\<rparr>) h k n) h' i =
    (if i = n then None
     else if i = k \<and> (m_hash (mt_metrics t ! k) < h' \<longleftrightarrow> m_hash (mt_metrics t ! k) < h) then Some n
     else metric_link t h' i)"
  using assms
  by (auto simp: metric_link_def metric_next_def hang_metric_def zero_metric_def Let_def nth_append nth_list_update
      split: if_splits)

text \<open>The new table, whichever metric the new one hangs below: its metrics and names.\<close>

definition extends_table :: "nrmtable \<Rightarrow> string \<Rightarrow> nrmtable \<Rightarrow> bool" where
  "extends_table t s t' \<longleftrightarrow>
     length (mt_metrics t') = Suc (length (mt_metrics t)) \<and>
     (\<forall>i < length (mt_metrics t). metric_name t' i = metric_name t i \<and>
        m_hash (mt_metrics t' ! i) = m_hash (mt_metrics t ! i) \<and> metric_value (mt_metrics t' ! i) = metric_value (mt_metrics t ! i)) \<and>
     metric_name t' (length (mt_metrics t)) = Some s \<and>
     m_hash (mt_metrics t' ! length (mt_metrics t)) = string_hash s \<and>
     metric_value (mt_metrics t' ! length (mt_metrics t)) = (0, zero_data)"

lemma extends_table_ok:
  assumes ok: "table_ok t" and ext: "extends_table t s t'"
    and new: "\<And>i. i < length (mt_metrics t) \<Longrightarrow> metric_name t i \<noteq> Some s"
    and "pool_ok (mt_strpool t')" "length (mt_metrics t') \<le> mt_allocated t'"
    and "\<forall>i < length (mt_metrics t'). m_left (mt_metrics t' ! i) \<ge> -1 \<and> m_right (mt_metrics t' ! i) \<ge> -1"
    and "tree_ok (length (mt_metrics t')) (\<lambda>i. m_hash (mt_metrics t' ! i)) (metric_link t')"
  shows "table_ok t'" "table_map t' = (table_map t)(s \<mapsto> (0, zero_data))"
proof -
  let ?n = "length (mt_metrics t)"
  have len: "length (mt_metrics t') = Suc ?n" using ext by (simp add: extends_table_def)
  have at: "metric_name t' i = metric_name t i" "m_hash (mt_metrics t' ! i) = m_hash (mt_metrics t ! i)"
    "metric_value (mt_metrics t' ! i) = metric_value (mt_metrics t ! i)" if "i < ?n" for i
    using ext that unfolding extends_table_def by blast+
  have last: "metric_name t' ?n = Some s" "m_hash (mt_metrics t' ! ?n) = string_hash s"
    "metric_value (mt_metrics t' ! ?n) = (0, zero_data)" using ext unfolding extends_table_def by blast+
  have names: "\<exists>r. metric_name t' i = Some r \<and> m_hash (mt_metrics t' ! i) = string_hash r" if "i < Suc ?n" for i
  proof (cases "i = ?n")
    case True
    with last show ?thesis by simp
  next
    case False
    then have i: "i < ?n" using that by simp
    show ?thesis by (rule table_name [OF ok i]) (use at [OF i] in simp)
  qed
  have "map (metric_name t') [0..<?n] = map (metric_name t) [0..<?n]" using at(1) by simp
  moreover have "Some s \<notin> set (map (metric_name t) [0..<?n])" using new by force
  moreover have "distinct (map (metric_name t) [0..<?n])" using ok by (simp add: table_ok_def)
  ultimately have "distinct (map (metric_name t') [0..<?n] @ [Some s])" by (metis distinct_append distinct_singleton disjoint_insert(1) empty_set inf_bot_right list.simps(15))
  then have "distinct (map (metric_name t') [0..<Suc ?n])" using last(1) by simp
  with assms(4-7) names show ok': "table_ok t'" unfolding table_ok_def len by blast
  show "table_map t' = (table_map t)(s \<mapsto> (0, zero_data))"
  proof
    fix r
    show "table_map t' r = ((table_map t)(s \<mapsto> (0, zero_data))) r"
    proof (cases rule: table_map_cases [OF ok', of r])
      case (1 j)
      show ?thesis
      proof (cases "j = ?n")
        case True
        with 1 last show ?thesis by simp
      next
        case False
        then have j: "j < ?n" using 1(1) len by simp
        then have "r \<noteq> s" using 1(2) at(1) [OF j] new [OF j] by auto
        with 1 j at table_map_Some [OF ok j, of r] show ?thesis by simp
      qed
    next
      case 2
      then have "r \<noteq> s" using last(1) len by auto
      moreover have "table_map t r = None" by (rule table_map_None [OF ok]) (use 2(1) at(1) len in force)
      ultimately show ?thesis using 2 by simp
    qed
  qed
qed

lemma nrm_create_ok:
  assumes ok: "table_ok t" and new: "\<And>i. i < length (mt_metrics t) \<Longrightarrow> metric_name t i \<noteq> Some s"
  obtains t' where "nrm_create t (Some s) (string_hash s) = Some (Some (length (mt_metrics t)), t')" "table_ok t'"
    "table_map t' = (table_map t)(s \<mapsto> (0, zero_data))" "length (mt_metrics t') = Suc (length (mt_metrics t))"
    "mt_max_size t' = mt_max_size t" "metric_name t' (length (mt_metrics t)) = Some s"
    "metric_value (mt_metrics t' ! length (mt_metrics t)) = (0, zero_data)"
proof -
  let ?n = "length (mt_metrics t)" and ?h = "string_hash s"
  define u where "u = (if ?n \<ge> mt_allocated t then t\<lparr>mt_allocated := mt_allocated t + NRM_DEFAULT_MAX_SIZE\<rparr> else t)"
  have u: "mt_metrics u = mt_metrics t" "mt_strpool u = mt_strpool t" "mt_max_size u = mt_max_size t" "Suc ?n \<le> mt_allocated u"
    using ok by (auto simp: u_def table_ok_def NRM_DEFAULT_MAX_SIZE_def)
  have pok: "pool_ok (mt_strpool t)" using ok by (simp add: table_ok_def)
  obtain x p where add: "nr_string_add (mt_strpool t) (Some s) = Some (x, p)" using pool.add_returns [OF pok] by blast
  note pool = nr_string_add_get [OF pok add]
  let ?m = "zero_metric ?h x"
  let ?v = "u\<lparr>mt_metrics := mt_metrics t @ [?m], mt_strpool := p\<rparr>"
  have links: "metric_link u = metric_link t" "metric_next u = metric_next t"
    by (simp_all add: fun_eq_iff metric_link_def metric_next_def u(1))
  have names: "metric_name t' i = metric_name t i"
    if "i < ?n" "mt_strpool t' = p" "m_name_index (mt_metrics t' ! i) = m_name_index (mt_metrics t ! i)" for t' i
  proof -
    have "\<exists>r. metric_name t i = Some r" using table_name [OF ok that(1)] by blast
    with pool(3) that(2,3) show ?thesis by (auto simp: metric_name_def)
  qed
  have create: "nrm_create t (Some s) ?h = (if ?n = 0 then Some (Some ?n, ?v)
      else do { i \<leftarrow> place_metric_loop ?n ?v ?h 0; Some (Some ?n, hang_metric ?v ?h i ?n) })"
    unfolding nrm_create_def Let_def u_def [symmetric] u(1,2) add by simp
  have zero: "metric_value ?m = (0, zero_data)" by (simp add: metric_value_def zero_metric_def zero_data_def)
  have sides: "m_left (mt_metrics t ! i) \<ge> -1 \<and> m_right (mt_metrics t ! i) \<ge> -1" if "i < ?n" for i
    using ok that by (simp add: table_ok_def)
  show thesis
  proof (cases "?n = 0")
    case True
    have eq: "nrm_create t (Some s) ?h = Some (Some ?n, ?v)"
      using True create by simp
    have ext: "extends_table t s ?v"
      using True pool(2) zero by (simp add: extends_table_def metric_name_def zero_metric_def)
    have tree: "tree_ok (length (mt_metrics ?v)) (\<lambda>i. m_hash (mt_metrics ?v ! i)) (metric_link ?v)"
      using True tree_ok_singleton [of "metric_link ?v"]
      by (simp add: metric_link_def metric_next_def zero_metric_def Let_def)
    have "table_ok ?v" "table_map ?v = (table_map t)(s \<mapsto> (0, zero_data))"
      by (rule extends_table_ok [OF ok ext new]; use True u tree pool(1) in \<open>simp add: zero_metric_def\<close>)+
    with that [of ?v] eq ext u show thesis by (simp add: extends_table_def)
  next
    case False
    have n: "0 < ?n" using False by simp
    have same: "metric_link ?v h i = metric_link t h i" "metric_next ?v h (int i) = metric_next t h (int i)" if "i < ?n" for h i
      using that u(1) by (simp_all add: metric_link_def metric_next_def nth_append)
    have up: "links_up ?n (metric_link ?v ?h)"
      unfolding links_up_def
    proof (intro allI impI)
      fix i j assume "i < ?n" "metric_link ?v ?h i = Some j"
      then have "metric_link t ?h i = Some j" using same by simp
      with \<open>i < ?n\<close> show "i < j \<and> j < ?n" using table_up [OF ok] unfolding links_up_def by blast
    qed
    obtain k where k: "descend ?n (\<lambda>_. False) (metric_link ?v ?h) 0 = Some (False, k)" "k < ?n"
        "metric_link ?v ?h k = None" "(0, k) \<in> path (metric_link ?v ?h)"
      by (rule descend_result [OF up n, of ?n "\<lambda>_. False"]) auto
    have place: "place_metric_loop ?n ?v ?h 0 = Some k"
      using place_metric_loop_descend [OF up _ n k(1)] table_next_ge [OF ok] same by simp
    let ?w = "hang_metric ?v ?h k ?n"
    have eq: "nrm_create t (Some s) ?h = Some (Some ?n, ?w)"
      using False create place by simp
    have at: "m_name_index (mt_metrics ?w ! i) = m_name_index ((mt_metrics t @ [?m]) ! i)"
      "m_hash (mt_metrics ?w ! i) = m_hash ((mt_metrics t @ [?m]) ! i)"
      "metric_value (mt_metrics ?w ! i) = metric_value ((mt_metrics t @ [?m]) ! i)" if "i \<le> ?n" for i
      using k(2) that by (auto simp: hang_metric_def Let_def nth_list_update metric_value_def)
    have frame: "length (mt_metrics ?w) = Suc ?n" "mt_strpool ?w = p" "mt_allocated ?w = mt_allocated u" "mt_max_size ?w = mt_max_size t"
      using u by (simp_all add: hang_metric_def Let_def)
    have ext: "extends_table t s ?w"
      unfolding extends_table_def frame
      using at names [of _ ?w] frame pool(2) zero by (simp add: nth_append metric_name_def zero_metric_def)
    have left: "\<forall>i < length (mt_metrics ?w). m_left (mt_metrics ?w ! i) \<ge> -1 \<and> m_right (mt_metrics ?w ! i) \<ge> -1"
      using sides k(2) frame by (auto simp: hang_metric_def Let_def nth_list_update nth_append zero_metric_def)
    have kt: "metric_link t ?h k = None" "(0, k) \<in> path (metric_link t ?h)"
    proof -
      show "metric_link t ?h k = None" using k same by simp
      have "(0, j) \<in> path (metric_link t ?h) \<and> j < ?n" if "(0, j) \<in> path (metric_link ?v ?h)" for j using that
      proof (induction rule: rtrancl_induct)
        case (step y z)
        then have l: "metric_link ?v ?h y = Some z" "y < ?n" by simp_all
        have "z < ?n" using l up unfolding links_up_def by blast
        moreover have "(y, z) \<in> {(a, b). metric_link t ?h a = Some b}" using l same(1) [of y] by simp
        ultimately show ?case using step.IH by (blast intro: rtrancl_into_rtrancl)
      qed (use n in simp)
      with k(4) show "(0, k) \<in> path (metric_link t ?h)" by blast
    qed
    have link: "metric_link ?w h' i = (if i = ?n then None
        else if i = k \<and> (m_hash (mt_metrics t ! k) < h' \<longleftrightarrow> m_hash (mt_metrics t ! k) < ?h) then Some ?n
        else metric_link t h' i)" if "i \<le> ?n" for h' i
      by (rule hang_metric_link [of k ?n u ?h i ?m x p h', unfolded links(1) u(1), OF k(2) refl kt(1) that refl])
    have "tree_ok (Suc ?n) (\<lambda>i. m_hash (mt_metrics ?w ! i)) (metric_link ?w)"
    proof (rule tree_extend [OF table_tree [OF ok] k(2) kt(2)])
      show "metric_link ?w h' i = Some j" if "i < ?n" "metric_link t h' i = Some j" for h' i j
      proof -
        have "\<not> (i = k \<and> (m_hash (mt_metrics t ! k) < h' \<longleftrightarrow> m_hash (mt_metrics t ! k) < ?h))"
          using kt(1) that by (auto simp: metric_link_def metric_next_def Let_def split: if_splits)
        with that link [of i h'] show ?thesis by auto
      qed
      show "metric_link t h' i = Some j \<or> j = ?n" if "i < ?n" "metric_link ?w h' i = Some j" for h' i j
        using that link [of i h'] by (simp split: if_splits)
    qed (use link k(2) at in \<open>simp_all add: nth_append zero_metric_def\<close>)
    then have tree: "tree_ok (length (mt_metrics ?w)) (\<lambda>i. m_hash (mt_metrics ?w ! i)) (metric_link ?w)"
      unfolding frame .
    have "table_ok ?w" "table_map ?w = (table_map t)(s \<mapsto> (0, zero_data))"
      by (rule extends_table_ok [OF ok ext new _ _ left tree]; use u pool(1) frame in simp)+
    with that [of ?w] eq ext frame show thesis by (simp add: extends_table_def)
  qed
qed

section \<open>The table refines a map\<close>

lemma metric_value_add_data:
  "metric_value m = (f, d0) \<Longrightarrow> metric_value (add_data d m) = (f, merge_data d d0)"
  by (auto simp: metric_value_def add_data_def merge_data_def min_def max_def)

lemma metric_value_force:
  "metric_value m = (f, d0) \<Longrightarrow> metric_value (m\<lparr>m_flags := m_flags m OR MET_FORCED\<rparr>) = (f OR MET_FORCED, d0)"
  by (simp add: metric_value_def)

lemma same_node_simps: "same_node m (add_data d m)" "same_node m (m\<lparr>m_flags := fl\<rparr>)"
  by (simp_all add: same_node_def add_data_def)

text \<open>Recording under the metric at a position, after it was found or created.\<close>

lemma record_at:
  fixes force :: bool and d :: metric_data
  assumes ok: "table_ok t" and i: "i < length (mt_metrics t)" and name: "metric_name t i = Some s"
    and v: "metric_value (mt_metrics t ! i) = (fl, d0)"
  defines "t1 \<equiv> (if force then t\<lparr>mt_metrics := (mt_metrics t)[i :=
      (mt_metrics t ! i)\<lparr>m_flags := m_flags (mt_metrics t ! i) OR MET_FORCED\<rparr>]\<rparr> else t)"
  defines "t2 \<equiv> t1\<lparr>mt_metrics := (mt_metrics t1)[i := add_data d (mt_metrics t1 ! i)]\<rparr>"
  shows "table_ok t2" "table_map t2 = (table_map t)(s \<mapsto> (if force then fl OR MET_FORCED else fl, merge_data d d0))"
    "length (mt_metrics t2) = length (mt_metrics t)" "mt_max_size t2 = mt_max_size t"
proof -
  note u = update_metric_ok [OF ok i same_node_simps(2) name]
  have 1: "table_ok t1" "length (mt_metrics t1) = length (mt_metrics t)" "metric_name t1 i = Some s"
    "metric_value (mt_metrics t1 ! i) = (if force then fl OR MET_FORCED else fl, d0)" "mt_max_size t1 = mt_max_size t"
    using u ok i name v metric_value_force [OF v] by (simp_all add: t1_def)
  have map1: "(table_map t1)(s \<mapsto> x) = (table_map t)(s \<mapsto> x)" for x using u(2) by (simp add: t1_def)
  have i1: "i < length (mt_metrics t1)" using i 1 by simp
  note u2 = update_metric_ok [OF 1(1) i1 same_node_simps(1) 1(3), of d, folded t2_def]
  show "table_ok t2" "length (mt_metrics t2) = length (mt_metrics t)" "mt_max_size t2 = mt_max_size t"
    using u2 1 by simp_all
  show "table_map t2 = (table_map t)(s \<mapsto> (if force then fl OR MET_FORCED else fl, merge_data d d0))"
    using u2(2) map1 metric_value_add_data [OF 1(4), of d] by simp
qed

lemma add_internal_with_ok:
  assumes ok: "table_ok t"
    and dropped: "force \<or> (\<exists>t'. dropped t = Some t' \<and> table_ok t' \<and> mt_max_size t' = mt_max_size t \<and>
      table_map t' = spec_record True metrics_dropped (one_sample 0 0) (table_map t))"
  shows "\<exists>t'. add_internal_with dropped force t (Some s) d = Some t' \<and> table_ok t' \<and> mt_max_size t' = mt_max_size t \<and>
    table_map t' = spec_add (nrm_is_full t) force s d (table_map t)"
proof (cases rule: nrm_find_internal_ok [OF ok, of s])
  case (1 i)
  obtain fl d0 where v: "metric_value (mt_metrics t ! i) = (fl, d0)" by force
  note r = record_at [OF ok 1(2,3) v, of force d]
  have "table_map t s = Some (fl, d0)" using table_map_Some [OF ok 1(2,3)] v by simp
  then have spec: "spec_add (nrm_is_full t) force s d (table_map t) =
      (table_map t)(s \<mapsto> (if force then fl OR MET_FORCED else fl, merge_data d d0))"
    by (simp add: spec_add_def spec_record_def)
  have "find_or_create_with dropped force t (Some s) = Some (Some i, if force
      then t\<lparr>mt_metrics := (mt_metrics t)[i := (mt_metrics t ! i)\<lparr>m_flags := m_flags (mt_metrics t ! i) OR MET_FORCED\<rparr>]\<rparr>
      else t)"
    using 1(1) by (simp add: find_or_create_with_def Let_def)
  then show ?thesis
    unfolding add_internal_with_def using r spec by simp
next
  case 2
  have none: "table_map t s = None" by (rule table_map_None [OF ok 2(2)])
  show ?thesis
  proof (cases "nrm_is_full t \<and> \<not> force")
    case True
    with dropped obtain t' where "dropped t = Some t'" "table_ok t'" "mt_max_size t' = mt_max_size t"
      "table_map t' = spec_record True metrics_dropped (one_sample 0 0) (table_map t)" by blast
    with 2(1) True none show ?thesis
      by (simp add: add_internal_with_def find_or_create_with_def Let_def spec_add_def)
  next
    case False
    obtain u where u: "nrm_create t (Some s) (string_hash s) = Some (Some (length (mt_metrics t)), u)" "table_ok u"
      "table_map u = (table_map t)(s \<mapsto> (0, zero_data))" "length (mt_metrics u) = Suc (length (mt_metrics t))"
      "mt_max_size u = mt_max_size t" "metric_name u (length (mt_metrics t)) = Some s"
      "metric_value (mt_metrics u ! length (mt_metrics t)) = (0, zero_data)"
      by (rule nrm_create_ok [OF ok 2(2)])
    let ?i = "length (mt_metrics t)"
    have i: "?i < length (mt_metrics u)" using u(4) by simp
    note r = record_at [OF u(2) i u(6,7), of force d]
    have spec: "spec_add (nrm_is_full t) force s d (table_map t) =
        (table_map u)(s \<mapsto> (if force then 0 OR MET_FORCED else 0, merge_data d zero_data))"
      using False none u(3) by (auto simp: spec_add_def spec_record_def)
    have "find_or_create_with dropped force t (Some s) = Some (Some ?i, if force
        then u\<lparr>mt_metrics := (mt_metrics u)[?i := (mt_metrics u ! ?i)\<lparr>m_flags := m_flags (mt_metrics u ! ?i) OR MET_FORCED\<rparr>]\<rparr>
        else u)"
      using 2(1) u(1) False by (auto simp: find_or_create_with_def Let_def)
    then show ?thesis
      unfolding add_internal_with_def using r spec u(5) by simp
  qed
qed

lemma nrm_force_add_ok:
  assumes "table_ok t"
  shows "\<exists>t'. nrm_force_add t (Some s) x = Some t' \<and> table_ok t' \<and> mt_max_size t' = mt_max_size t \<and>
    table_map t' = spec_record True s (one_sample x x) (table_map t)"
  using add_internal_with_ok [OF assms, of True Some s "one_sample x x"] by (simp add: nrm_force_add_def spec_add_def)

text \<open>
  C11 (refinement).  A metric table is a map from names to flags and counters: adding an observation under
  a name returns, keeps the table well formed and is, on the map, the update of that name's entry (counts
  and sums added modulo \<open>2\<^sup>6\<^sup>4\<close>, minimum and maximum taken) and of nothing else.  Only when the name is
  new, the table holds its maximum and the addition is not forced is the observation dropped, and
  counted under Supportability/MetricsDropped instead.
\<close>

theorem nrm_add_internal_refines:
  assumes "table_ok t"
  shows "\<exists>t'. nrm_add_internal force t (Some name) d = Some t' \<and> table_ok t' \<and> mt_max_size t' = mt_max_size t \<and>
    table_map t' = spec_add (nrm_is_full t) force name d (table_map t)"
  unfolding nrm_add_internal_def
  by (rule add_internal_with_ok [OF assms]) (use nrm_force_add_ok [OF assms, of metrics_dropped 0] in blast)

theorem nrm_add_internal_refines_witness:
  "\<exists>t'. nrm_add_internal False (nrm_table_create 2000) (Some ''Custom/a'') (one_sample 7 7) = Some t' \<and>
     table_map t' ''Custom/a'' = Some (0, one_sample 7 7)"
proof -
  have f: "\<not> nrm_is_full (nrm_table_create 2000)" "table_map (nrm_table_create 2000) = (\<lambda>_. None)"
    by (simp_all add: nrm_is_full_def nrm_table_create_def table_map_def fun_eq_iff)
  have "merge_data (one_sample 7 7) zero_data = one_sample 7 7"
    by (simp add: merge_data_def one_sample_def zero_data_def NR_TIME_MAX_def)
  with nrm_add_internal_refines [OF table_ok_create, of False 2000 "''Custom/a''" "one_sample 7 7"] f show ?thesis
    by (auto simp: spec_add_def spec_record_def)
qed

lemma nrm_find_ok:
  assumes "table_ok t"
  shows "\<exists>r. nrm_find t (Some s) = Some r \<and> (r = None \<longleftrightarrow> table_map t s = None)"
  using nrm_find_internal_ok [OF assms, of s] table_map_Some [OF assms] table_map_None [OF assms, of s]
  unfolding nrm_find_def nrm_hash_Some by (metis option.distinct(1))

text \<open>The operations that the transactions use, on well-formed tables.\<close>

lemma nrm_add_ok: "table_ok t \<Longrightarrow> \<exists>t'. nrm_add t (Some s) x = Some t' \<and> table_ok t'"
  unfolding nrm_add_def nrm_add_internal_def
  using add_internal_with_ok [of t False "\<lambda>t. nrm_force_add t (Some metrics_dropped) 0" s "one_sample x x"]
    nrm_force_add_ok [of t metrics_dropped 0] by blast

end
