(* ===== verification/C_Double.thy ===== *)
theory C_Double
  imports Prelude
begin

text \<open>
  The arithmetic on C \<open>double\<close> values that the SDK performs: a product with 1000, a quotient by a million
  and the conversions from and to 64-bit integers, rounded as IEEE 754 prescribes (to nearest, ties to
  even).  A value is not-a-number, an infinity (with its sign) or \<open>Finite m e\<close>, the number \<open>m * 2 ^ e\<close>.
\<close>

datatype c_double = NaN | Infinity bool | Finite int int

fun bit_len :: "nat \<Rightarrow> nat" where
  "bit_len n = (if n = 0 then 0 else Suc (bit_len (n div 2)))"

declare bit_len.simps [simp del]

definition round_half_even :: "nat \<Rightarrow> nat \<Rightarrow> nat" where
  "round_half_even n d =
     (let q = n div d; r = n mod d
      in if 2 * r < d then q else if 2 * r > d then Suc q else if even q then q else Suc q)"

definition scaled :: "(nat \<Rightarrow> nat \<Rightarrow> 'a) \<Rightarrow> nat \<Rightarrow> nat \<Rightarrow> int \<Rightarrow> 'a" where
  "scaled f n d e = (if e \<ge> 0 then f n (d * 2 ^ nat e) else f (n * 2 ^ nat (- e)) d)"

text \<open>The double nearest to \<open>n / d\<close>, with a mantissa of at most 53 bits.\<close>

definition double_of_ratio :: "nat \<Rightarrow> nat \<Rightarrow> c_double" where
  "double_of_ratio n d =
     (if n = 0 then Finite 0 0
      else let e = int (bit_len n) - int (bit_len d) - 53;
               e = (if scaled (div) n d e < 2 ^ 53 then e else e + 1)
           in Finite (int (scaled round_half_even n d e)) e)"

text \<open>\<open>(double) now / NR_TIME_DIVISOR_D\<close>; the conversion of a 64-bit integer is an integer.\<close>

definition double_nat :: "c_double \<Rightarrow> nat" where
  "double_nat x = (case x of Finite m e \<Rightarrow> (if e \<ge> 0 then nat m * 2 ^ nat e else nat m div 2 ^ nat (- e)) | _ \<Rightarrow> 0)"

definition seconds_of_us :: "nrtime_t \<Rightarrow> c_double" where
  "seconds_of_us now = double_of_ratio (double_nat (double_of_ratio (unat now) 1)) 1000000"

text \<open>\<open>NR_TIME_DIVISOR_MS_D * value\<close> for a finite value.\<close>

definition times_1000 :: "int \<Rightarrow> int \<Rightarrow> c_double" where
  "times_1000 m e =
     (case double_of_ratio (1000 * nat \<bar>m\<bar>) 1 of
        Finite m' e' \<Rightarrow> Finite (if m < 0 then - m' else m') (e + e')
      | x \<Rightarrow> x)"

text \<open>The conversion to \<open>nrtime_t\<close> truncates; outside the range of the type it is undefined.\<close>

definition double_to_u64 :: "c_double \<Rightarrow> nrtime_t option" where
  "double_to_u64 x =
     (case x of
        Finite m e \<Rightarrow>
          let v = (if e \<ge> 0 then \<bar>m\<bar> * 2 ^ nat e else \<bar>m\<bar> div 2 ^ nat (- e))
          in if m < 0 \<and> v > 0 then None else if v \<ge> 2 ^ 64 then None else Some (word_of_int v)
      | _ \<Rightarrow> None)"

definition c_isnan :: "c_double \<Rightarrow> bool" where "c_isnan x \<longleftrightarrow> x = NaN"
definition c_isinf :: "c_double \<Rightarrow> bool" where "c_isinf x \<longleftrightarrow> x \<noteq> NaN \<and> (\<forall>m e. x \<noteq> Finite m e)"

lemma c_isinf_code [code, simp]:
  "c_isinf NaN = False" "c_isinf (Infinity s) = True" "c_isinf (Finite m e) = False"
  by (simp_all add: c_isinf_def)

lemma c_isnan_simps [simp]: "c_isnan NaN" "\<not> c_isnan (Infinity s)" "\<not> c_isnan (Finite m e)"
  by (simp_all add: c_isnan_def)

end
