(* ===== verification/Objects.thy ===== *)
theory Objects
  imports C_Strings C_Double "HOL-Library.Monad_Syntax"
begin

text \<open>
  Generic objects (util_object.c): the values of attributes and of custom events.

  A hash is the list of its keys and values in insertion order, an array the list of its elements;
  the allocation sizes are dropped, because growing the arrays cannot fail.  Objects are copied when
  they are stored, so they are values here.  \<open>NR_OBJECT_INVALID\<close>, the type of a NULL object, is
  \<open>None\<close>.  C integers are \<open>int\<close>: the code only stores them.
\<close>

section \<open>Types\<close>

datatype nrobj =
  NR_OBJECT_NONE
| NR_OBJECT_BOOLEAN bool
| NR_OBJECT_INT int
| NR_OBJECT_LONG int
| NR_OBJECT_DOUBLE c_double
| NR_OBJECT_STRING string
| NR_OBJECT_JSTRING string
| NR_OBJECT_HASH "(string \<times> nrobj) list"
| NR_OBJECT_ARRAY "nrobj list"

section \<open>Construction\<close>

definition nro_new_boolean :: "int \<Rightarrow> nrobj" where "nro_new_boolean x = NR_OBJECT_BOOLEAN (x \<noteq> 0)"
definition nro_new_int :: "int \<Rightarrow> nrobj" where "nro_new_int x = NR_OBJECT_INT x"
definition nro_new_long :: "int \<Rightarrow> nrobj" where "nro_new_long x = NR_OBJECT_LONG x"
definition nro_new_double :: "c_double \<Rightarrow> nrobj" where "nro_new_double x = NR_OBJECT_DOUBLE x"
definition nro_new_string :: "string option \<Rightarrow> nrobj" where "nro_new_string x = NR_OBJECT_STRING (nr_strdup x)"
definition nro_new_hash :: nrobj where "nro_new_hash = NR_OBJECT_HASH []"
definition nro_new_array :: nrobj where "nro_new_array = NR_OBJECT_ARRAY []"

section \<open>Arrays and hashes\<close>

text \<open>
  \<open>nro_internal_setvalue_array\<close>: positions count from 1 and position 0 appends.  The position is
  decremented before the test for appending, so position 1 appends as well.
\<close>

definition nro_internal_setvalue_array :: "nrobj option \<Rightarrow> int \<Rightarrow> nrobj option \<Rightarrow> nr_status_t \<times> nrobj option" where
  "nro_internal_setvalue_array op idx nobj =
     (case (op, nobj) of
        (Some (NR_OBJECT_ARRAY data), Some v) \<Rightarrow>
          if idx < 0 then (NR_FAILURE, op)
          else if idx > 0 \<and> idx - 1 > int (length data) then (NR_FAILURE, op)
          else let i = (if idx > 0 then (if idx - 1 = int (length data) then 0 else idx - 1) else 0)
               in if i = 0 then (NR_SUCCESS, Some (NR_OBJECT_ARRAY (data @ [v])))
                  else (NR_SUCCESS, Some (NR_OBJECT_ARRAY (data[nat i := v])))
      | _ \<Rightarrow> (NR_FAILURE, op))"

definition nro_set_array :: "nrobj option \<Rightarrow> int \<Rightarrow> nrobj option \<Rightarrow> nr_status_t \<times> nrobj option" where
  "nro_set_array obj idx value = nro_internal_setvalue_array obj idx value"

definition nro_set_array_string :: "nrobj option \<Rightarrow> int \<Rightarrow> string option \<Rightarrow> nr_status_t \<times> nrobj option" where
  "nro_set_array_string obj idx value = nro_internal_setvalue_array obj idx (Some (nro_new_string value))"

text \<open>The position of a key, counted from \<open>i\<close>.\<close>

fun find_key :: "(string \<times> 'a) list \<Rightarrow> string \<Rightarrow> nat \<Rightarrow> nat option" where
  "find_key [] key i = None"
| "find_key ((k, v) # kvs) key i = (if k = key then Some i else find_key kvs key (Suc i))"

definition nro_internal_setvalue_hash ::
  "nrobj option \<Rightarrow> string option \<Rightarrow> nrobj option \<Rightarrow> nr_status_t \<times> nrobj option" where
  "nro_internal_setvalue_hash op key nobj =
     (case (op, key, nobj) of
        (Some (NR_OBJECT_HASH kvs), Some k, Some v) \<Rightarrow>
          if k = [] then (NR_FAILURE, op)
          else (case find_key kvs k 0 of
             Some i \<Rightarrow> (NR_SUCCESS, Some (NR_OBJECT_HASH (kvs[i := (fst (kvs ! i), v)])))
           | None \<Rightarrow> (NR_SUCCESS, Some (NR_OBJECT_HASH (kvs @ [(k, v)]))))
      | _ \<Rightarrow> (NR_FAILURE, op))"

definition nro_set_hash :: "nrobj option \<Rightarrow> string option \<Rightarrow> nrobj option \<Rightarrow> nr_status_t \<times> nrobj option" where
  "nro_set_hash obj key value = nro_internal_setvalue_hash obj key value"

definition nro_set_hash_int :: "nrobj option \<Rightarrow> string option \<Rightarrow> int \<Rightarrow> nr_status_t \<times> nrobj option" where
  "nro_set_hash_int obj key value = nro_internal_setvalue_hash obj key (Some (nro_new_int value))"

definition nro_set_hash_long :: "nrobj option \<Rightarrow> string option \<Rightarrow> int \<Rightarrow> nr_status_t \<times> nrobj option" where
  "nro_set_hash_long obj key value = nro_internal_setvalue_hash obj key (Some (nro_new_long value))"

definition nro_set_hash_double :: "nrobj option \<Rightarrow> string option \<Rightarrow> c_double \<Rightarrow> nr_status_t \<times> nrobj option" where
  "nro_set_hash_double obj key value = nro_internal_setvalue_hash obj key (Some (nro_new_double value))"

definition nro_set_hash_string :: "nrobj option \<Rightarrow> string option \<Rightarrow> string option \<Rightarrow> nr_status_t \<times> nrobj option" where
  "nro_set_hash_string obj key value = nro_internal_setvalue_hash obj key (Some (nro_new_string value))"

text \<open>The value of a key, NULL when there is none.\<close>

definition nro_get_hash_value :: "nrobj option \<Rightarrow> string option \<Rightarrow> nrobj option" where
  "nro_get_hash_value obj key =
     (case (obj, key) of
        (Some (NR_OBJECT_HASH kvs), Some k) \<Rightarrow>
          if k = [] then None else map_option (\<lambda>i. snd (kvs ! i)) (find_key kvs k 0)
      | _ \<Rightarrow> None)"

section \<open>Lemmas\<close>

lemma find_key_Some:
  "find_key kvs k i = Some j \<Longrightarrow> i \<le> j \<and> j - i < length kvs \<and> fst (kvs ! (j - i)) = k"
proof (induction kvs k i rule: find_key.induct)
  case (2 k v kvs key i)
  then show ?case by (cases "k = key") (auto simp: nth_Cons' Suc_le_eq)
qed simp

lemma find_key_None: "find_key kvs k i = None \<longleftrightarrow> k \<notin> fst ` set kvs"
  by (induction kvs k i rule: find_key.induct) auto

lemma find_key_map_of: "map_of kvs k = map_option (\<lambda>j. snd (kvs ! (j - i))) (find_key kvs k i)"
proof (induction kvs k i rule: find_key.induct)
  case (2 k v kvs key i)
  show ?case
  proof (cases "find_key kvs key (Suc i)")
    case (Some j)
    then have "Suc i \<le> j" using find_key_Some by blast
    with 2 Some show ?thesis by (auto simp: nth_Cons')
  qed (use 2 in auto)
qed simp

text \<open>A well-formed hash has each key once, and no empty key.\<close>

definition hash_wf :: "(string \<times> nrobj) list \<Rightarrow> bool" where
  "hash_wf kvs \<longleftrightarrow> distinct (map fst kvs) \<and> [] \<notin> fst ` set kvs"

lemma setvalue_hash_cases:
  assumes "k \<noteq> []" "hash_wf kvs"
  obtains kvs' where "nro_internal_setvalue_hash (Some (NR_OBJECT_HASH kvs)) (Some k) (Some v) =
      (NR_SUCCESS, Some (NR_OBJECT_HASH kvs'))"
    "hash_wf kvs'" "map_of kvs' = (map_of kvs)(k \<mapsto> v)"
    "map fst kvs' = map fst kvs @ (if k \<in> fst ` set kvs then [] else [k])"
proof (cases "find_key kvs k 0")
  case None
  then have k: "k \<notin> fst ` set kvs" by (simp add: find_key_None)
  then have "map_of (kvs @ [(k, v)]) = (map_of kvs)(k \<mapsto> v)"
    by (auto simp: map_add_def fun_eq_iff dom_map_of_conv_image_fst [symmetric] domIff split: option.split)
  with that [of "kvs @ [(k, v)]"] None k assms show ?thesis
    by (auto simp: nro_internal_setvalue_hash_def hash_wf_def)
next
  case (Some i)
  then have i: "i < length kvs" "fst (kvs ! i) = k" using find_key_Some [of kvs k 0 i] by auto
  have keys: "map fst (kvs[i := (k, v)]) = map fst kvs"
    using i by (simp add: map_update list_update_same_conv)
  have mem: "k \<in> fst ` set kvs" using i by (metis image_eqI nth_mem)
  have wf: "hash_wf (kvs[i := (k, v)])" using assms(2) keys by (metis hash_wf_def set_map)
  have "map_of (kvs[i := (k, v)]) k' = ((map_of kvs)(k \<mapsto> v)) k'" for k'
  proof -
    have d: "distinct (map fst kvs)" "distinct (map fst (kvs[i := (k, v)]))"
      using assms(2) keys by (auto simp: hash_wf_def)
    show ?thesis
    proof (cases "k' = k")
      case True
      have "(k, v) \<in> set (kvs[i := (k, v)])" using i by (metis length_list_update nth_list_update_eq nth_mem)
      with True d(2) show ?thesis by simp
    next
      case False
      have "(k', w) \<in> set (kvs[i := (k, v)]) \<longleftrightarrow> (k', w) \<in> set kvs" for w
        using i False by (auto simp: in_set_conv_nth nth_list_update) (metis fst_conv)+
      with False d show ?thesis
        by (metis (no_types, lifting) fun_upd_other map_of_eq_Some_iff not_None_eq)
    qed
  qed
  then show ?thesis
    using that [of "kvs[i := (k, v)]"] Some i keys mem wf assms(1)
    by (auto simp: nro_internal_setvalue_hash_def fun_eq_iff)
qed

lemma get_hash_map_of:
  "k \<noteq> [] \<Longrightarrow> nro_get_hash_value (Some (NR_OBJECT_HASH kvs)) (Some k) = map_of kvs k"
  by (simp add: nro_get_hash_value_def find_key_map_of [of kvs k 0])

section \<open>Properties\<close>

text \<open>
  C14 (roundtrip).  Storing a value under a non-empty key of a well-formed hash succeeds; the key then
  has that value, every other key keeps its own, the hash stays well formed (each key once) and an
  existing key keeps its position.  An empty or missing key is refused and changes nothing.
\<close>

theorem nro_set_hash_roundtrip:
  assumes "hash_wf kvs"
  shows "nro_set_hash (Some (NR_OBJECT_HASH kvs)) None (Some v) = (NR_FAILURE, Some (NR_OBJECT_HASH kvs)) \<and>
    nro_set_hash (Some (NR_OBJECT_HASH kvs)) (Some []) (Some v) = (NR_FAILURE, Some (NR_OBJECT_HASH kvs)) \<and>
    (k \<noteq> [] \<longrightarrow> (\<exists>kvs'. nro_set_hash (Some (NR_OBJECT_HASH kvs)) (Some k) (Some v) =
        (NR_SUCCESS, Some (NR_OBJECT_HASH kvs')) \<and> hash_wf kvs' \<and>
      nro_get_hash_value (Some (NR_OBJECT_HASH kvs')) (Some k) = Some v \<and>
      (\<forall>k'. k' \<noteq> k \<longrightarrow> nro_get_hash_value (Some (NR_OBJECT_HASH kvs')) (Some k') =
        nro_get_hash_value (Some (NR_OBJECT_HASH kvs)) (Some k')) \<and>
      take (length kvs) (map fst kvs') = map fst kvs))"
proof (intro conjI impI)
  assume k: "k \<noteq> []"
  obtain kvs' where s: "nro_internal_setvalue_hash (Some (NR_OBJECT_HASH kvs)) (Some k) (Some v) =
      (NR_SUCCESS, Some (NR_OBJECT_HASH kvs'))"
    "hash_wf kvs'" "map_of kvs' = (map_of kvs)(k \<mapsto> v)"
    "map fst kvs' = map fst kvs @ (if k \<in> fst ` set kvs then [] else [k])"
    by (rule setvalue_hash_cases [OF k assms])
  have "nro_get_hash_value (Some (NR_OBJECT_HASH kvs')) (Some k') =
      nro_get_hash_value (Some (NR_OBJECT_HASH kvs)) (Some k')" if "k' \<noteq> k" for k'
    using that s(3) get_hash_map_of by (cases "k' = []") (simp_all add: nro_get_hash_value_def)
  with s k show "\<exists>kvs'. nro_set_hash (Some (NR_OBJECT_HASH kvs)) (Some k) (Some v) =
        (NR_SUCCESS, Some (NR_OBJECT_HASH kvs')) \<and> hash_wf kvs' \<and>
      nro_get_hash_value (Some (NR_OBJECT_HASH kvs')) (Some k) = Some v \<and>
      (\<forall>k'. k' \<noteq> k \<longrightarrow> nro_get_hash_value (Some (NR_OBJECT_HASH kvs')) (Some k') =
        nro_get_hash_value (Some (NR_OBJECT_HASH kvs)) (Some k')) \<and>
      take (length kvs) (map fst kvs') = map fst kvs"
    by (auto simp: nro_set_hash_def get_hash_map_of)
qed (simp_all add: nro_set_hash_def nro_internal_setvalue_hash_def)

theorem nro_set_hash_roundtrip_witness:
  "\<exists>kvs'. nro_set_hash (Some (NR_OBJECT_HASH [(''a'', NR_OBJECT_INT 1)])) (Some ''b'') (Some (NR_OBJECT_INT 2)) =
      (NR_SUCCESS, Some (NR_OBJECT_HASH kvs')) \<and>
    nro_get_hash_value (Some (NR_OBJECT_HASH kvs')) (Some ''b'') = Some (NR_OBJECT_INT 2)"
proof -
  have "hash_wf [(''a'', NR_OBJECT_INT 1)]" by (simp add: hash_wf_def)
  from nro_set_hash_roundtrip [OF this, of "NR_OBJECT_INT 2" "''b''"] show ?thesis by auto
qed


end
