(* ===== verification/Attributes.thy ===== *)
theory Attributes
  imports Objects Hash_Tree
begin

text \<open>
  Attributes (nr_attributes.c) and custom events (nr_custom_events.c, nr_analytics_events.c).

  A linked list of attributes is a list, newest first.  An analytics event is the array of objects
  that the code prints as JSON; the printing (\<open>nro_to_json\<close>) is not modelled.  The random number that
  the reservoir draws is an argument.
\<close>

section \<open>Attribute configuration\<close>

definition NR_ATTRIBUTE_DESTINATION_TXN_EVENT :: uint32 where "NR_ATTRIBUTE_DESTINATION_TXN_EVENT = 1"
definition NR_ATTRIBUTE_DESTINATION_ALL :: uint32 where "NR_ATTRIBUTE_DESTINATION_ALL = 1 OR 2 OR 4 OR 8"
definition NR_ATTRIBUTE_KEY_LENGTH_LIMIT :: nat where "NR_ATTRIBUTE_KEY_LENGTH_LIMIT = 255"
definition NR_ATTRIBUTE_VALUE_LENGTH_LIMIT :: nat where "NR_ATTRIBUTE_VALUE_LENGTH_LIMIT = 255"
definition NR_ATTRIBUTE_USER_LIMIT :: nat where "NR_ATTRIBUTE_USER_LIMIT = 64"

record nr_attribute_destination_modifier =
  mod_has_wildcard_suffix :: bool
  mod_match :: string
  mod_match_len :: nat
  mod_match_hash :: uint32
  mod_include_destinations :: uint32
  mod_exclude_destinations :: uint32

record nr_attribute_config =
  ac_disabled_destinations :: uint32
  ac_modifier_list :: "nr_attribute_destination_modifier list"

definition nr_attribute_destination_modifier_match ::
  "nr_attribute_destination_modifier \<Rightarrow> string \<Rightarrow> uint32 \<Rightarrow> bool" where
  "nr_attribute_destination_modifier_match modifier key key_hash \<longleftrightarrow>
     (if \<not> mod_has_wildcard_suffix modifier
      then mod_match_hash modifier = key_hash \<and> mod_match modifier = key
      else take (mod_match_len modifier) (mod_match modifier) = take (mod_match_len modifier) key)"

definition nr_attribute_destination_modifier_apply ::
  "nr_attribute_destination_modifier \<Rightarrow> string \<Rightarrow> uint32 \<Rightarrow> uint32 \<Rightarrow> uint32" where
  "nr_attribute_destination_modifier_apply modifier key key_hash destinations =
     (if \<not> nr_attribute_destination_modifier_match modifier key key_hash then destinations
      else (destinations OR mod_include_destinations modifier) AND NOT (mod_exclude_destinations modifier))"

definition nr_attribute_config_apply :: "nr_attribute_config option \<Rightarrow> string option \<Rightarrow> uint32 \<Rightarrow> uint32 \<Rightarrow> uint32" where
  "nr_attribute_config_apply config key key_hash destinations =
     (case key of None \<Rightarrow> 0
      | Some k \<Rightarrow>
          (case config of None \<Rightarrow> destinations
           | Some c \<Rightarrow>
               fold (\<lambda>modifier d. nr_attribute_destination_modifier_apply modifier k key_hash d)
                 (ac_modifier_list c) destinations AND NOT (ac_disabled_destinations c)))"

section \<open>Attributes\<close>

record nr_attribute =
  att_key :: string
  att_key_hash :: uint32
  att_value :: nrobj
  att_destinations :: uint32

record nr_attributes =
  ats_config :: "nr_attribute_config option"
  ats_num_user_attributes :: int
  ats_agent_attribute_list :: "nr_attribute list"
  ats_user_attribute_list :: "nr_attribute list"

definition nr_attributes_create :: "nr_attribute_config option \<Rightarrow> nr_attributes" where
  "nr_attributes_create config = \<lparr>ats_config = config, ats_num_user_attributes = 0,
     ats_agent_attribute_list = [], ats_user_attribute_list = []\<rparr>"

text \<open>The loop of \<open>nr_attributes_remove_duplicate\<close>: the list without the first attribute that has the key.\<close>

fun remove_key :: "string \<Rightarrow> uint32 \<Rightarrow> nr_attribute list \<Rightarrow> nr_attribute list option" where
  "remove_key key key_hash [] = None"
| "remove_key key key_hash (a # as) =
     (if key_hash = att_key_hash a \<and> key = att_key a then Some as
      else map_option (\<lambda>as. a # as) (remove_key key key_hash as))"

definition nr_attributes_remove_duplicate :: "nr_attributes \<Rightarrow> string option \<Rightarrow> uint32 \<Rightarrow> bool \<Rightarrow> nr_attributes" where
  "nr_attributes_remove_duplicate ats key key_hash is_user =
     (case key of None \<Rightarrow> ats
      | Some k \<Rightarrow>
          if is_user
          then (case remove_key k key_hash (ats_user_attribute_list ats) of None \<Rightarrow> ats
                | Some as \<Rightarrow> ats\<lparr>ats_user_attribute_list := as, ats_num_user_attributes := ats_num_user_attributes ats - 1\<rparr>)
          else (case remove_key k key_hash (ats_agent_attribute_list ats) of None \<Rightarrow> ats
                | Some as \<Rightarrow> ats\<lparr>ats_agent_attribute_list := as\<rparr>))"

definition nr_attributes_is_valid_value :: "nrobj option \<Rightarrow> bool" where
  "nr_attributes_is_valid_value value =
     (case value of None \<Rightarrow> False
      | Some (NR_OBJECT_DOUBLE d) \<Rightarrow> \<not> (c_isnan d \<or> c_isinf d)
      | Some (NR_OBJECT_JSTRING _) \<Rightarrow> False
      | Some (NR_OBJECT_HASH _) \<Rightarrow> False
      | Some (NR_OBJECT_ARRAY _) \<Rightarrow> False
      | Some _ \<Rightarrow> True)"

definition nr_attributes_add_internal ::
  "nr_attributes option \<Rightarrow> uint32 \<Rightarrow> bool \<Rightarrow> string option \<Rightarrow> nrobj option \<Rightarrow> nr_status_t \<times> nr_attributes option" where
  "nr_attributes_add_internal ats default_destinations is_user key value =
     (case (ats, key, value) of
        (Some a, Some k, Some v) \<Rightarrow>
          if k = [] then (NR_FAILURE, ats)
          else if \<not> nr_attributes_is_valid_value value then (NR_FAILURE, ats)
          else if length k > NR_ATTRIBUTE_KEY_LENGTH_LIMIT then (NR_FAILURE, ats)
          else
            let key_hash = fst (nr_mkhash key);
                final_destinations = nr_attribute_config_apply (ats_config a) key key_hash default_destinations
            in if final_destinations = 0 then (NR_FAILURE, ats)
               else
                 let a = nr_attributes_remove_duplicate a key key_hash is_user
                 in if is_user \<and> int NR_ATTRIBUTE_USER_LIMIT = ats_num_user_attributes a then (NR_FAILURE, Some a)
                    else
                      let attribute = \<lparr>att_key = k, att_key_hash = key_hash, att_value = v, att_destinations = final_destinations\<rparr>
                      in if is_user
                         then (NR_SUCCESS, Some (a\<lparr>ats_num_user_attributes := ats_num_user_attributes a + 1,
                           ats_user_attribute_list := attribute # ats_user_attribute_list a\<rparr>))
                         else (NR_SUCCESS, Some (a\<lparr>ats_agent_attribute_list := attribute # ats_agent_attribute_list a\<rparr>))
      | _ \<Rightarrow> (NR_FAILURE, ats))"

text \<open>\<open>snprintf\<close> into an array of \<open>NR_ATTRIBUTE_VALUE_LENGTH_LIMIT + 1\<close> bytes.\<close>

definition bound_value :: "nrobj \<Rightarrow> nrobj" where
  "bound_value value =
     (case value of NR_OBJECT_STRING s \<Rightarrow> NR_OBJECT_STRING (take NR_ATTRIBUTE_VALUE_LENGTH_LIMIT s) | _ \<Rightarrow> value)"

definition nr_attributes_add ::
  "nr_attributes option \<Rightarrow> uint32 \<Rightarrow> bool \<Rightarrow> string option \<Rightarrow> nrobj option \<Rightarrow> nr_status_t \<times> nr_attributes option" where
  "nr_attributes_add ats default_destinations is_user key value =
     nr_attributes_add_internal ats default_destinations is_user key (map_option bound_value value)"

definition nr_attributes_user_add ::
  "nr_attributes option \<Rightarrow> uint32 \<Rightarrow> string option \<Rightarrow> nrobj option \<Rightarrow> nr_status_t \<times> nr_attributes option" where
  "nr_attributes_user_add ats default_destinations key value = nr_attributes_add ats default_destinations True key value"

definition nr_attributes_agent_add_string ::
  "nr_attributes option \<Rightarrow> uint32 \<Rightarrow> string option \<Rightarrow> string option \<Rightarrow> nr_status_t \<times> nr_attributes option" where
  "nr_attributes_agent_add_string ats default_destinations key str =
     nr_attributes_add ats default_destinations False key (Some (nro_new_string str))"

definition nr_attributes_to_obj_internal :: "nr_attribute list \<Rightarrow> uint32 \<Rightarrow> nrobj option" where
  "nr_attributes_to_obj_internal attribute_list destination =
     (if attribute_list = [] then None
      else fold (\<lambda>a obj. if att_destinations a AND destination = 0 then obj
                         else snd (nro_set_hash obj (Some (att_key a)) (Some (att_value a))))
             attribute_list (Some nro_new_hash))"

definition nr_attributes_user_to_obj :: "nr_attributes option \<Rightarrow> uint32 \<Rightarrow> nrobj option" where
  "nr_attributes_user_to_obj attributes destination =
     (case attributes of None \<Rightarrow> None
      | Some a \<Rightarrow> nr_attributes_to_obj_internal (ats_user_attribute_list a) destination)"

section \<open>Analytics events\<close>

record nr_analytics_events =
  ev_allocated :: nat
  ev_seen :: nat
  ev_events :: "nrobj list"

definition nr_analytics_events_create :: "int \<Rightarrow> nr_analytics_events option" where
  "nr_analytics_events_create max_events =
     (if max_events \<le> 0 then None
      else if max_events > 10 * 1000 * 1000 then None
      else Some \<lparr>ev_allocated = nat max_events, ev_seen = 0, ev_events = []\<rparr>)"

fun is_hash :: "nrobj \<Rightarrow> bool" where
  "is_hash (NR_OBJECT_HASH _) = True"
| "is_hash _ = False"

definition nr_analytics_event_create :: "nrobj option \<Rightarrow> nrobj option \<Rightarrow> nrobj option \<Rightarrow> nrobj option" where
  "nr_analytics_event_create builtin_fields agent_attributes user_attributes =
     (let bad = (\<lambda>x. case x of None \<Rightarrow> False | Some v \<Rightarrow> \<not> is_hash v);
          or_empty = (\<lambda>x. case x of None \<Rightarrow> nro_new_hash | Some v \<Rightarrow> v)
      in if bad builtin_fields \<or> bad agent_attributes \<or> bad user_attributes then None
         else let arr = Some nro_new_array;
                  arr = snd (nro_set_array arr 1 (Some (or_empty builtin_fields)));
                  arr = snd (nro_set_array arr 2 (Some (or_empty user_attributes)))
              in snd (nro_set_array arr 3 (Some (or_empty agent_attributes))))"

text \<open>The reservoir; \<open>replace_idx\<close> is the number drawn when it is full.\<close>

definition nr_analytics_events_add_event ::
  "nr_analytics_events option \<Rightarrow> nrobj option \<Rightarrow> nat \<Rightarrow> nr_analytics_events option" where
  "nr_analytics_events_add_event events event replace_idx =
     (case (events, event) of
        (Some es, Some ev) \<Rightarrow>
          let es = es\<lparr>ev_seen := ev_seen es + 1\<rparr>
          in if length (ev_events es) < ev_allocated es then Some (es\<lparr>ev_events := ev_events es @ [ev]\<rparr>)
             else if replace_idx < ev_allocated es then Some (es\<lparr>ev_events := (ev_events es)[replace_idx := ev]\<rparr>)
             else Some es
      | _ \<Rightarrow> events)"

section \<open>Custom events\<close>

definition nr_custom_event_valid_event_type_chars :: string where
  "nr_custom_event_valid_event_type_chars =
     ''abcdefghijklmnopqrstuvwxyzABCDEFGHIJKLMNOPQRSTUVWXYZ0123456789:_ ''"

definition nr_custom_events_valid_event_type :: "string option \<Rightarrow> bool" where
  "nr_custom_events_valid_event_type type =
     (case type of None \<Rightarrow> False
      | Some t \<Rightarrow>
          if length t > NR_ATTRIBUTE_KEY_LENGTH_LIMIT then False
          else let idx = length (takeWhile (\<lambda>c. c \<in> set nr_custom_event_valid_event_type_chars) t)
               in \<not> (idx = 0 \<or> idx < length t))"

definition nr_custom_events_iter :: "string \<times> nrobj \<Rightarrow> nr_attributes option \<Rightarrow> nr_attributes option" where
  "nr_custom_events_iter kv atts =
     snd (nr_attributes_user_add atts NR_ATTRIBUTE_DESTINATION_TXN_EVENT (Some (fst kv)) (Some (snd kv)))"

definition nr_custom_events_add_event ::
  "nr_analytics_events option \<Rightarrow> string option \<Rightarrow> nrobj option \<Rightarrow> nrtime_t \<Rightarrow> nat \<Rightarrow> nr_analytics_events option" where
  "nr_custom_events_add_event custom_events type params now replace_idx =
     (if params = None then custom_events
      else if \<not> nr_custom_events_valid_event_type type then custom_events
      else
        let intrinsics = Some nro_new_hash;
            intrinsics = snd (nro_set_hash_string intrinsics (Some ''type'') type);
            intrinsics = snd (nro_set_hash_double intrinsics (Some ''timestamp'') (seconds_of_us now));
            kvs = (case params of Some (NR_OBJECT_HASH kvs) \<Rightarrow> kvs | _ \<Rightarrow> []);
            atts = fold nr_custom_events_iter kvs (Some (nr_attributes_create None));
            validated = nr_attributes_user_to_obj atts NR_ATTRIBUTE_DESTINATION_TXN_EVENT
        in nr_analytics_events_add_event custom_events (nr_analytics_event_create intrinsics None validated) replace_idx)"

section \<open>Invariant of the user attributes\<close>

definition attribute_ok :: "nr_attribute \<Rightarrow> bool" where
  "attribute_ok a \<longleftrightarrow>
     att_key a \<noteq> [] \<and> length (att_key a) \<le> NR_ATTRIBUTE_KEY_LENGTH_LIMIT \<and> att_key_hash a = fst (nr_mkhash (Some (att_key a))) \<and>
     att_destinations a \<noteq> 0 \<and> nr_attributes_is_valid_value (Some (att_value a)) \<and>
     (\<forall>s. att_value a = NR_OBJECT_STRING s \<longrightarrow> length s \<le> NR_ATTRIBUTE_VALUE_LENGTH_LIMIT)"

definition attributes_ok :: "nr_attributes \<Rightarrow> bool" where
  "attributes_ok ats \<longleftrightarrow>
     ats_num_user_attributes ats = int (length (ats_user_attribute_list ats)) \<and>
     length (ats_user_attribute_list ats) \<le> NR_ATTRIBUTE_USER_LIMIT \<and>
     distinct (map att_key (ats_user_attribute_list ats)) \<and> distinct (map att_key (ats_agent_attribute_list ats)) \<and>
     (\<forall>a \<in> set (ats_user_attribute_list ats) \<union> set (ats_agent_attribute_list ats). attribute_ok a)"

text \<open>The user attributes as a map.\<close>

definition user_attribute :: "nr_attributes \<Rightarrow> string \<Rightarrow> nrobj option" where
  "user_attribute ats = map_of (map (\<lambda>a. (att_key a, att_value a)) (ats_user_attribute_list ats))"

lemma remove_key_None:
  "remove_key k (fst (nr_mkhash (Some k))) as = None \<Longrightarrow> \<forall>a \<in> set as. attribute_ok a \<Longrightarrow> k \<notin> att_key ` set as"
  by (induction as) (auto simp: attribute_ok_def split: if_splits)

lemma remove_key_Some:
  assumes "remove_key k h as = Some bs"
  obtains xs a ys where "as = xs @ a # ys" "bs = xs @ ys" "att_key a = k"
  using assms
proof (induction as arbitrary: bs thesis)
  case (Cons b as)
  show ?case
  proof (cases "h = att_key_hash b \<and> k = att_key b")
    case True
    then show ?thesis using Cons.prems by (auto intro: Cons.prems(1) [of "[]"])
  next
    case False
    then obtain cs where cs: "remove_key k h as = Some cs" "bs = b # cs" using Cons.prems(2) by auto
    obtain xs a ys where "as = xs @ a # ys" "cs = xs @ ys" "att_key a = k" using Cons.IH [OF _ cs(1)] by blast
    then show ?thesis using Cons.prems(1) [of "b # xs"] cs(2) by simp
  qed
qed simp

lemma attributes_ok_create: "attributes_ok (nr_attributes_create c)"
  by (simp add: attributes_ok_def nr_attributes_create_def)

text \<open>Removing a duplicate: the key is gone, everything else stays.\<close>

lemma remove_duplicate_ok:
  fixes k :: string
  assumes ok: "attributes_ok a"
  defines "b \<equiv> nr_attributes_remove_duplicate a (Some k) (fst (nr_mkhash (Some k))) True"
  shows "attributes_ok b" "k \<notin> att_key ` set (ats_user_attribute_list b)" "user_attribute b = (user_attribute a)(k := None)"
    "k \<in> att_key ` set (ats_user_attribute_list a) \<Longrightarrow> length (ats_user_attribute_list b) < length (ats_user_attribute_list a)"
    "ats_agent_attribute_list b = ats_agent_attribute_list a" "ats_config b = ats_config a"
    "k \<notin> att_key ` set (ats_user_attribute_list a) \<Longrightarrow> b = a"
proof -
  let ?h = "fst (nr_mkhash (Some k))"
  have "attributes_ok b \<and> k \<notin> att_key ` set (ats_user_attribute_list b) \<and> user_attribute b = (user_attribute a)(k := None) \<and>
    (k \<in> att_key ` set (ats_user_attribute_list a) \<longrightarrow> length (ats_user_attribute_list b) < length (ats_user_attribute_list a)) \<and>
    ats_agent_attribute_list b = ats_agent_attribute_list a \<and> ats_config b = ats_config a \<and>
    (k \<notin> att_key ` set (ats_user_attribute_list a) \<longrightarrow> b = a)"
  proof (cases "remove_key k ?h (ats_user_attribute_list a)")
    case None
    then have "k \<notin> att_key ` set (ats_user_attribute_list a)" using ok remove_key_None unfolding attributes_ok_def by blast
    moreover have "user_attribute a k = None" using calculation by (auto simp: user_attribute_def map_of_eq_None_iff)
    ultimately show ?thesis using None ok by (simp add: b_def nr_attributes_remove_duplicate_def fun_upd_idem)
  next
    case (Some bs)
    obtain xs x ys where s: "ats_user_attribute_list a = xs @ x # ys" "bs = xs @ ys" "att_key x = k"
      by (rule remove_key_Some [OF Some])
    have b: "b = a\<lparr>ats_user_attribute_list := bs, ats_num_user_attributes := ats_num_user_attributes a - 1\<rparr>"
      using Some by (simp add: b_def nr_attributes_remove_duplicate_def)
    have d: "k \<notin> att_key ` set (xs @ ys)" using ok s by (auto simp: attributes_ok_def)
    have "user_attribute b = (user_attribute a)(k := None)"
    proof
      fix j
      have "map_of (map (\<lambda>a. (att_key a, att_value a)) (xs @ ys)) k = None"
        using d by (auto simp: map_of_eq_None_iff)
      then show "user_attribute b j = ((user_attribute a)(k := None)) j"
        using s d by (auto simp: b user_attribute_def map_add_def split: option.splits)
    qed
    with ok s b d show ?thesis by (auto simp: attributes_ok_def)
  qed
  then show "attributes_ok b" "k \<notin> att_key ` set (ats_user_attribute_list b)" "user_attribute b = (user_attribute a)(k := None)"
    "k \<in> att_key ` set (ats_user_attribute_list a) \<Longrightarrow> length (ats_user_attribute_list b) < length (ats_user_attribute_list a)"
    "ats_agent_attribute_list b = ats_agent_attribute_list a" "ats_config b = ats_config a"
    "k \<notin> att_key ` set (ats_user_attribute_list a) \<Longrightarrow> b = a" by blast+
qed

text \<open>Adding a user attribute, on a well-formed set.\<close>

lemma user_add_ok:
  fixes k :: string and v :: nrobj and default_destinations :: uint32
  assumes ok: "attributes_ok a"
  defines "dests \<equiv> nr_attribute_config_apply (ats_config a) (Some k) (fst (nr_mkhash (Some k))) default_destinations"
  defines "fits \<equiv> k \<noteq> [] \<and> length k \<le> 255 \<and> nr_attributes_is_valid_value (Some v) \<and> dests \<noteq> 0 \<and>
    (user_attribute a k \<noteq> None \<or> length (ats_user_attribute_list a) < 64)"
  shows "\<exists>a'. nr_attributes_user_add (Some a) default_destinations (Some k) (Some v) =
      (if fits then NR_SUCCESS else NR_FAILURE, Some a') \<and> attributes_ok a' \<and>
    (fits \<longrightarrow> user_attribute a' = (user_attribute a)(k \<mapsto> bound_value v)) \<and> (\<not> fits \<longrightarrow> a' = a)"
proof -
  let ?h = "fst (nr_mkhash (Some k))"
  define b where "b = nr_attributes_remove_duplicate a (Some k) ?h True"
  note r = remove_duplicate_ok [OF ok, of k, folded b_def]
  have valid: "nr_attributes_is_valid_value (Some (bound_value v)) = nr_attributes_is_valid_value (Some v)"
    by (cases v) (simp_all add: bound_value_def nr_attributes_is_valid_value_def)
  have mem: "user_attribute a k \<noteq> None \<longleftrightarrow> k \<in> att_key ` set (ats_user_attribute_list a)"
    by (auto simp: user_attribute_def map_of_eq_None_iff image_iff)
  have num: "ats_num_user_attributes b = int (length (ats_user_attribute_list b))"
    "length (ats_user_attribute_list a) \<le> 64" "length (ats_user_attribute_list b) \<le> 64"
    using r(1) ok by (simp_all add: attributes_ok_def NR_ATTRIBUTE_USER_LIMIT_def)
  have full: "int NR_ATTRIBUTE_USER_LIMIT = ats_num_user_attributes b \<longleftrightarrow>
      \<not> (user_attribute a k \<noteq> None \<or> length (ats_user_attribute_list a) < 64)"
    using num r(4,7) mem by (cases "k \<in> att_key ` set (ats_user_attribute_list a)")
      (auto simp: NR_ATTRIBUTE_USER_LIMIT_def)
  let ?new = "\<lparr>att_key = k, att_key_hash = ?h, att_value = bound_value v, att_destinations = dests\<rparr>"
  let ?c = "b\<lparr>ats_num_user_attributes := ats_num_user_attributes b + 1,
    ats_user_attribute_list := ?new # ats_user_attribute_list b\<rparr>"
  have eq: "nr_attributes_user_add (Some a) default_destinations (Some k) (Some v) =
      (if k = [] \<or> \<not> nr_attributes_is_valid_value (Some v) \<or> length k > 255 \<or> dests = 0 then (NR_FAILURE, Some a)
       else if int NR_ATTRIBUTE_USER_LIMIT = ats_num_user_attributes b then (NR_FAILURE, Some b)
       else (NR_SUCCESS, Some ?c))"
    by (simp add: nr_attributes_user_add_def nr_attributes_add_def nr_attributes_add_internal_def valid
        NR_ATTRIBUTE_KEY_LENGTH_LIMIT_def dests_def [symmetric] b_def [symmetric] Let_def)
  have eq': "nr_attributes_user_add (Some a) default_destinations (Some k) (Some v) =
      (if fits then (NR_SUCCESS, Some ?c) else (NR_FAILURE, Some a))"
    unfolding eq fits_def using full r(7) mem by auto
  have "attributes_ok ?c \<and> user_attribute ?c = (user_attribute a)(k \<mapsto> bound_value v)" if fits
  proof -
    have "attribute_ok ?new"
      using that valid by (auto simp: attribute_ok_def fits_def NR_ATTRIBUTE_KEY_LENGTH_LIMIT_def bound_value_def
          NR_ATTRIBUTE_VALUE_LENGTH_LIMIT_def split: nrobj.splits)
    moreover have "length (ats_user_attribute_list b) < 64" using that full num by (auto simp: fits_def NR_ATTRIBUTE_USER_LIMIT_def)
    ultimately have "attributes_ok ?c" using r(1,2) by (auto simp: attributes_ok_def NR_ATTRIBUTE_USER_LIMIT_def)
    moreover have "user_attribute ?c = (user_attribute b)(k \<mapsto> bound_value v)" by (auto simp: user_attribute_def)
    ultimately show ?thesis using r(3) by simp
  qed
  with eq' ok show ?thesis by simp
qed

text \<open>
  C13 (invariant).  Adding a user attribute keeps the set well formed: at most 64 attributes, each key once,
  keys of 1 to 255 characters, string values of at most 255 characters, no value that is not a finite
  scalar.  The addition succeeds exactly when the key is non-empty and not too long, the value is a
  valid scalar, the configuration leaves it a destination, and the key is present already or fewer than
  64 are; then the key has the value (a string cut to 255 characters) and the others are unchanged.
  A refused addition changes nothing.
\<close>

theorem nr_attributes_user_add_ok:
  fixes k :: string and v :: nrobj and default_destinations :: uint32
  assumes ok: "attributes_ok a"
  defines "dests \<equiv> nr_attribute_config_apply (ats_config a) (Some k) (fst (nr_mkhash (Some k))) default_destinations"
  defines "fits \<equiv> k \<noteq> [] \<and> length k \<le> 255 \<and> nr_attributes_is_valid_value (Some v) \<and> dests \<noteq> 0 \<and>
    (user_attribute a k \<noteq> None \<or> length (ats_user_attribute_list a) < 64)"
  shows "\<exists>a'. nr_attributes_user_add (Some a) default_destinations (Some k) (Some v) =
      (if fits then NR_SUCCESS else NR_FAILURE, Some a') \<and> attributes_ok a' \<and>
    (fits \<longrightarrow> user_attribute a' = (user_attribute a)(k \<mapsto> bound_value v)) \<and> (\<not> fits \<longrightarrow> a' = a)"
  using user_add_ok [OF ok, where k = k and v = v and default_destinations = default_destinations] unfolding fits_def dests_def .

theorem nr_attributes_user_add_ok_witness:
  "\<exists>a'. nr_attributes_user_add (Some (nr_attributes_create None)) NR_ATTRIBUTE_DESTINATION_ALL (Some ''k'') (Some (NR_OBJECT_INT 5)) =
      (NR_SUCCESS, Some a') \<and> user_attribute a' ''k'' = Some (NR_OBJECT_INT 5)"
  using nr_attributes_user_add_ok [OF attributes_ok_create [of None], where k = "''k''" and v = "NR_OBJECT_INT 5"
      and default_destinations = NR_ATTRIBUTE_DESTINATION_ALL]
  by (auto simp: nr_attributes_create_def nr_attribute_config_apply_def NR_ATTRIBUTE_DESTINATION_ALL_def
      nr_attributes_is_valid_value_def bound_value_def)

end
