(* ===== verification/Base64.thy ===== *)
theory Base64
  imports C_Strings
begin

text \<open>
  Base64 (util_base64.c).  Lengths are unbounded; the encoder's output buffer of \<open>len * 4 / 3 + 4\<close> bytes
  holds the four characters of each group and the final zero.
\<close>

section \<open>Encoding\<close>

definition table64 :: string where
  "table64 = ''ABCDEFGHIJKLMNOPQRSTUVWXYZabcdefghijklmnopqrstuvwxyz0123456789+/''"

definition byte :: "char \<Rightarrow> uint8" where "byte c = word_of_nat (of_char c)"

definition char_of_byte :: "uint8 \<Rightarrow> char" where "char_of_byte b = char_of (unat b)"

text \<open>The four indices of a group of three bytes.\<close>

definition obuf :: "uint8 \<Rightarrow> uint8 \<Rightarrow> uint8 \<Rightarrow> uint8 list" where
  "obuf i0 i1 i2 =
     [drop_bit 2 (i0 AND 0xfc),
      push_bit 4 (i0 AND 0x03) OR drop_bit 4 (i1 AND 0xf0),
      push_bit 2 (i1 AND 0x0f) OR drop_bit 6 (i2 AND 0xc0),
      i2 AND 0x3f]"

definition code_char :: "uint8 \<Rightarrow> char" where "code_char v = table64 ! unat v"

fun encode_loop :: "string \<Rightarrow> string" where
  "encode_loop [] = []"
| "encode_loop [a] = (let o4 = obuf (byte a) 0 0 in [code_char (o4 ! 0), code_char (o4 ! 1), CHR ''='', CHR ''=''])"
| "encode_loop [a, b] =
     (let o4 = obuf (byte a) (byte b) 0 in [code_char (o4 ! 0), code_char (o4 ! 1), code_char (o4 ! 2), CHR ''=''])"
| "encode_loop (a # b # c # rest) = map code_char (obuf (byte a) (byte b) (byte c)) @ encode_loop rest"

definition nr_b64_encode :: "string option \<Rightarrow> int \<Rightarrow> string option" where
  "nr_b64_encode data len =
     (case data of None \<Rightarrow> None
      | Some d \<Rightarrow> if len \<le> 0 then None else Some (encode_loop (take (nat len) d)))"

section \<open>Decoding\<close>

definition nr_b64_is_valid_character :: "char \<Rightarrow> bool" where
  "nr_b64_is_valid_character c \<longleftrightarrow>
     (let n = (of_char c :: nat) in c = CHR ''='' \<or> c = CHR ''/'' \<or> c = CHR ''+'' \<or> 48 \<le> n \<and> n \<le> 57 \<or>
       97 \<le> n \<and> n \<le> 122 \<or> 65 \<le> n \<and> n \<le> 90)"

text \<open>One turn of the loop of \<open>decodeQuantum\<close>.\<close>

definition decode_step :: "uint64 \<Rightarrow> char \<Rightarrow> uint64" where
  "decode_step x s =
     (let v = length (takeWhile (\<lambda>p. p \<noteq> s) table64)
      in if v < length table64 then push_bit 6 x + word_of_nat v
         else if s = CHR ''='' then push_bit 6 x else x)"

definition decodeQuantum :: "string \<Rightarrow> string" where
  "decodeQuantum src =
     (let x = fold (\<lambda>s x. decode_step x s) (take 4 src) 0
      in [char_of_byte (ucast (drop_bit 16 x AND 0xff)), char_of_byte (ucast (drop_bit 8 x AND 0xff)),
          char_of_byte (ucast (x AND 0xff))])"

text \<open>All groups but the last.\<close>

fun decode_loop :: "nat \<Rightarrow> string \<Rightarrow> string" where
  "decode_loop 0 src = []"
| "decode_loop (Suc n) src = decodeQuantum src @ decode_loop n (drop 4 src)"

definition nr_b64_decode :: "string option \<Rightarrow> string option" where
  "nr_b64_decode src =
     (case src of None \<Rightarrow> None
      | Some s \<Rightarrow>
          if \<exists>c \<in> set s. \<not> nr_b64_is_valid_character c then None
          else
            let len = length (takeWhile (\<lambda>c. c \<noteq> CHR ''='') s);
                equalsTerm = (if len < length s then (if len + 1 < length s \<and> s ! (len + 1) = CHR ''='' then 2 else 1) else 0);
                numQuantums = (len + equalsTerm) div 4
            in if numQuantums = 0 then None
               else Some (decode_loop (numQuantums - 1) s @
                          take (3 - equalsTerm) (decodeQuantum (drop (4 * (numQuantums - 1)) s))))"

section \<open>Round trip\<close>

lemma length_table64 [simp]: "length table64 = 64" by (simp add: table64_def)

lemma distinct_table64: "distinct table64" by (simp add: table64_def)

lemma table64_no_pad: "CHR ''='' \<notin> set table64" by (simp add: table64_def)

lemma takeWhile_nth:
  assumes "distinct xs" "i < length xs"
  shows "length (takeWhile (\<lambda>p. p \<noteq> xs ! i) xs) = i"
proof -
  have "takeWhile (\<lambda>p. p \<noteq> xs ! i) xs = take i xs"
    by (rule takeWhile_eq_take_P_nth) (use assms in \<open>auto simp: nth_eq_iff_index_eq\<close>)
  with assms(2) show ?thesis by simp
qed

lemma decode_code: "v < 64 \<Longrightarrow> decode_step x (table64 ! v) = x * 64 + word_of_nat v"
  using takeWhile_nth [OF distinct_table64, of v] by (simp add: decode_step_def Let_def push_bit_eq_mult mult.commute)

lemma decode_pad: "decode_step x (CHR ''='') = x * 64"
proof -
  have "takeWhile (\<lambda>p. p \<noteq> CHR ''='') table64 = table64" using table64_no_pad by (auto simp: takeWhile_eq_all_conv)
  then show ?thesis unfolding decode_step_def Let_def by (simp only:) (simp add: push_bit_eq_mult mult.commute)
qed

lemma unat_take_bit: "unat (take_bit n w) = unat w mod 2 ^ n"
  unfolding unsigned_take_bit_eq by (simp only: take_bit_eq_mod)

lemma unat_drop_bit: "unat (drop_bit n w) = unat w div 2 ^ n"
  for w :: "'a :: len word"
  unfolding unsigned_drop_bit_eq drop_bit_eq_div
  by (metis take_bit_eq_self_iff_drop_bit_eq_0 take_bit_nat_eq_self drop_bit_eq_div unsigned_drop_bit_eq unsigned_less)

lemma unat_and_mask:
  fixes b :: uint8
  shows "unat (drop_bit 2 (b AND 0xfc)) = unat b div 4" "unat (b AND 0x03) = unat b mod 4"
    "unat (drop_bit 4 (b AND 0xf0)) = unat b div 16" "unat (b AND 0x0f) = unat b mod 16"
    "unat (drop_bit 6 (b AND 0xc0)) = unat b div 64" "unat (b AND 0x3f) = unat b mod 64"
proof -
  have b: "unat b < 256" using unsigned_less [of b] by simp
  have m: "(0x03 :: uint8) = mask 2" "(0x0f :: uint8) = mask 4" "(0x3f :: uint8) = mask 6"
    by (simp_all add: mask_eq_exp_minus_1)
  show "unat (b AND 0x03) = unat b mod 4" "unat (b AND 0x0f) = unat b mod 16" "unat (b AND 0x3f) = unat b mod 64"
    unfolding m take_bit_eq_mask [symmetric] unat_take_bit by simp_all
  have d: "drop_bit 2 (0xfc :: uint8) = mask 6" "drop_bit 4 (0xf0 :: uint8) = mask 4" "drop_bit 6 (0xc0 :: uint8) = mask 2"
    by (simp_all add: mask_eq_exp_minus_1)
  show "unat (drop_bit 2 (b AND 0xfc)) = unat b div 4" "unat (drop_bit 4 (b AND 0xf0)) = unat b div 16"
    "unat (drop_bit 6 (b AND 0xc0)) = unat b div 64"
    unfolding drop_bit_and d take_bit_eq_mask [symmetric] unat_take_bit unat_drop_bit using b by simp_all
qed

lemma unat_push_or:
  fixes a b :: uint8
  assumes "unat a < 2 ^ k" "unat b < 2 ^ n" "k + n \<le> 8"
  shows "unat (push_bit n a OR b) = unat a * 2 ^ n + unat b"
proof -
  have bits: "\<not> (bit (push_bit n a) i \<and> bit b i)" for i
  proof
    assume *: "bit (push_bit n a) i \<and> bit b i"
    then have "n \<le> i" by (simp add: bit_push_bit_iff)
    have "take_bit n b = b"
      using assms(2) by (intro word_unat_eq_iff [THEN iffD2]) (simp add: unat_take_bit)
    then have "bit (take_bit n b) i" using * by simp
    with \<open>n \<le> i\<close> show False by (simp add: bit_take_bit_iff)
  qed
  then have or: "push_bit n a OR b = push_bit n a + b" by (simp add: disjunctive_add)
  have "unat a * 2 ^ n + unat b < 2 ^ (k + n)"
  proof -
    have "unat a * 2 ^ n + unat b < (unat a + 1) * 2 ^ n" using assms(2) by simp
    also have "\<dots> \<le> 2 ^ k * 2 ^ n" using assms(1) by (intro mult_right_mono) auto
    finally show ?thesis by (simp add: power_add)
  qed
  also have "\<dots> \<le> 2 ^ 8" using assms(3) by (intro power_increasing) auto
  finally have lt: "unat a * 2 ^ n + unat b < 256" by simp
  have "unat (push_bit n a) = unat a * 2 ^ n"
    unfolding unsigned_push_bit_eq unfolding push_bit_eq_mult take_bit_eq_mod using lt by simp
  then show ?thesis unfolding or using lt by (simp add: unat_word_ariths)
qed

lemma unat_obuf:
  "map unat (obuf a b c) =
    [unat a div 4, unat a mod 4 * 16 + unat b div 16, unat b mod 16 * 4 + unat c div 64, unat c mod 64]"
proof -
  have lt: "unat a < 256" "unat b < 256" "unat c < 256" using unsigned_less [of a] unsigned_less [of b] unsigned_less [of c] by simp_all
  have "unat (push_bit 4 (a AND 0x03) OR drop_bit 4 (b AND 0xf0)) = unat (a AND 0x03) * 2 ^ 4 + unat (drop_bit 4 (b AND 0xf0))"
    by (rule unat_push_or [of _ 2]; use lt in \<open>simp only: unat_and_mask\<close>; simp)
  moreover have "unat (push_bit 2 (b AND 0x0f) OR drop_bit 6 (c AND 0xc0)) = unat (b AND 0x0f) * 2 ^ 2 + unat (drop_bit 6 (c AND 0xc0))"
    by (rule unat_push_or [of _ 4]; use lt in \<open>simp only: unat_and_mask\<close>; simp)
  ultimately show ?thesis by (simp only: obuf_def unat_and_mask list.map) simp
qed

lemma char_byte: "char_of_byte (byte c) = c" "unat (byte c) = of_char c"
proof -
  have "(of_char c :: nat) < 256" by simp
  then show "unat (byte c) = of_char c" by (simp add: byte_def unsigned_of_nat take_bit_eq_mod)
  then show "char_of_byte (byte c) = c" by (simp add: char_of_byte_def)
qed

text \<open>The three bytes of the number that four indices make.\<close>

lemma quantum_bytes:
  assumes "n < 2 ^ 24"
  shows "[char_of_byte (ucast (drop_bit 16 (word_of_nat n :: uint64) AND 0xff)),
      char_of_byte (ucast (drop_bit 8 (word_of_nat n :: uint64) AND 0xff)), char_of_byte (ucast ((word_of_nat n :: uint64) AND 0xff))]
    = [char_of (n div 65536), char_of (n div 256 mod 256), char_of (n mod 256)]"
proof -
  have m: "(0xff :: uint64) = mask 8" by (simp add: mask_eq_exp_minus_1)
  have u: "unat (word_of_nat n :: uint64) = n" using assms by (simp add: unsigned_of_nat take_bit_eq_mod)
  have c: "unat (ucast (w AND mask 8) :: uint8) = unat w mod 256" for w :: uint64
    unfolding take_bit_eq_mask [symmetric] unsigned_ucast_eq unat_take_bit by (simp add: take_bit_eq_mod)
  have "n div 65536 mod 256 = n div 65536" using assms by simp
  then show ?thesis
    unfolding char_of_byte_def m c by (simp add: unat_drop_bit u)
qed

lemma decodeQuantum_codes:
  assumes "v0 < 64" "v1 < 64" "v2 < 64" "v3 < 64"
    and "fold (\<lambda>s x. decode_step x s) [c0, c1, c2, c3] 0 = (((0 * 64 + word_of_nat v0) * 64 + word_of_nat v1) * 64 + word_of_nat v2) * 64 + word_of_nat v3"
  defines "n \<equiv> ((v0 * 64 + v1) * 64 + v2) * 64 + v3"
  shows "decodeQuantum (c0 # c1 # c2 # c3 # rest) = [char_of (n div 65536), char_of (n div 256 mod 256), char_of (n mod 256)]"
proof -
  have "fold (\<lambda>s x. decode_step x s) [c0, c1, c2, c3] 0 = word_of_nat n" using assms(5) by (simp add: n_def)
  moreover have "n < 2 ^ 24" using assms(1-4) by (simp add: n_def)
  ultimately show ?thesis using quantum_bytes [of n] by (simp add: decodeQuantum_def Let_def)
qed

lemma group_arith:
  fixes a b c :: nat
  assumes "a < 256" "b < 256" "c < 256"
  shows "((a div 4 * 64 + (a mod 4 * 16 + b div 16)) * 64 + (b mod 16 * 4 + c div 64)) * 64 + c mod 64 = a * 65536 + b * 256 + c"
proof -
  have "((p * 64 + (q * 16 + r)) * 64 + (s * 4 + t)) * 64 + u = (4 * p + q) * 65536 + (16 * r + s) * 256 + (64 * t + u)"
    for p q r s t u :: nat by (simp add: algebra_simps)
  from this [of "a div 4" "a mod 4" "b div 16" "b mod 16" "c div 64" "c mod 64"] show ?thesis by simp
qed

lemma decodeQuantum_obuf:
  fixes a b c :: uint8
  assumes "fold (\<lambda>s x. decode_step x s) cs 0 = (let v = map unat (obuf a b c) in
      (((0 * 64 + word_of_nat (v ! 0)) * 64 + word_of_nat (v ! 1)) * 64 + word_of_nat (v ! 2)) * 64 + word_of_nat (v ! 3))"
    and "length cs = 4"
  shows "decodeQuantum (cs @ rest) = [char_of_byte a, char_of_byte b, char_of_byte c]"
proof -
  have lt: "unat a < 256" "unat b < 256" "unat c < 256" using unsigned_less [of a] unsigned_less [of b] unsigned_less [of c] by simp_all
  obtain c0 c1 c2 c3 where cs: "cs = [c0, c1, c2, c3]" using assms(2) by (auto simp: length_Suc_conv numeral_eq_Suc)
  let ?n = "unat a * 65536 + unat b * 256 + unat c"
  have n: "?n = (unat a * 256 + unat b) * 256 + unat c" by simp
  have d: "?n div 256 = unat a * 256 + unat b" unfolding n using lt by simp
  have "?n div 65536 = ?n div 256 div 256" by (simp add: div_mult2_eq [symmetric])
  then have "?n div 65536 = unat a" unfolding d using lt by simp
  moreover have "?n div 256 mod 256 = unat b" unfolding d using lt by simp
  moreover have "?n mod 256 = unat c" unfolding n mod_mult_self3 using lt by simp
  moreover have "decodeQuantum (c0 # c1 # c2 # c3 # rest) = [char_of (?n div 65536), char_of (?n div 256 mod 256), char_of (?n mod 256)]"
    unfolding group_arith [OF lt, symmetric]
    by (rule decodeQuantum_codes) (use lt assms(1) cs in \<open>simp_all add: unat_obuf Let_def\<close>)
  ultimately show ?thesis by (simp add: cs char_of_byte_def)
qed

lemma byte_less: "unat (byte c) < 256" using unsigned_less [of "byte c"] by simp

lemma obuf_less: "v \<in> set (obuf a b c) \<Longrightarrow> unat v < 64"
proof -
  assume v: "v \<in> set (obuf a b c)"
  have lt: "unat a < 256" "unat b < 256" "unat c < 256" using unsigned_less [of a] unsigned_less [of b] unsigned_less [of c] by simp_all
  have "unat v \<in> set (map unat (obuf a b c))" using v by simp
  then show ?thesis unfolding unat_obuf using lt by auto
qed

lemma obuf_cases:
  obtains v0 v1 v2 v3 where "obuf a b c = [v0, v1, v2, v3]" "unat v0 < 64" "unat v1 < 64" "unat v2 < 64" "unat v3 < 64"
  using obuf_less [of _ a b c] that by (simp add: obuf_def)

lemma decode_group:
  "decodeQuantum (map code_char (obuf a b c) @ rest) = [char_of_byte a, char_of_byte b, char_of_byte c]"
proof (rule decodeQuantum_obuf)
  obtain v0 v1 v2 v3 where v: "obuf a b c = [v0, v1, v2, v3]" "unat v0 < 64" "unat v1 < 64" "unat v2 < 64" "unat v3 < 64"
    by (rule obuf_cases)
  then show "fold (\<lambda>s x. decode_step x s) (map code_char (obuf a b c)) 0 = (let v = map unat (obuf a b c) in
      (((0 * 64 + word_of_nat (v ! 0)) * 64 + word_of_nat (v ! 1)) * 64 + word_of_nat (v ! 2)) * 64 + word_of_nat (v ! 3))"
    by (simp add: code_char_def decode_code Let_def)
qed (simp add: obuf_def)

lemma decode_group_pad:
  "decodeQuantum ([code_char (obuf a 0 0 ! 0), code_char (obuf a 0 0 ! 1), CHR ''='', CHR ''=''] @ rest) = [char_of_byte a, char_of_byte 0, char_of_byte 0]"
  "decodeQuantum ([code_char (obuf a b 0 ! 0), code_char (obuf a b 0 ! 1), code_char (obuf a b 0 ! 2), CHR ''=''] @ rest) =
    [char_of_byte a, char_of_byte b, char_of_byte 0]"
proof -
  obtain v0 v1 v2 v3 where v: "obuf a 0 0 = [v0, v1, v2, v3]" "unat v0 < 64" "unat v1 < 64" "unat v2 < 64" "unat v3 < 64"
    by (rule obuf_cases)
  have "map unat (obuf a 0 0) ! 2 = 0" "map unat (obuf a 0 0) ! 3 = 0" unfolding unat_obuf by simp_all
  with v have "unat v2 = 0" "unat v3 = 0" by simp_all
  with v show "decodeQuantum ([code_char (obuf a 0 0 ! 0), code_char (obuf a 0 0 ! 1), CHR ''='', CHR ''=''] @ rest) = [char_of_byte a, char_of_byte 0, char_of_byte 0]"
    by (intro decodeQuantum_obuf) (simp_all add: code_char_def decode_code decode_pad)
next
  obtain v0 v1 v2 v3 where v: "obuf a b 0 = [v0, v1, v2, v3]" "unat v0 < 64" "unat v1 < 64" "unat v2 < 64" "unat v3 < 64"
    by (rule obuf_cases)
  have "map unat (obuf a b 0) ! 3 = 0" unfolding unat_obuf by simp
  with v have "unat v3 = 0" by simp
  with v show "decodeQuantum ([code_char (obuf a b 0 ! 0), code_char (obuf a b 0 ! 1), code_char (obuf a b 0 ! 2), CHR ''=''] @ rest) =
    [char_of_byte a, char_of_byte b, char_of_byte 0]"
    by (intro decodeQuantum_obuf) (simp_all add: code_char_def decode_code decode_pad)
qed

text \<open>The encoded text: its groups, its padding and its characters.\<close>

definition pad_of :: "string \<Rightarrow> nat" where
  "pad_of s = (3 - length s mod 3) mod 3"

lemma code_char_table: "v \<in> set (obuf a b c) \<Longrightarrow> code_char v \<in> set table64"
  using obuf_less by (auto simp: code_char_def)

lemma code_char_nth: "i < 4 \<Longrightarrow> code_char (obuf a b c ! i) \<in> set table64"
  by (rule code_char_table [OF nth_mem]) (simp add: obuf_def)

lemma encode_shape:
  "\<exists>body. encode_loop s = body @ replicate (pad_of s) (CHR ''='') \<and> set body \<subseteq> set table64 \<and>
    length body + pad_of s = 4 * ((length s + 2) div 3)"
proof (induction s rule: encode_loop.induct)
  case (4 a b c rest)
  then obtain body where b: "encode_loop rest = body @ replicate (pad_of rest) (CHR ''='')" "set body \<subseteq> set table64"
      "length body + pad_of rest = 4 * ((length rest + 2) div 3)" by blast
  have p: "pad_of (a # b # c # rest) = pad_of rest" 
  proof -
    have "Suc (Suc (Suc (length rest))) mod 3 = length rest mod 3" by presburger
    then show ?thesis by (simp add: pad_of_def)
  qed
  have "(5 + length rest) div 3 = Suc ((length rest + 2) div 3)" by simp
  with b p code_char_table [of _ "byte a" "byte b" "byte c"] show ?case
    by (intro exI [of _ "map code_char (obuf (byte a) (byte b) (byte c)) @ body"]) (auto simp: obuf_def)
next
  case (2 a)
  then show ?case using code_char_nth [of 0 "byte a" 0 0] code_char_nth [of 1 "byte a" 0 0]
    by (intro exI [of _ "[code_char (obuf (byte a) 0 0 ! 0), code_char (obuf (byte a) 0 0 ! 1)]"]) (simp add: pad_of_def Let_def numeral_2_eq_2)
next
  case (3 a b)
  then show ?case using code_char_nth [of 0 "byte a" "byte b" 0] code_char_nth [of 1 "byte a" "byte b" 0] code_char_nth [of 2 "byte a" "byte b" 0]
    by (intro exI [of _ "[code_char (obuf (byte a) (byte b) 0 ! 0), code_char (obuf (byte a) (byte b) 0 ! 1), code_char (obuf (byte a) (byte b) 0 ! 2)]"])
      (simp add: pad_of_def Let_def)
qed (simp add: pad_of_def)

lemma decode_encode_groups:
  "s \<noteq> [] \<Longrightarrow> (let q = (length s + 2) div 3 in
    decode_loop (q - 1) (encode_loop s) @ take (3 - pad_of s) (decodeQuantum (drop (4 * (q - 1)) (encode_loop s)))) = s"
proof (induction s rule: encode_loop.induct)
  case (2 a)
  then show ?case using decode_group_pad(1) [of "byte a" "[]"] by (simp add: pad_of_def Let_def char_byte)
next
  case (3 a b)
  then show ?case using decode_group_pad(2) [of "byte a" "byte b" "[]"] by (simp add: pad_of_def Let_def char_byte numeral_2_eq_2)
next
  case (4 a b c rest)
  let ?g = "map code_char (obuf (byte a) (byte b) (byte c))"
  have g: "decodeQuantum (?g @ r) = [a, b, c]" for r by (simp add: decode_group char_byte)
  have len: "length ?g = 4" by (simp add: obuf_def)
  have p: "pad_of (a # b # c # rest) = pad_of rest"
  proof -
    have "Suc (Suc (Suc (length rest))) mod 3 = length rest mod 3" by presburger
    then show ?thesis by (simp add: pad_of_def)
  qed
  show ?case
  proof (cases "rest = []")
    case True
    then show ?thesis using g [of "[]"] by (simp add: pad_of_def)
  next
    case False
    define q where "q = (length rest + 2) div 3 - 1"
    have q: "(length rest + 2) div 3 = Suc q" "(length (a # b # c # rest) + 2) div 3 = Suc (Suc q)"
      using False by (cases rest; simp add: q_def)+
    have "decode_loop q (encode_loop rest) @ take (3 - pad_of rest) (decodeQuantum (drop (4 * q) (encode_loop rest))) = rest"
      using 4 False q by (simp add: Let_def)
    then show ?thesis using g len p q by (simp add: Let_def)
  qed
qed simp



end
