(* ===== verification/Distributed_Trace.thy ===== *)
theory Distributed_Trace
  imports Objects Base64
begin

text \<open>
  Distributed trace payloads (nr_distributed_trace.c).

  Printing and parsing JSON (\<open>nro_to_json\<close>, \<open>nro_create_from_json\<close>) are the arguments \<open>to_json\<close> and
  \<open>from_json\<close>.  The functions that report an error through a pointer return it: \<open>Inl\<close> is the name of
  the supportability metric that the code stores there.
\<close>

section \<open>Getters of util_object.c\<close>

definition nro_get_hash_string :: "nrobj option \<Rightarrow> string \<Rightarrow> string option" where
  "nro_get_hash_string obj key =
     (case nro_get_hash_value obj (Some key) of Some (NR_OBJECT_STRING s) \<Rightarrow> Some s | _ \<Rightarrow> None)"

text \<open>The value and whether it was one; the value is -1 otherwise.\<close>

definition nro_get_hash_long :: "nrobj option \<Rightarrow> string \<Rightarrow> int \<times> bool" where
  "nro_get_hash_long obj key =
     (case nro_get_hash_value obj (Some key) of Some (NR_OBJECT_LONG n) \<Rightarrow> (n, True) | _ \<Rightarrow> (-1, False))"

definition nro_get_hash_double :: "nrobj option \<Rightarrow> string \<Rightarrow> c_double option" where
  "nro_get_hash_double obj key =
     (case nro_get_hash_value obj (Some key) of Some (NR_OBJECT_DOUBLE d) \<Rightarrow> Some d | _ \<Rightarrow> None)"

definition nro_get_hash_boolean :: "nrobj option \<Rightarrow> string \<Rightarrow> bool option" where
  "nro_get_hash_boolean obj key =
     (case nro_get_hash_value obj (Some key) of Some (NR_OBJECT_BOOLEAN b) \<Rightarrow> Some b | _ \<Rightarrow> None)"

definition nro_get_hash_hash :: "nrobj option \<Rightarrow> string \<Rightarrow> nrobj option" where
  "nro_get_hash_hash obj key =
     (case nro_get_hash_value obj (Some key) of Some (NR_OBJECT_HASH kvs) \<Rightarrow> Some (NR_OBJECT_HASH kvs) | _ \<Rightarrow> None)"

definition nro_get_hash_array :: "nrobj option \<Rightarrow> string \<Rightarrow> nrobj option" where
  "nro_get_hash_array obj key =
     (case nro_get_hash_value obj (Some key) of Some (NR_OBJECT_ARRAY xs) \<Rightarrow> Some (NR_OBJECT_ARRAY xs) | _ \<Rightarrow> None)"

definition nro_get_array_int :: "nrobj option \<Rightarrow> int \<Rightarrow> int" where
  "nro_get_array_int obj idx =
     (case obj of
        Some (NR_OBJECT_ARRAY xs) \<Rightarrow>
          if idx < 1 \<or> idx - 1 \<ge> int (length xs) then -1
          else (case xs ! nat (idx - 1) of NR_OBJECT_INT n \<Rightarrow> n | _ \<Rightarrow> -1)
      | _ \<Rightarrow> -1)"

section \<open>State\<close>

record nr_dt_inbound =
  in_set :: bool
  in_type :: "string option"
  in_app_id :: "string option"
  in_account_id :: "string option"
  in_transport_type :: "string option"
  in_timestamp :: nrtime_t
  in_guid :: "string option"
  in_txn_id :: "string option"

record nr_distributed_trace =
  dt_account_id :: "string option"
  dt_app_id :: "string option"
  dt_txn_id :: "string option"
  dt_priority :: c_double
  dt_sampled :: bool
  dt_trace_id :: "string option"
  dt_trusted_key :: "string option"
  dt_inbound :: nr_dt_inbound

definition NR_DISTRIBUTED_TRACE_ACCEPT_SUCCESS :: string where
  "NR_DISTRIBUTED_TRACE_ACCEPT_SUCCESS = ''Supportability/DistributedTrace/AcceptPayload/Success''"
definition NR_DISTRIBUTED_TRACE_ACCEPT_EXCEPTION :: string where
  "NR_DISTRIBUTED_TRACE_ACCEPT_EXCEPTION = ''Supportability/DistributedTrace/AcceptPayload/Exception''"
definition NR_DISTRIBUTED_TRACE_ACCEPT_PARSE_EXCEPTION :: string where
  "NR_DISTRIBUTED_TRACE_ACCEPT_PARSE_EXCEPTION = ''Supportability/DistributedTrace/AcceptPayload/ParseException''"
definition NR_DISTRIBUTED_TRACE_ACCEPT_CREATE_BEFORE_ACCEPT :: string where
  "NR_DISTRIBUTED_TRACE_ACCEPT_CREATE_BEFORE_ACCEPT =
     ''Supportability/DistributedTrace/AcceptPayload/Ignored/CreateBeforeAccept''"
definition NR_DISTRIBUTED_TRACE_ACCEPT_MULTIPLE :: string where
  "NR_DISTRIBUTED_TRACE_ACCEPT_MULTIPLE = ''Supportability/DistributedTrace/AcceptPayload/Ignored/Multiple''"
definition NR_DISTRIBUTED_TRACE_ACCEPT_MAJOR_VERSION :: string where
  "NR_DISTRIBUTED_TRACE_ACCEPT_MAJOR_VERSION = ''Supportability/DistributedTrace/AcceptPayload/Ignored/MajorVersion''"
definition NR_DISTRIBUTED_TRACE_ACCEPT_NULL :: string where
  "NR_DISTRIBUTED_TRACE_ACCEPT_NULL = ''Supportability/DistributedTrace/AcceptPayload/Ignored/Null''"
definition NR_DISTRIBUTED_TRACE_ACCEPT_UNTRUSTED_ACCOUNT :: string where
  "NR_DISTRIBUTED_TRACE_ACCEPT_UNTRUSTED_ACCOUNT =
     ''Supportability/DistributedTrace/AcceptPayload/Ignored/UntrustedAccount''"
definition NR_DISTRIBUTED_TRACE_CREATE_SUCCESS :: string where
  "NR_DISTRIBUTED_TRACE_CREATE_SUCCESS = ''Supportability/DistributedTrace/CreatePayload/Success''"
definition NR_DISTRIBUTED_TRACE_CREATE_EXCEPTION :: string where
  "NR_DISTRIBUTED_TRACE_CREATE_EXCEPTION = ''Supportability/DistributedTrace/CreatePayload/Exception''"

definition nr_distributed_trace_create :: nr_distributed_trace where
  "nr_distributed_trace_create =
     \<lparr>dt_account_id = None, dt_app_id = None, dt_txn_id = None, dt_priority = Finite 0 0, dt_sampled = False,
      dt_trace_id = None, dt_trusted_key = None,
      dt_inbound = \<lparr>in_set = False, in_type = None, in_app_id = None, in_account_id = None, in_transport_type = None,
        in_timestamp = 0, in_guid = None, in_txn_id = None\<rparr>\<rparr>"

section \<open>Operations\<close>

text \<open>\<open>set_dt_field\<close>: an empty or missing value clears the field.\<close>

definition set_dt_field :: "string option \<Rightarrow> string option" where
  "set_dt_field value = (if nr_strempty value then None else value)"

definition supported_types :: "string list" where
  "supported_types = [''Unknown'', ''HTTP'', ''HTTPS'', ''Kafka'', ''JMS'', ''IronMQ'', ''AMQP'', ''Queue'', ''Other'']"

definition nr_distributed_trace_inbound_set_transport_type ::
  "string option \<Rightarrow> nr_distributed_trace \<Rightarrow> nr_distributed_trace" where
  "nr_distributed_trace_inbound_set_transport_type value dt =
     (let t = (case value of None \<Rightarrow> Some ''Unknown''
               | Some v \<Rightarrow> if v \<in> set supported_types then set_dt_field (Some v) else set_dt_field (Some ''Unknown''))
      in dt\<lparr>dt_inbound := (dt_inbound dt)\<lparr>in_transport_type := t\<rparr>\<rparr>)"

definition nr_distributed_trace_accept_inbound_payload ::
  "nr_distributed_trace \<Rightarrow> nrobj option \<Rightarrow> string option \<Rightarrow> string + nr_distributed_trace" where
  "nr_distributed_trace_accept_inbound_payload dt obj_payload transport_type =
     (if obj_payload = None then Inl NR_DISTRIBUTED_TRACE_ACCEPT_PARSE_EXCEPTION
      else
        let data = nro_get_hash_hash obj_payload ''d'';
            inb = (dt_inbound dt)\<lparr>
              in_type := set_dt_field (nro_get_hash_string data ''ty''),
              in_account_id := set_dt_field (nro_get_hash_string data ''ac''),
              in_app_id := set_dt_field (nro_get_hash_string data ''ap''),
              in_guid := set_dt_field (nro_get_hash_string data ''id''),
              in_txn_id := set_dt_field (nro_get_hash_string data ''tx'')\<rparr>;
            dt = dt\<lparr>dt_trace_id := set_dt_field (nro_get_hash_string data ''tr'')\<rparr>;
            dt = (case nro_get_hash_double data ''pr'' of Some p \<Rightarrow> dt\<lparr>dt_priority := p\<rparr> | None \<Rightarrow> dt);
            dt = (case nro_get_hash_boolean data ''sa'' of Some s \<Rightarrow> dt\<lparr>dt_sampled := s\<rparr> | None \<Rightarrow> dt);
            inb = inb\<lparr>in_timestamp := word_of_int (fst (nro_get_hash_long data ''ti'')) * 1000\<rparr>;
            dt = nr_distributed_trace_inbound_set_transport_type transport_type (dt\<lparr>dt_inbound := inb\<rparr>)
        in Inr (dt\<lparr>dt_inbound := (dt_inbound dt)\<lparr>in_set := True\<rparr>\<rparr>))"

definition NR_DISTRIBUTED_TRACE_VERSION_MAJOR :: int where "NR_DISTRIBUTED_TRACE_VERSION_MAJOR = 0"
definition NR_DISTRIBUTED_TRACE_VERSION_MINOR :: int where "NR_DISTRIBUTED_TRACE_VERSION_MINOR = 1"

definition required_data_fields :: "string list" where
  "required_data_fields = [''ty'', ''ac'', ''ap'', ''tr'', ''ti'']"

definition nr_distributed_trace_convert_payload_to_object ::
  "(string \<Rightarrow> nrobj option) \<Rightarrow> string option \<Rightarrow> string + nrobj" where
  "nr_distributed_trace_convert_payload_to_object from_json payload =
     (case payload of None \<Rightarrow> Inl NR_DISTRIBUTED_TRACE_ACCEPT_NULL
      | Some p \<Rightarrow>
          if p = [] then Inl NR_DISTRIBUTED_TRACE_ACCEPT_NULL
          else (case from_json p of
             None \<Rightarrow> Inl NR_DISTRIBUTED_TRACE_ACCEPT_PARSE_EXCEPTION
           | Some obj \<Rightarrow>
               let version = nro_get_hash_array (Some obj) ''v''; data = nro_get_hash_hash (Some obj) ''d''
               in if version = None then Inl NR_DISTRIBUTED_TRACE_ACCEPT_PARSE_EXCEPTION
                  else if nro_get_array_int version 1 > NR_DISTRIBUTED_TRACE_VERSION_MAJOR
                  then Inl NR_DISTRIBUTED_TRACE_ACCEPT_MAJOR_VERSION
                  else if nro_get_hash_string data ''id'' = None \<and> nro_get_hash_string data ''tx'' = None
                  then Inl NR_DISTRIBUTED_TRACE_ACCEPT_PARSE_EXCEPTION
                  else if \<exists>f \<in> set required_data_fields.
                      nro_get_hash_string data f = None \<and> \<not> snd (nro_get_hash_long data f)
                  then Inl NR_DISTRIBUTED_TRACE_ACCEPT_PARSE_EXCEPTION
                  else Inr obj))"

definition nr_distributed_trace_object_get_account_id :: "nrobj \<Rightarrow> string option" where
  "nr_distributed_trace_object_get_account_id object =
     nro_get_hash_string (nro_get_hash_hash (Some object) ''d'') ''ac''"

definition nr_distributed_trace_object_get_trusted_key :: "nrobj \<Rightarrow> string option" where
  "nr_distributed_trace_object_get_trusted_key object =
     nro_get_hash_string (nro_get_hash_hash (Some object) ''d'') ''tk''"

definition nr_distributed_trace_inbound_get_timestamp_delta :: "nr_distributed_trace \<Rightarrow> nrtime_t \<Rightarrow> nrtime_t" where
  "nr_distributed_trace_inbound_get_timestamp_delta dt txn_start =
     nr_time_duration txn_start (in_timestamp (dt_inbound dt))"

definition add_field_if_set :: "string \<Rightarrow> string option \<Rightarrow> nrobj option \<Rightarrow> nrobj option" where
  "add_field_if_set key value obj =
     (case value of None \<Rightarrow> obj | Some v \<Rightarrow> snd (nro_set_hash_string obj (Some key) (Some v)))"

text \<open>
  The object that \<open>nr_distributed_trace_payload_as_text\<close> prints, for a payload created at \<open>timestamp\<close>
  with the given parent id.
\<close>

definition payload_object :: "nr_distributed_trace \<Rightarrow> string option \<Rightarrow> nrtime_t \<Rightarrow> nrobj option" where
  "payload_object metadata parent_id timestamp =
     (if parent_id = None \<and> dt_txn_id metadata = None then None
      else
        let version = snd (nro_set_array (Some nro_new_array) 0 (Some (nro_new_int NR_DISTRIBUTED_TRACE_VERSION_MAJOR)));
            version = snd (nro_set_array version 0 (Some (nro_new_int NR_DISTRIBUTED_TRACE_VERSION_MINOR)));
            obj = snd (nro_set_hash (Some nro_new_hash) (Some ''v'') version);
            data = snd (nro_set_hash_string (Some nro_new_hash) (Some ''ty'') (Some ''App''));
            data = add_field_if_set ''ac'' (dt_account_id metadata) data;
            data = add_field_if_set ''ap'' (dt_app_id metadata) data;
            data = add_field_if_set ''id'' parent_id data;
            data = add_field_if_set ''tr'' (dt_trace_id metadata) data;
            data = add_field_if_set ''tx'' (dt_txn_id metadata) data;
            data = snd (nro_set_hash_double data (Some ''pr'') (dt_priority metadata));
            data = snd (nro_set_hash data (Some ''sa'') (Some (nro_new_boolean (if dt_sampled metadata then 1 else 0))));
            data = snd (nro_set_hash_long data (Some ''ti'') (uint (timestamp div 1000)));
            data = (if dt_trusted_key metadata \<noteq> dt_account_id metadata
                    then add_field_if_set ''tk'' (dt_trusted_key metadata) data else data)
        in snd (nro_set_hash obj (Some ''d'') data))"

definition nr_distributed_trace_payload_as_text ::
  "(nrobj \<Rightarrow> string) \<Rightarrow> nr_distributed_trace \<Rightarrow> string option \<Rightarrow> nrtime_t \<Rightarrow> string option" where
  "nr_distributed_trace_payload_as_text to_json metadata parent_id timestamp =
     map_option to_json (payload_object metadata parent_id timestamp)"

section \<open>Lemmas\<close>

lemma setvalue_new:
  "k \<noteq> [] \<Longrightarrow> k \<notin> fst ` set kvs \<Longrightarrow>
    nro_internal_setvalue_hash (Some (NR_OBJECT_HASH kvs)) (Some k) (Some v) = (NR_SUCCESS, Some (NR_OBJECT_HASH (kvs @ [(k, v)])))"
  using find_key_None [of kvs k 0] by (simp add: nro_internal_setvalue_hash_def)

lemmas hash_ops = nro_set_hash_def nro_set_hash_string_def nro_set_hash_double_def nro_set_hash_long_def
  nro_new_hash_def nro_new_string_def nro_new_double_def nro_new_long_def nro_new_boolean_def nr_strdup_def
  add_field_if_set_def

lemmas hash_gets = nro_get_hash_string_def nro_get_hash_long_def nro_get_hash_double_def nro_get_hash_boolean_def
  nro_get_hash_hash_def nro_get_hash_array_def get_hash_map_of

definition opt_field :: "string \<Rightarrow> string option \<Rightarrow> (string \<times> nrobj) list" where
  "opt_field k v = (case v of None \<Rightarrow> [] | Some s \<Rightarrow> [(k, NR_OBJECT_STRING s)])"

lemma add_field_opt:
  "k \<noteq> [] \<Longrightarrow> k \<notin> fst ` set kvs \<Longrightarrow>
    add_field_if_set k v (Some (NR_OBJECT_HASH kvs)) = Some (NR_OBJECT_HASH (kvs @ opt_field k v))"
  by (cases v) (simp_all add: hash_ops opt_field_def setvalue_new)

lemma fst_opt_field: "fst ` set (opt_field k v) \<subseteq> {k}"
  by (cases v) (simp_all add: opt_field_def)

text \<open>The payload as an association list.\<close>

definition payload_data :: "nr_distributed_trace \<Rightarrow> string option \<Rightarrow> nrtime_t \<Rightarrow> (string \<times> nrobj) list" where
  "payload_data m parent_id ts =
     [(''ty'', NR_OBJECT_STRING ''App'')] @ opt_field ''ac'' (dt_account_id m) @ opt_field ''ap'' (dt_app_id m) @
     opt_field ''id'' parent_id @ opt_field ''tr'' (dt_trace_id m) @ opt_field ''tx'' (dt_txn_id m) @
     [(''pr'', NR_OBJECT_DOUBLE (dt_priority m)), (''sa'', NR_OBJECT_BOOLEAN (dt_sampled m)),
      (''ti'', NR_OBJECT_LONG (uint (ts div 1000)))] @
     (if dt_trusted_key m \<noteq> dt_account_id m then opt_field ''tk'' (dt_trusted_key m) else [])"

lemma opt_field_keys: "k \<noteq> k' \<Longrightarrow> k \<notin> fst ` set (opt_field k' v)"
  using fst_opt_field [of k' v] by blast

lemma payload_object_data:
  assumes "parent_id \<noteq> None \<or> dt_txn_id m \<noteq> None"
  shows "payload_object m parent_id ts = Some (NR_OBJECT_HASH [(''v'', NR_OBJECT_ARRAY [NR_OBJECT_INT 0, NR_OBJECT_INT 1]),
    (''d'', NR_OBJECT_HASH (payload_data m parent_id ts))])"
proof -
  have v: "snd (nro_set_array (snd (nro_set_array (Some nro_new_array) 0 (Some (nro_new_int NR_DISTRIBUTED_TRACE_VERSION_MAJOR)))) 0
      (Some (nro_new_int NR_DISTRIBUTED_TRACE_VERSION_MINOR))) = Some (NR_OBJECT_ARRAY [NR_OBJECT_INT 0, NR_OBJECT_INT 1])"
    by (simp add: nro_set_array_def nro_internal_setvalue_array_def nro_new_array_def nro_new_int_def
        NR_DISTRIBUTED_TRACE_VERSION_MAJOR_def NR_DISTRIBUTED_TRACE_VERSION_MINOR_def)
  have add: "add_field_if_set k w (Some (NR_OBJECT_HASH kvs)) = Some (NR_OBJECT_HASH (kvs @ opt_field k w))"
    if "k \<noteq> []" "k \<notin> fst ` set kvs" for k w kvs using that by (rule add_field_opt)
  show ?thesis
    using assms
    by (simp add: payload_object_def v Let_def add opt_field_keys setvalue_new nro_set_hash_def nro_set_hash_string_def
        nro_set_hash_double_def nro_set_hash_long_def nro_new_hash_def nro_new_string_def nro_new_double_def
        nro_new_long_def nro_new_boolean_def nr_strdup_def image_Un payload_data_def)
qed

lemma map_of_opt_field [simp]:
  "map_of (opt_field k v) k' = (if k' = k then map_option NR_OBJECT_STRING v else None)"
  by (cases v) (auto simp: opt_field_def)

lemma payload_data_fields:
  fixes m :: nr_distributed_trace and parent_id :: "string option" and ts :: nrtime_t
  defines "data \<equiv> Some (NR_OBJECT_HASH (payload_data m parent_id ts))"
  shows "nro_get_hash_string data ''ty'' = Some ''App''" "nro_get_hash_string data ''ac'' = dt_account_id m"
    "nro_get_hash_string data ''ap'' = dt_app_id m" "nro_get_hash_string data ''id'' = parent_id"
    "nro_get_hash_string data ''tr'' = dt_trace_id m" "nro_get_hash_string data ''tx'' = dt_txn_id m"
    "nro_get_hash_double data ''pr'' = Some (dt_priority m)" "nro_get_hash_boolean data ''sa'' = Some (dt_sampled m)"
    "nro_get_hash_long data ''ti'' = (uint (ts div 1000), True)"
    "nro_get_hash_string data ''tk'' = (if dt_trusted_key m = dt_account_id m then None else dt_trusted_key m)"
  by (auto simp: data_def hash_gets payload_data_def map_add_def split: option.splits)

section \<open>What a payload becomes on its way\<close>

text \<open>
  The object that parsing a printed object gives, as \<open>parse_number\<close> of util_object.c reads numbers: a long
  that fits an int comes back as an int, and a double as the number \<open>rd\<close> that its printed digits mean.
\<close>

fun json_value :: "(c_double \<Rightarrow> c_double) \<Rightarrow> nrobj \<Rightarrow> nrobj" where
  "json_value rd (NR_OBJECT_LONG n) = (if - (2 ^ 31) < n \<and> n < 2 ^ 31 - 1 then NR_OBJECT_INT n else NR_OBJECT_LONG n)"
| "json_value rd (NR_OBJECT_DOUBLE d) = NR_OBJECT_DOUBLE (rd d)"
| "json_value rd (NR_OBJECT_HASH kvs) = NR_OBJECT_HASH (map (\<lambda>(k, v). (k, json_value rd v)) kvs)"
| "json_value rd (NR_OBJECT_ARRAY vs) = NR_OBJECT_ARRAY (map (json_value rd) vs)"
| "json_value rd v = v"

lemma map_opt_field: "map (\<lambda>(k, v). (k, json_value rd v)) (opt_field k v) = opt_field k v"
  by (cases v) (simp_all add: opt_field_def)

text \<open>The data of a payload that was printed and parsed: only the priority differs.\<close>

lemma json_payload_data:
  assumes "uint (ts div 1000) \<ge> 2 ^ 31 - 1"
  shows "map (\<lambda>(k, v). (k, json_value rd v)) (payload_data m parent_id ts) =
    payload_data (m\<lparr>dt_priority := rd (dt_priority m)\<rparr>) parent_id ts"
  using assms by (simp add: payload_data_def map_opt_field)

text \<open>
  The receiving side of a payload made from \<open>m\<close>: its checks pass, and the trace state takes over the ids,
  the priority and the sampling decision of the sender and the time of the payload in milliseconds.
\<close>

definition accepted_from ::
  "(c_double \<Rightarrow> c_double) \<Rightarrow> nr_distributed_trace \<Rightarrow> string option \<Rightarrow> nrtime_t \<Rightarrow> string option \<Rightarrow> nr_distributed_trace \<Rightarrow> nr_distributed_trace" where
  "accepted_from rd m parent_id ts transport_type dt =
     dt\<lparr>dt_trace_id := dt_trace_id m, dt_priority := rd (dt_priority m), dt_sampled := dt_sampled m,
       dt_inbound := \<lparr>in_set = True, in_type = Some ''App'', in_app_id = dt_app_id m, in_account_id = dt_account_id m,
         in_transport_type = (case transport_type of None \<Rightarrow> Some ''Unknown''
           | Some v \<Rightarrow> if v \<in> set supported_types then Some v else Some ''Unknown''),
         in_timestamp = ts div 1000 * 1000, in_guid = parent_id, in_txn_id = dt_txn_id m\<rparr>\<rparr>"

definition ids_set :: "nr_distributed_trace \<Rightarrow> bool" where
  "ids_set m \<longleftrightarrow> \<not> nr_strempty (dt_account_id m) \<and> \<not> nr_strempty (dt_app_id m) \<and> \<not> nr_strempty (dt_trace_id m) \<and>
     \<not> nr_strempty (dt_txn_id m)"

lemma set_dt_field_id [simp]: "v \<noteq> Some [] \<Longrightarrow> set_dt_field v = v"
  by (cases v) (auto simp: set_dt_field_def nr_strempty_def)

lemma supported_nonempty: "[] \<notin> set supported_types" by (simp add: supported_types_def)

lemma payload_received:
  assumes ids: "ids_set m" "parent_id \<noteq> Some []" and ts: "uint (ts div 1000) \<ge> 2 ^ 31 - 1"
    and obj: "payload_object m parent_id ts = Some obj" and json: "from_json (to_json obj) = Some (json_value rd obj)"
    and ne: "to_json obj \<noteq> []"
  shows "nr_distributed_trace_convert_payload_to_object from_json (Some (to_json obj)) = Inr (json_value rd obj)"
    "nr_distributed_trace_accept_inbound_payload dt (Some (json_value rd obj)) transport_type =
      Inr (accepted_from rd m parent_id ts transport_type dt)"
    "nr_distributed_trace_object_get_account_id (json_value rd obj) = dt_account_id m"
    "nr_distributed_trace_object_get_trusted_key (json_value rd obj) =
      (if dt_trusted_key m = dt_account_id m then None else dt_trusted_key m)"
proof -
  let ?m = "m\<lparr>dt_priority := rd (dt_priority m)\<rparr>"
  have some: "dt_account_id m \<noteq> None" "dt_app_id m \<noteq> None" "dt_trace_id m \<noteq> None" "dt_txn_id m \<noteq> None"
    "dt_account_id m \<noteq> Some []" "dt_app_id m \<noteq> Some []" "dt_trace_id m \<noteq> Some []" "dt_txn_id m \<noteq> Some []"
    using ids(1) by (auto simp: ids_set_def nr_strempty_def split: option.splits)
  have o: "json_value rd obj = NR_OBJECT_HASH [(''v'', NR_OBJECT_ARRAY [NR_OBJECT_INT 0, NR_OBJECT_INT 1]),
      (''d'', NR_OBJECT_HASH (payload_data ?m parent_id ts))]"
    using obj payload_object_data [of parent_id m ts] some(4) json_payload_data [OF ts, of rd m parent_id] by auto
  have d: "nro_get_hash_hash (Some (json_value rd obj)) ''d'' = Some (NR_OBJECT_HASH (payload_data ?m parent_id ts))"
    "nro_get_hash_array (Some (json_value rd obj)) ''v'' = Some (NR_OBJECT_ARRAY [NR_OBJECT_INT 0, NR_OBJECT_INT 1])"
    unfolding o by (simp_all add: hash_gets)
  note f = payload_data_fields [of ?m parent_id ts]
  show "nr_distributed_trace_convert_payload_to_object from_json (Some (to_json obj)) = Inr (json_value rd obj)"
    using ne json some
    by (simp add: nr_distributed_trace_convert_payload_to_object_def Let_def d f required_data_fields_def
        nro_get_array_int_def NR_DISTRIBUTED_TRACE_VERSION_MAJOR_def)
  have tt: "(case transport_type of None \<Rightarrow> Some ''Unknown''
      | Some v \<Rightarrow> if v \<in> set supported_types then set_dt_field (Some v) else set_dt_field (Some ''Unknown'')) =
    (case transport_type of None \<Rightarrow> Some ''Unknown'' | Some v \<Rightarrow> if v \<in> set supported_types then Some v else Some ''Unknown'')"
    using supported_nonempty by (cases transport_type) (auto simp: set_dt_field_def nr_strempty_def)
  have fields: "set_dt_field (dt_account_id m) = dt_account_id m" "set_dt_field (dt_app_id m) = dt_app_id m"
    "set_dt_field (dt_trace_id m) = dt_trace_id m" "set_dt_field (dt_txn_id m) = dt_txn_id m" "set_dt_field parent_id = parent_id"
    "set_dt_field (Some ''App'') = Some ''App''"
    using some(5-8) ids(2) by simp_all
  show "nr_distributed_trace_accept_inbound_payload dt (Some (json_value rd obj)) transport_type =
      Inr (accepted_from rd m parent_id ts transport_type dt)"
    unfolding nr_distributed_trace_accept_inbound_payload_def d(1) Let_def f
      nr_distributed_trace_inbound_set_transport_type_def tt
    by (simp add: fields accepted_from_def)
  show "nr_distributed_trace_object_get_account_id (json_value rd obj) = dt_account_id m"
    "nr_distributed_trace_object_get_trusted_key (json_value rd obj) =
      (if dt_trusted_key m = dt_account_id m then None else dt_trusted_key m)"
    using f by (simp_all add: nr_distributed_trace_object_get_account_id_def
        nr_distributed_trace_object_get_trusted_key_def d)
qed

text \<open>
  The transport duration of an accepted payload that was created no later than the receiving transaction
  started, which is the normal order of events, is zero: the code subtracts in the wrong direction, and
  the difference is cut off at zero.
\<close>

lemma timestamp_delta_zero:
  "in_timestamp (dt_inbound dt) \<le> txn_start \<Longrightarrow> nr_distributed_trace_inbound_get_timestamp_delta dt txn_start = 0"
  by (auto simp: nr_distributed_trace_inbound_get_timestamp_delta_def nr_time_duration_def)

end
