(* ===== verification/Vector.thy ===== *)
theory Vector
  imports Sorting
begin

text \<open>
  util_vector.c (growable arrays of pointers) and nr\_reallocarray of util\_memory.c.

  \<open>nr_vector\<close> is the struct \<open>nr_vector_t\<close>.  A cell of \<open>vec_elements\<close> is \<open>None\<close> until
  it is written (memory from calloc or beyond the old end of a realloc), so that a read of
  a cell the code never wrote is visible in the result.  A destructor and its user data are a
  state transformer and its state: calling the destructor updates \<open>vec_dtor_userdata\<close>.
  Sizes are 64-bit words.  The doubling loop of \<open>nr_vector_ensure_impl\<close> can fail to
  stop, so the operations that grow the vector return \<open>None\<close> when the loop does not end
  and \<open>Some (result, vector)\<close> otherwise; \<open>realloc_ok n\<close> says whether the C library can
  provide \<open>n\<close> bytes.
\<close>

section \<open>State\<close>

record ('a, 'u) nr_vector =
  vec_capacity :: size_t
  vec_used :: size_t
  vec_elements :: "'a option list"
  vec_dtor :: "('a option \<Rightarrow> 'u \<Rightarrow> 'u) option"
  vec_dtor_userdata :: 'u

type_synonym alloc = "size_t \<Rightarrow> bool"

section \<open>Operations\<close>

text \<open>
  \<open>nr_reallocarray\<close>, the branch compiled where the C library has no \<open>reallocarray\<close> of its own
  (the other branch calls that function, which has the same contract).  \<open>ptr\<close> is the array, which
  is never NULL here; a zero size frees it and returns NULL, which the callers take for a failure.
\<close>

definition nr_reallocarray :: "alloc \<Rightarrow> 'a option list \<Rightarrow> size_t \<Rightarrow> size_t \<Rightarrow> 'a option list option" where
  "nr_reallocarray realloc_ok ptr nmemb elsize =
     (if (nmemb \<ge> 2 ^ 32 \<or> elsize \<ge> 2 ^ 32) \<and> nmemb > 0 \<and> (- 1) div nmemb < elsize then None
      else if elsize = 0 \<or> nmemb = 0 then None
      else if realloc_ok (elsize * nmemb)
      then Some (take (unat nmemb) ptr @ replicate (unat nmemb - length ptr) None)
      else None)"

definition nr_vector_init_impl :: "size_t \<Rightarrow> ('a option \<Rightarrow> 'u \<Rightarrow> 'u) option \<Rightarrow> 'u \<Rightarrow> ('a, 'u) nr_vector" where
  "nr_vector_init_impl initial d ud =
     (let cap = (if initial \<noteq> 0 then initial else 8)
      in \<lparr>vec_capacity = cap, vec_used = 0, vec_elements = replicate (unat cap) None,
          vec_dtor = d, vec_dtor_userdata = ud\<rparr>)"

definition nr_vector_create :: "size_t \<Rightarrow> ('a option \<Rightarrow> 'u \<Rightarrow> 'u) option \<Rightarrow> 'u \<Rightarrow> ('a, 'u) nr_vector" where
  "nr_vector_create initial d ud = nr_vector_init_impl initial d ud"

definition nr_vector_init ::
  "('a, 'u) nr_vector option \<Rightarrow> size_t \<Rightarrow> ('a option \<Rightarrow> 'u \<Rightarrow> 'u) option \<Rightarrow> 'u \<Rightarrow> bool \<times> ('a, 'u) nr_vector option" where
  "nr_vector_init v initial d ud =
     (case v of None \<Rightarrow> (False, None)
      | Some _ \<Rightarrow> (True, Some (nr_vector_init_impl initial d ud)))"

text \<open>
  The destructor loop of \<open>nr_vector_deinit_impl\<close>: the destructor is called on every used cell, in
  order, whatever the cell holds.
\<close>

fun destroy_cells :: "('a option \<Rightarrow> 'u \<Rightarrow> 'u) \<Rightarrow> 'a option list \<Rightarrow> 'u \<Rightarrow> 'u" where
  "destroy_cells d [] u = u"
| "destroy_cells d (c # cs) u = destroy_cells d cs (d c u)"

definition nr_vector_deinit_impl :: "('a, 'u) nr_vector \<Rightarrow> ('a, 'u) nr_vector" where
  "nr_vector_deinit_impl v =
     (let u = (case vec_dtor v of None \<Rightarrow> vec_dtor_userdata v
               | Some d \<Rightarrow> destroy_cells d (take (unat (vec_used v)) (vec_elements v)) (vec_dtor_userdata v))
      in v\<lparr>vec_capacity := 0, vec_used := 0, vec_elements := [], vec_dtor_userdata := u\<rparr>)"

definition nr_vector_deinit :: "('a, 'u) nr_vector option \<Rightarrow> bool \<times> ('a, 'u) nr_vector option" where
  "nr_vector_deinit v =
     (case v of None \<Rightarrow> (False, None) | Some v \<Rightarrow> (True, Some (nr_vector_deinit_impl v)))"

text \<open>
  \<open>nr_vector_destroy\<close>: the outer option is the \<open>nr_vector_t**\<close> argument, the inner one the
  pointer it holds, NULL afterwards; the last result is what the destructors left in the user
  data.
\<close>

definition nr_vector_destroy ::
  "('a, 'u) nr_vector option option \<Rightarrow> bool \<times> ('a, 'u) nr_vector option option \<times> 'u option" where
  "nr_vector_destroy v_ptr =
     (case v_ptr of None \<Rightarrow> (False, None, None)
      | Some None \<Rightarrow> (False, Some None, None)
      | Some (Some v) \<Rightarrow> (True, Some None, Some (vec_dtor_userdata (nr_vector_deinit_impl v))))"

text \<open>\<open>for (new_capacity = ...; new_capacity < capacity; new_capacity *= 2);\<close>\<close>

partial_function (option) grow_capacity :: "size_t \<Rightarrow> size_t \<Rightarrow> size_t option" where
  "grow_capacity new_capacity cap =
     (if new_capacity < cap then grow_capacity (new_capacity * 2) cap else Some new_capacity)"

definition nr_vector_ensure_impl :: "alloc \<Rightarrow> ('a, 'u) nr_vector \<Rightarrow> size_t \<Rightarrow> (bool \<times> ('a, 'u) nr_vector) option" where
  "nr_vector_ensure_impl realloc_ok v cap =
     (if vec_capacity v \<ge> cap then Some (True, v)
      else case grow_capacity (if vec_capacity v \<noteq> 0 then vec_capacity v else 8) cap of
        None \<Rightarrow> None
      | Some new_capacity \<Rightarrow>
          (case nr_reallocarray realloc_ok (vec_elements v) new_capacity 8 of
             None \<Rightarrow> Some (False, v)
           | Some es \<Rightarrow> Some (True, v\<lparr>vec_capacity := new_capacity, vec_elements := es\<rparr>)))"

definition nr_vector_ensure ::
  "alloc \<Rightarrow> ('a, 'u) nr_vector option \<Rightarrow> size_t \<Rightarrow> (bool \<times> ('a, 'u) nr_vector option) option" where
  "nr_vector_ensure realloc_ok v cap =
     (case v of None \<Rightarrow> Some (False, None)
      | Some w \<Rightarrow> if cap = 0 then Some (False, v)
                   else map_option (map_prod id Some) (nr_vector_ensure_impl realloc_ok w cap))"

definition nr_vector_shrink_if_necessary_impl :: "alloc \<Rightarrow> ('a, 'u) nr_vector \<Rightarrow> bool \<times> ('a, 'u) nr_vector" where
  "nr_vector_shrink_if_necessary_impl realloc_ok v =
     (if vec_used v < 4 \<or> vec_used v \<ge> vec_capacity v div 2 then (True, v)
      else let new_capacity = vec_capacity v div 2
           in case nr_reallocarray realloc_ok (vec_elements v) new_capacity 8 of
                None \<Rightarrow> (False, v)
              | Some es \<Rightarrow> (True, v\<lparr>vec_capacity := new_capacity, vec_elements := es\<rparr>))"

definition nr_vector_shrink_if_necessary :: "alloc \<Rightarrow> ('a, 'u) nr_vector \<Rightarrow> bool \<times> ('a, 'u) nr_vector" where
  "nr_vector_shrink_if_necessary realloc_ok v = nr_vector_shrink_if_necessary_impl realloc_ok v"

text \<open>
  \<open>nr_memmove(&e[dst], &e[src], n)\<close> within one array: the source range is read before the
  destination is written.
\<close>

definition memmove_cells :: "'a list \<Rightarrow> nat \<Rightarrow> nat \<Rightarrow> nat \<Rightarrow> 'a list" where
  "memmove_cells es dst src n =
     take dst es @ take n (drop src es) @ drop (dst + n) es"

definition nr_vector_insert_impl ::
  "alloc \<Rightarrow> ('a, 'u) nr_vector \<Rightarrow> size_t \<Rightarrow> 'a \<Rightarrow> (bool \<times> ('a, 'u) nr_vector) option" where
  "nr_vector_insert_impl realloc_ok v pos element =
     (case nr_vector_ensure_impl realloc_ok v (vec_used v + 1) of
        None \<Rightarrow> None
      | Some (False, v) \<Rightarrow> Some (False, v)
      | Some (True, v) \<Rightarrow>
          let (es, pos) =
            (if pos < vec_used v
             then (memmove_cells (vec_elements v) (unat (pos + 1)) (unat pos) (unat (vec_used v - pos)), pos)
             else (vec_elements v, vec_used v))
          in Some (True, v\<lparr>vec_elements := es[unat pos := Some element], vec_used := vec_used v + 1\<rparr>))"

definition nr_vector_remove_impl ::
  "alloc \<Rightarrow> ('a, 'u) nr_vector \<Rightarrow> size_t \<Rightarrow> bool \<times> 'a option \<times> ('a, 'u) nr_vector" where
  "nr_vector_remove_impl realloc_ok v pos =
     (if pos \<ge> vec_used v then (False, None, v)
      else let element = vec_elements v ! unat pos;
               es = (if pos < vec_used v - 1
                     then memmove_cells (vec_elements v) (unat pos) (unat (pos + 1)) (unat (vec_used v - pos - 1))
                     else vec_elements v);
               v' = v\<lparr>vec_elements := es, vec_used := vec_used v - 1\<rparr>
           in (True, element, snd (nr_vector_shrink_if_necessary_impl realloc_ok v')))"

definition nr_vector_insert ::
  "alloc \<Rightarrow> ('a, 'u) nr_vector option \<Rightarrow> size_t \<Rightarrow> 'a \<Rightarrow> (bool \<times> ('a, 'u) nr_vector option) option" where
  "nr_vector_insert realloc_ok v pos element =
     (case v of None \<Rightarrow> Some (False, None)
      | Some w \<Rightarrow> map_option (map_prod id Some) (nr_vector_insert_impl realloc_ok w pos element))"

definition nr_vector_push_front ::
  "alloc \<Rightarrow> ('a, 'u) nr_vector option \<Rightarrow> 'a \<Rightarrow> (bool \<times> ('a, 'u) nr_vector option) option" where
  "nr_vector_push_front realloc_ok v element = nr_vector_insert realloc_ok v 0 element"

definition nr_vector_push_back ::
  "alloc \<Rightarrow> ('a, 'u) nr_vector option \<Rightarrow> 'a \<Rightarrow> (bool \<times> ('a, 'u) nr_vector option) option" where
  "nr_vector_push_back realloc_ok v element =
     (case v of None \<Rightarrow> Some (False, None)
      | Some w \<Rightarrow> map_option (map_prod id Some) (nr_vector_insert_impl realloc_ok w (vec_used w) element))"

text \<open>
  The removing and reading operations write through an \<open>element_ptr\<close> that may be NULL:
  \<open>want\<close> is \<open>element_ptr \<noteq> NULL\<close>, and the element written is the middle result.
\<close>

definition nr_vector_remove ::
  "alloc \<Rightarrow> ('a, 'u) nr_vector option \<Rightarrow> size_t \<Rightarrow> bool \<Rightarrow> bool \<times> 'a option \<times> ('a, 'u) nr_vector option" where
  "nr_vector_remove realloc_ok v pos want =
     (case v of None \<Rightarrow> (False, None, None)
      | Some w \<Rightarrow> if \<not> want then (False, None, v)
                   else map_prod id (map_prod id Some) (nr_vector_remove_impl realloc_ok w pos))"

definition nr_vector_pop_front ::
  "alloc \<Rightarrow> ('a, 'u) nr_vector option \<Rightarrow> bool \<Rightarrow> bool \<times> 'a option \<times> ('a, 'u) nr_vector option" where
  "nr_vector_pop_front realloc_ok v want = nr_vector_remove realloc_ok v 0 want"

definition nr_vector_pop_back ::
  "alloc \<Rightarrow> ('a, 'u) nr_vector option \<Rightarrow> bool \<Rightarrow> bool \<times> 'a option \<times> ('a, 'u) nr_vector option" where
  "nr_vector_pop_back realloc_ok v want =
     (case v of None \<Rightarrow> (False, None, None)
      | Some w \<Rightarrow> if \<not> want \<or> vec_used w = 0 then (False, None, v)
                   else map_prod id (map_prod id Some) (nr_vector_remove_impl realloc_ok w (vec_used w - 1)))"

definition nr_vector_capacity :: "('a, 'u) nr_vector option \<Rightarrow> size_t" where
  "nr_vector_capacity v = (case v of None \<Rightarrow> 0 | Some w \<Rightarrow> vec_capacity w)"

definition nr_vector_size :: "('a, 'u) nr_vector option \<Rightarrow> size_t" where
  "nr_vector_size v = (case v of None \<Rightarrow> 0 | Some w \<Rightarrow> vec_used w)"

definition nr_vector_get :: "('a, 'u) nr_vector option \<Rightarrow> size_t \<Rightarrow> 'a option" where
  "nr_vector_get v pos =
     (case v of None \<Rightarrow> None
      | Some w \<Rightarrow> if pos \<ge> vec_used w then None else vec_elements w ! unat pos)"

definition nr_vector_get_element :: "('a, 'u) nr_vector option \<Rightarrow> size_t \<Rightarrow> bool \<Rightarrow> bool \<times> 'a option" where
  "nr_vector_get_element v pos want =
     (case v of None \<Rightarrow> (False, None)
      | Some w \<Rightarrow> if \<not> want \<or> pos \<ge> vec_used w then (False, None)
                   else (True, vec_elements w ! unat pos))"

definition nr_vector_replace ::
  "('a, 'u) nr_vector option \<Rightarrow> size_t \<Rightarrow> 'a \<Rightarrow> bool \<times> ('a, 'u) nr_vector option" where
  "nr_vector_replace v pos element =
     (case v of None \<Rightarrow> (False, None)
      | Some w \<Rightarrow> if pos \<ge> vec_used w then (False, v)
                   else let u = (case vec_dtor w of None \<Rightarrow> vec_dtor_userdata w
                                 | Some d \<Rightarrow> destroy_cells d [vec_elements w ! unat pos] (vec_dtor_userdata w))
                        in (True, Some (w\<lparr>vec_elements := (vec_elements w)[unat pos := Some element],
                                           vec_dtor_userdata := u\<rparr>)))"

text \<open>
  \<open>nr_vector_sort\<close>: the wrapper \<open>nr_vector_sort_callback_wrapper\<close> gets pointers to two cells; it
  gives 0 for a NULL pointer and otherwise calls the comparator on what the cells hold, with its
  user data.  The array sorted is the used part, and \<open>nr_sort\<close> passes pointers into it.
\<close>

definition nr_vector_sort_callback_wrapper ::
  "('a option \<Rightarrow> 'a option \<Rightarrow> 'c \<Rightarrow> int) \<Rightarrow> 'c \<Rightarrow> 'a option option \<Rightarrow> 'a option option \<Rightarrow> int" where
  "nr_vector_sort_callback_wrapper comparator userdata a b =
     (case (a, b) of (Some x, Some y) \<Rightarrow> comparator x y userdata | _ \<Rightarrow> 0)"

definition nr_vector_sort ::
  "('a, 'u) nr_vector option \<Rightarrow> ('a option \<Rightarrow> 'a option \<Rightarrow> 'c \<Rightarrow> int) option \<Rightarrow> 'c \<Rightarrow> bool \<times> ('a, 'u) nr_vector option" where
  "nr_vector_sort v comparator userdata =
     (case (v, comparator) of
        (Some w, Some c) \<Rightarrow>
          (let n = unat (vec_used w) in
           (True, Some (w\<lparr>vec_elements :=
              the (nr_sort (Some (take n (vec_elements w)))
                     (Some (\<lambda>a b. nr_vector_sort_callback_wrapper c userdata (Some a) (Some b)))) @
              drop n (vec_elements w)\<rparr>)))
      | _ \<Rightarrow> (False, v))"

text \<open>The loop of \<open>nr_vector_iterate\<close>: the callback may update its user data and stops the walk by returning false.\<close>

fun iterate_cells :: "('a option \<Rightarrow> 's \<Rightarrow> bool \<times> 's) \<Rightarrow> 'a option list \<Rightarrow> 's \<Rightarrow> bool \<times> 's" where
  "iterate_cells callback [] s = (True, s)"
| "iterate_cells callback (c # cs) s =
     (case callback c s of (False, s') \<Rightarrow> (False, s') | (True, s') \<Rightarrow> iterate_cells callback cs s')"

definition nr_vector_iterate ::
  "('a, 'u) nr_vector option \<Rightarrow> ('a option \<Rightarrow> 's \<Rightarrow> bool \<times> 's) option \<Rightarrow> 's \<Rightarrow> bool \<times> 's" where
  "nr_vector_iterate v callback userdata =
     (case (v, callback) of
        (Some w, Some f) \<Rightarrow> iterate_cells f (take (unat (vec_used w)) (vec_elements w)) userdata
      | _ \<Rightarrow> (False, userdata))"

text \<open>
  The two search loops.  The index moves by \<open>delta\<close>, which is 1 or, for a backward search, the
  \<open>size_t\<close> value of -1, so a backward search ends when the index wraps around below 0.
  \<open>None\<close>: the loop does not end; \<open>Some None\<close>: false; \<open>Some (Some i)\<close>: true, with \<open>i\<close> stored.
\<close>

partial_function (option) nr_vector_find_comparator ::
  "('a, 'u) nr_vector \<Rightarrow> size_t \<Rightarrow> size_t \<Rightarrow> 'b \<Rightarrow> ('a option \<Rightarrow> 'b \<Rightarrow> 'c \<Rightarrow> int) \<Rightarrow> 'c \<Rightarrow> size_t option option" where
  "nr_vector_find_comparator v i delta needle comparator userdata =
     (if i < vec_used v
      then if comparator (vec_elements v ! unat i) needle userdata = 0 then Some (Some i)
           else nr_vector_find_comparator v (i + delta) delta needle comparator userdata
      else Some None)"

partial_function (option) nr_vector_find_direct ::
  "('a, 'u) nr_vector \<Rightarrow> size_t \<Rightarrow> size_t \<Rightarrow> 'a option \<Rightarrow> size_t option option" where
  "nr_vector_find_direct v i delta needle =
     (if i < vec_used v
      then if vec_elements v ! unat i = needle then Some (Some i)
           else nr_vector_find_direct v (i + delta) delta needle
      else Some None)"

definition nr_vector_find ::
  "('a, 'u) nr_vector \<Rightarrow> size_t \<Rightarrow> bool \<Rightarrow> 'a option \<Rightarrow> ('a option \<Rightarrow> 'a option \<Rightarrow> 'c \<Rightarrow> int) option \<Rightarrow> 'c \<Rightarrow>
   size_t option option" where
  "nr_vector_find v start forward needle comparator userdata =
     (let delta = (if forward then 1 else - 1) in
      if start \<ge> vec_used v then Some None
      else case comparator of
             Some c \<Rightarrow> nr_vector_find_comparator v start delta needle c userdata
           | None \<Rightarrow> nr_vector_find_direct v start delta needle)"

definition nr_vector_find_first ::
  "('a, 'u) nr_vector option \<Rightarrow> 'a option \<Rightarrow> ('a option \<Rightarrow> 'a option \<Rightarrow> 'c \<Rightarrow> int) option \<Rightarrow> 'c \<Rightarrow>
   size_t option option" where
  "nr_vector_find_first v needle comparator userdata =
     (case v of None \<Rightarrow> Some None
      | Some w \<Rightarrow> if vec_used w = 0 then Some None
                   else nr_vector_find w 0 True needle comparator userdata)"

definition nr_vector_find_last ::
  "('a, 'u) nr_vector option \<Rightarrow> 'a option \<Rightarrow> ('a option \<Rightarrow> 'a option \<Rightarrow> 'c \<Rightarrow> int) option \<Rightarrow> 'c \<Rightarrow>
   size_t option option" where
  "nr_vector_find_last v needle comparator userdata =
     (case v of None \<Rightarrow> Some None
      | Some w \<Rightarrow> if vec_used w = 0 then Some None
                   else nr_vector_find w (vec_used w - 1) False needle comparator userdata)"

section \<open>Abstraction and invariant\<close>

text \<open>
  \<open>vec_rel v xs\<close>: the vector \<open>v\<close> is well formed and holds the list \<open>xs\<close>.  The array is as long
  as the capacity says, its size in bytes fits a \<open>size_t\<close>, and the used cells are the elements.
\<close>

definition vec_rel :: "('a, 'u) nr_vector \<Rightarrow> 'a list \<Rightarrow> bool" where
  "vec_rel v xs \<longleftrightarrow>
     length xs = unat (vec_used v) \<and> length (vec_elements v) = unat (vec_capacity v) \<and>
     unat (vec_capacity v) < 2 ^ 61 \<and> (\<exists>rest. vec_elements v = map Some xs @ rest)"

definition vec_list :: "('a, 'u) nr_vector \<Rightarrow> 'a list" where
  "vec_list v = map the (take (unat (vec_used v)) (vec_elements v))"

definition vec_invar :: "('a, 'u) nr_vector \<Rightarrow> bool" where
  "vec_invar v \<longleftrightarrow> vec_rel v (vec_list v)"

lemma vec_relE:
  assumes "vec_rel v xs"
  obtains rest where "vec_elements v = map Some xs @ rest" "length xs = unat (vec_used v)"
    "length xs + length rest = unat (vec_capacity v)" "unat (vec_capacity v) < 2 ^ 61"
  using assms unfolding vec_rel_def by (metis length_append length_map)

lemma vec_rel_list: "vec_rel v xs \<Longrightarrow> vec_list v = xs"
  by (erule vec_relE) (simp add: vec_list_def)

lemma vec_rel_invar: "vec_rel v xs \<Longrightarrow> vec_invar v"
  by (simp add: vec_invar_def vec_rel_list)

lemma vec_invar_rel: "vec_invar v \<Longrightarrow> vec_rel v (vec_list v)"
  by (simp add: vec_invar_def)

lemma vec_rel_iff: "vec_rel v xs \<longleftrightarrow> vec_invar v \<and> vec_list v = xs"
  using vec_rel_list vec_rel_invar vec_invar_rel by blast

text \<open>A small vector with the given elements and capacity 8, for examples.\<close>

definition vec_of :: "'a list \<Rightarrow> ('a, unit) nr_vector" where
  "vec_of xs = \<lparr>vec_capacity = 8, vec_used = of_nat (length xs),
     vec_elements = map Some xs @ replicate (8 - length xs) None, vec_dtor = None, vec_dtor_userdata = ()\<rparr>"

lemma vec_of_rel:
  assumes "length xs \<le> 8"
  shows "vec_invar (vec_of xs)" "vec_list (vec_of xs) = xs"
proof -
  have "unat (of_nat (length xs) :: size_t) = length xs"
    using assms by (simp add: unsigned_of_nat take_bit_nat_eq_self)
  then have "vec_rel (vec_of xs) xs" using assms by (auto simp: vec_rel_def vec_of_def)
  then show "vec_invar (vec_of xs)" "vec_list (vec_of xs) = xs" by (simp_all add: vec_rel_iff)
qed

section \<open>Growing and shrinking\<close>

lemma nr_reallocarray_Some:
  assumes "nr_reallocarray ok ptr n 8 = Some es"
  shows "unat n < 2 ^ 61" "n \<noteq> 0"
    "es = take (unat n) ptr @ replicate (unat n - length ptr) None"
proof -
  show n0: "n \<noteq> 0" and "es = take (unat n) ptr @ replicate (unat n - length ptr) None"
    using assms by (auto simp: nr_reallocarray_def split: if_splits)
  show "unat n < 2 ^ 61"
  proof (cases "n \<ge> 2 ^ 32")
    case False
    then show ?thesis by (simp add: word_le_nat_alt)
  next
    case True
    then have "\<not> (- 1 :: size_t) div n < 8"
      using assms n0 by (auto simp: nr_reallocarray_def word_gt_0 split: if_splits)
    then have "8 \<le> unat (- 1 :: size_t) div unat n"
      by (simp add: word_less_nat_alt unat_div)
    then have "8 * unat n \<le> unat (- 1 :: size_t)"
      by (metis div_le_dividend le_trans less_eq_div_iff_mult_less_eq n0 unat_gt_0)
    then show ?thesis by (simp add: unat_max_u64)
  qed
qed

lemma nr_reallocarray_ok:
  assumes "ok (8 * n)" "n \<noteq> 0" "unat n < 2 ^ 61"
  shows "nr_reallocarray ok ptr n 8 = Some (take (unat n) ptr @ replicate (unat n - length ptr) None)"
proof -
  have "8 * unat n \<le> unat (- 1 :: size_t)"
    using assms(3) by (simp add: unat_max_u64)
  then have "8 \<le> unat (- 1 :: size_t) div unat n"
    using assms(2) by (simp add: less_eq_div_iff_mult_less_eq unat_gt_0)
  then have "\<not> (- 1 :: size_t) div n < 8"
    by (simp add: word_less_nat_alt unat_div)
  then show ?thesis using assms(1,2) by (simp add: nr_reallocarray_def)
qed

lemma grow_capacity_returns:
  assumes "unat cap \<le> 2 ^ 63" "s \<noteq> 0"
  shows "\<exists>y k. grow_capacity s cap = Some y \<and> cap \<le> y \<and> unat y = unat s * 2 ^ k"
  using assms(2)
proof (induction "2 ^ 64 - unat s" arbitrary: s rule: less_induct)
  case less
  show ?case
  proof (cases "s < cap")
    case False
    then show ?thesis
      by (intro exI [of _ s] exI [of _ 0]) (simp add: grow_capacity.simps)
  next
    case True
    then have small: "unat s < 2 ^ 63" using assms(1) by (simp add: word_less_nat_alt)
    have d: "unat (s * 2) = unat s * 2"
      using small by (subst unat_mult_lem [THEN iffD1]) auto
    have pos: "0 < unat s" using less.prems by (simp add: unat_gt_0)
    have "2 ^ 64 - unat (s * 2) < 2 ^ 64 - unat s" "s * 2 \<noteq> 0"
      using small pos d by (auto simp: unat_gt_0 [symmetric] simp del: unat_gt_0)
    from less.hyps [OF this] obtain y k where
      "grow_capacity (s * 2) cap = Some y" "cap \<le> y" "unat y = unat (s * 2) * 2 ^ k"
      by blast
    with True d show ?thesis
      by (intro exI [of _ y] exI [of _ "Suc k"]) (simp add: grow_capacity.simps)
  qed
qed

lemma grow_capacity_multiple:
  assumes "grow_capacity s cap = Some y"
  shows "cap \<le> y \<and> (\<exists>k. y = s * 2 ^ k)"
proof (rule grow_capacity.raw_induct [where P = "\<lambda>s cap y. cap \<le> y \<and> (\<exists>k. y = s * 2 ^ k)", OF _ assms])
  fix f and s cap y :: size_t
  assume IH: "\<And>s cap y. f s cap = Some y \<Longrightarrow> cap \<le> y \<and> (\<exists>k. y = s * 2 ^ k)"
    and eq: "(if s < cap then f (s * 2) cap else Some s) = Some y"
  show "cap \<le> y \<and> (\<exists>k. y = s * 2 ^ k)"
  proof (cases "s < cap")
    case True
    with eq have "f (s * 2) cap = Some y" by simp
    then obtain k where "cap \<le> y" "y = s * 2 * 2 ^ k" using IH by blast
    then show ?thesis by (intro conjI exI [of _ "Suc k"]) (simp_all add: ac_simps)
  next
    case False
    with eq show ?thesis by (auto intro: exI [of _ 0])
  qed
qed

lemma power2_word64_le: "(2 :: 64 word) ^ k \<le> 2 ^ 63"
proof -
  have u: "unat ((2 :: 64 word) ^ n) = 2 ^ n mod 2 ^ 64" for n
    using unsigned_of_nat [where 'a = nat and 'b = 64, of "2 ^ n"] by (simp add: take_bit_nat_def)
  show ?thesis
  proof (cases "k < 64")
    case True
    then have "(2::nat) ^ k \<le> 2 ^ 63" by (intro power_increasing) auto
    then show ?thesis by (simp add: word_le_nat_alt u)
  next
    case False
    then have "(2::nat) ^ 64 dvd 2 ^ k" by (intro le_imp_power_dvd) simp
    then have "(2::nat) ^ k mod 2 ^ 64 = 0" by (rule dvd_imp_mod_0)
    then show ?thesis by (simp add: word_le_nat_alt u)
  qed
qed

text \<open>
  When \<open>nr_vector_ensure_impl\<close> succeeds: the array is already large enough, or the doubled capacity
  fits the address space and the allocator provides its bytes.
\<close>

definition ensure_grants :: "alloc \<Rightarrow> ('a, 'u) nr_vector \<Rightarrow> size_t \<Rightarrow> bool" where
  "ensure_grants ok v cap \<longleftrightarrow>
     cap \<le> vec_capacity v \<or>
     (case grow_capacity (if vec_capacity v \<noteq> 0 then vec_capacity v else 8) cap of
        None \<Rightarrow> False
      | Some n \<Rightarrow> unat n < 2 ^ 61 \<and> ok (8 * n))"

lemma nr_vector_ensure_impl_rel:
  assumes "vec_rel v xs" "unat cap \<le> 2 ^ 63"
  shows "\<exists>b v'. nr_vector_ensure_impl ok v cap = Some (b, v') \<and> vec_rel v' xs \<and>
           vec_used v' = vec_used v \<and> vec_dtor v' = vec_dtor v \<and> vec_dtor_userdata v' = vec_dtor_userdata v \<and>
           (b \<longleftrightarrow> ensure_grants ok v cap) \<and> (if b then cap \<le> vec_capacity v' else v' = v)"
proof (cases "cap \<le> vec_capacity v")
  case True
  with assms(1) show ?thesis
    by (intro exI [of _ True] exI [of _ v]) (simp add: nr_vector_ensure_impl_def ensure_grants_def)
next
  case False
  let ?s = "if vec_capacity v \<noteq> 0 then vec_capacity v else 8"
  have "?s \<noteq> 0" by simp
  from grow_capacity_returns [OF assms(2) this] obtain y k where
    y: "grow_capacity ?s cap = Some y" "cap \<le> y" by blast
  have n0: "y \<noteq> 0" using False y(2) by (auto simp: word_le_nat_alt)
  from False y(2) have le: "unat (vec_capacity v) \<le> unat y"
    by (simp add: word_le_nat_alt)
  show ?thesis
  proof (cases "nr_reallocarray ok (vec_elements v) y 8")
    case None
    then have "\<not> (unat y < 2 ^ 61 \<and> ok (8 * y))" using nr_reallocarray_ok [of ok y "vec_elements v"] n0 by auto
    with None False y assms(1) show ?thesis
      by (intro exI [of _ False] exI [of _ v]) (simp add: nr_vector_ensure_impl_def ensure_grants_def)
  next
    case (Some es)
    note r = nr_reallocarray_Some [OF Some]
    have "vec_rel (v\<lparr>vec_capacity := y, vec_elements := es\<rparr>) xs"
      using assms(1) le r by (auto elim!: vec_relE simp: vec_rel_def)
    moreover have "unat y < 2 ^ 61 \<and> ok (8 * y)"
      using Some r(1) by (auto simp: nr_reallocarray_def split: if_splits)
    ultimately show ?thesis using False y Some
      by (intro exI [of _ True] exI [of _ "v\<lparr>vec_capacity := y, vec_elements := es\<rparr>"])
        (simp add: nr_vector_ensure_impl_def ensure_grants_def)
  qed
qed

text \<open>
  What one more element takes: a free cell, or twice the capacity (8 cells for an array that has
  none).
\<close>

definition has_room :: "alloc \<Rightarrow> ('a, 'u) nr_vector \<Rightarrow> bool" where
  "has_room ok v \<longleftrightarrow>
     vec_used v < vec_capacity v \<or>
     (let n = (if vec_capacity v = 0 then 8 else 2 * vec_capacity v) in unat n < 2 ^ 61 \<and> ok (8 * n))"

lemma ensure_grants_one_more:
  assumes "vec_rel v xs"
  shows "ensure_grants ok v (vec_used v + 1) \<longleftrightarrow> has_room ok v"
proof -
  have le: "vec_used v \<le> vec_capacity v" and c61: "unat (vec_capacity v) < 2 ^ 61"
    using assms by (auto elim!: vec_relE simp: word_le_nat_alt)
  then have "unat (vec_used v) < 2 ^ 61" by (simp add: word_le_nat_alt)
  then have u1: "unat (vec_used v + 1) = Suc (unat (vec_used v))"
    by (intro unat_plus1_lt [of _ "- 1"]) (simp add: word_less_nat_alt unat_max_u64)
  then have iff: "vec_used v + 1 \<le> vec_capacity v \<longleftrightarrow> vec_used v < vec_capacity v"
    by (auto simp: word_le_nat_alt word_less_nat_alt)
  show ?thesis
  proof (cases "vec_used v < vec_capacity v")
    case True
    with iff show ?thesis by (simp add: ensure_grants_def has_room_def)
  next
    case False
    with le have eq: "vec_used v = vec_capacity v" by auto
    have d: "unat (2 * vec_capacity v) = 2 * unat (vec_capacity v)"
      using c61 by (subst unat_mult_lem [THEN iffD1]) auto
    have "grow_capacity (if vec_capacity v \<noteq> 0 then vec_capacity v else 8) (vec_used v + 1) =
          Some (if vec_capacity v = 0 then 8 else 2 * vec_capacity v)"
    proof (cases "vec_capacity v = 0")
      case True
      with eq show ?thesis by (simp add: grow_capacity.simps)
    next
      case nz: False
      then have "0 < unat (vec_capacity v)" by (simp add: unat_gt_0)
      then have "\<not> 2 * vec_capacity v < vec_capacity v + 1" "vec_capacity v < vec_capacity v + 1"
        using u1 eq d by (simp_all add: word_less_nat_alt)
      with nz eq show ?thesis
        by (subst grow_capacity.simps, subst grow_capacity.simps) (simp add: mult.commute)
    qed
    with False iff show ?thesis by (simp add: ensure_grants_def has_room_def Let_def)
  qed
qed

section \<open>Inserting and removing\<close>

lemma memmove_up_insert:
  assumes "p \<le> length xs" "0 < length rest"
  shows "(memmove_cells (map Some xs @ rest) (Suc p) p (length xs - p))[p := Some e] =
         map Some (take p xs @ e # drop p xs) @ tl rest"
proof -
  obtain r rs where r: "rest = r # rs" using assms(2) by (cases rest) auto
  have "take (Suc p) (map Some xs @ rest) = take p (map Some xs @ rest) @ [(map Some xs @ rest) ! p]"
    using assms r by (subst take_Suc_conv_app_nth) auto
  then show ?thesis
    using assms r by (simp add: memmove_cells_def list_update_append take_map drop_map)
qed

lemma memmove_down_remove:
  assumes "p < length xs"
  shows "memmove_cells (map Some xs @ rest) p (Suc p) (length xs - Suc p) =
         map Some (take p xs @ drop (Suc p) xs) @ drop (length xs - 1) (map Some xs) @ rest"
  using assms by (simp add: memmove_cells_def take_map drop_map)

lemma nr_vector_insert_impl_rel:
  assumes "vec_rel v xs"
  shows "\<exists>b v'. nr_vector_insert_impl ok v pos e = Some (b, v') \<and>
           vec_dtor v' = vec_dtor v \<and> vec_dtor_userdata v' = vec_dtor_userdata v \<and>
           (b \<longleftrightarrow> has_room ok v) \<and>
           (if b then vec_rel v' (take (unat pos) xs @ e # drop (unat pos) xs) else v' = v)"
proof -
  have u61: "unat (vec_used v) < 2 ^ 61" using assms by (auto elim!: vec_relE)
  then have u1: "unat (vec_used v + 1) = Suc (unat (vec_used v))"
    by (intro unat_plus1_lt [of _ "- 1"]) (simp add: word_less_nat_alt unat_max_u64)
  with u61 have "unat (vec_used v + 1) \<le> 2 ^ 63" by simp
  from nr_vector_ensure_impl_rel [OF assms this, of ok] obtain b v' where
    ens: "nr_vector_ensure_impl ok v (vec_used v + 1) = Some (b, v')" and rel: "vec_rel v' xs"
    and frame: "vec_used v' = vec_used v" "vec_dtor v' = vec_dtor v" "vec_dtor_userdata v' = vec_dtor_userdata v"
    and room_iff: "b \<longleftrightarrow> has_room ok v"
    and cap: "if b then vec_used v + 1 \<le> vec_capacity v' else v' = v"
    using ensure_grants_one_more [OF assms, of ok] by blast
  show ?thesis
  proof (cases b)
    case False
    with ens cap frame room_iff show ?thesis
      by (intro exI [of _ False] exI [of _ v]) (simp add: nr_vector_insert_impl_def)
  next
    case True
    from rel obtain rest where r: "vec_elements v' = map Some xs @ rest" "length xs = unat (vec_used v')"
      "length xs + length rest = unat (vec_capacity v')" "unat (vec_capacity v') < 2 ^ 61"
      by (auto elim: vec_relE)
    have room: "0 < length rest" using cap True u1 r(2,3) frame(1) by (auto simp: word_le_nat_alt)
    let ?w = "v'\<lparr>vec_elements := map Some (take (unat pos) xs @ e # drop (unat pos) xs) @ tl rest,
                 vec_used := vec_used v' + 1\<rparr>"
    have "nr_vector_insert_impl ok v pos e = Some (True, ?w)"
    proof (cases "pos < vec_used v'")
      case lt: True
      then have p: "unat (pos + 1) = Suc (unat pos)" "unat (vec_used v' - pos) = unat (vec_used v') - unat pos"
        by (auto intro: unat_plus1_lt simp: unat_sub)
      have "(memmove_cells (map Some xs @ rest) (Suc (unat pos)) (unat pos) (length xs - unat pos))[unat pos := Some e]
          = map Some (take (unat pos) xs @ e # drop (unat pos) xs) @ tl rest"
        using lt r(2) room by (intro memmove_up_insert) (auto simp: word_less_nat_alt)
      then show ?thesis using lt True ens p r by (simp add: nr_vector_insert_impl_def)
    next
      case ge: False
      then have "length xs \<le> unat pos" using r(2) by (simp add: word_less_nat_alt)
      moreover obtain x xs' where "rest = x # xs'" using room by (cases rest) auto
      ultimately show ?thesis using ge True ens r by (simp add: nr_vector_insert_impl_def list_update_append)
    qed
    moreover have "vec_rel ?w (take (unat pos) xs @ e # drop (unat pos) xs)"
      using r u1 room frame by (cases rest) (auto simp: vec_rel_def min_def)
    ultimately show ?thesis using True frame room_iff
      by (intro exI [of _ True] exI [of _ ?w]) simp
  qed
qed

lemma nr_vector_shrink_rel:
  assumes "vec_rel v xs"
  shows "vec_rel (snd (nr_vector_shrink_if_necessary_impl ok v)) xs"
proof (cases "vec_used v < 4 \<or> vec_used v \<ge> vec_capacity v div 2")
  case True
  with assms show ?thesis by (simp add: nr_vector_shrink_if_necessary_impl_def)
next
  case False
  then have lt: "unat (vec_used v) < unat (vec_capacity v) div 2"
    by (simp add: not_le word_less_nat_alt unat_div)
  show ?thesis
  proof (cases "nr_reallocarray ok (vec_elements v) (vec_capacity v div 2) 8")
    case None
    with False assms show ?thesis by (simp add: nr_vector_shrink_if_necessary_impl_def Let_def)
  next
    case (Some es)
    note r = nr_reallocarray_Some [OF Some]
    have "vec_rel (v\<lparr>vec_capacity := vec_capacity v div 2, vec_elements := es\<rparr>) xs"
      using assms lt r by (auto elim!: vec_relE simp: vec_rel_def unat_div)
    with False Some show ?thesis by (simp add: nr_vector_shrink_if_necessary_impl_def Let_def)
  qed
qed

lemma nr_vector_remove_impl_rel:
  assumes "vec_rel v xs"
  shows "unat pos < length xs \<Longrightarrow>
           \<exists>v'. nr_vector_remove_impl ok v pos = (True, Some (xs ! unat pos), v') \<and>
                vec_rel v' (take (unat pos) xs @ drop (Suc (unat pos)) xs)"
    and "length xs \<le> unat pos \<Longrightarrow> nr_vector_remove_impl ok v pos = (False, None, v)"
proof -
  from assms obtain rest where r: "vec_elements v = map Some xs @ rest" "length xs = unat (vec_used v)"
    "length xs + length rest = unat (vec_capacity v)" "unat (vec_capacity v) < 2 ^ 61"
    by (auto elim: vec_relE)
  show "nr_vector_remove_impl ok v pos = (False, None, v)" if "length xs \<le> unat pos"
    using that r(2) by (simp add: nr_vector_remove_impl_def word_le_nat_alt)
  assume lt: "unat pos < length xs"
  then have p: "pos < vec_used v" using r(2) by (simp add: word_less_nat_alt)
  then have u1: "unat (vec_used v - 1) = unat (vec_used v) - 1"
    by (intro unat_minus1) auto
  let ?es = "if pos < vec_used v - 1
             then memmove_cells (vec_elements v) (unat pos) (unat (pos + 1)) (unat (vec_used v - pos - 1))
             else vec_elements v"
  let ?w = "v\<lparr>vec_elements := ?es, vec_used := vec_used v - 1\<rparr>"
  let ?ys = "take (unat pos) xs @ drop (Suc (unat pos)) xs"
  have "\<exists>rest'. ?es = map Some ?ys @ rest' \<and> length ?es = length (vec_elements v)"
  proof (cases "pos < vec_used v - 1")
    case True
    have "unat (vec_used v - pos) = unat (vec_used v) - unat pos" using p by (simp add: unat_sub)
    moreover have "vec_used v - pos \<noteq> 0" using p by auto
    ultimately have "unat (pos + 1) = Suc (unat pos)" "unat (vec_used v - pos - 1) = length xs - unat pos - 1"
      using p r(2) by (auto intro: unat_plus1_lt simp: unat_minus1)
    then show ?thesis using True r(1) lt
      by (auto simp: memmove_down_remove)
  next
    case False
    then have "Suc (unat pos) = length xs" using lt u1 r(2) by (simp add: word_less_nat_alt)
    then have "map Some xs @ rest = map Some ?ys @ drop (unat pos) (map Some xs) @ rest"
      by (simp flip: map_append append_assoc add: drop_map take_map)
    then show ?thesis using False r(1)
      by (intro exI [of _ "drop (unat pos) (map Some xs) @ rest"]) simp
  qed
  then obtain rest' where es: "?es = map Some ?ys @ rest'" "length ?es = length (vec_elements v)" by blast
  have "vec_rel ?w ?ys"
    using r lt u1 es by (auto simp: vec_rel_def)
  then have "vec_rel (snd (nr_vector_shrink_if_necessary_impl ok ?w)) ?ys"
    by (rule nr_vector_shrink_rel)
  moreover have "nr_vector_remove_impl ok v pos =
      (True, Some (xs ! unat pos), snd (nr_vector_shrink_if_necessary_impl ok ?w))"
    using p lt r(1) by (simp add: nr_vector_remove_impl_def Let_def nth_append)
  ultimately show "\<exists>v'. nr_vector_remove_impl ok v pos = (True, Some (xs ! unat pos), v') \<and> vec_rel v' ?ys"
    by blast
qed

section \<open>Searching\<close>

lemma nr_vector_find_direct_comparator:
  "nr_vector_find_direct v i delta needle =
   nr_vector_find_comparator v i delta needle (\<lambda>x y _. if x = y then 0 else 1) u"
proof -
  let ?c = "\<lambda>x y _. if x = y then 0 else (1 :: int)"
  have 1: "nr_vector_find_comparator v i delta needle ?c u = Some r"
    if "nr_vector_find_direct v i delta needle = Some r" for r
    by (rule nr_vector_find_direct.raw_induct
          [where P = "\<lambda>v i delta needle r. nr_vector_find_comparator v i delta needle ?c u = Some r", OF _ that])
      (subst nr_vector_find_comparator.simps, auto split: if_splits)
  have 2: "nr_vector_find_direct v i delta needle = Some r"
    if "nr_vector_find_comparator v i delta needle ?c u = Some r" for r
  proof -
    have "c = ?c \<Longrightarrow> nr_vector_find_direct v i delta needle = Some r"
      if "nr_vector_find_comparator v i delta needle c u = Some r" for c
      by (rule nr_vector_find_comparator.raw_induct
            [where P = "\<lambda>v i delta needle c u r. c = ?c \<longrightarrow> nr_vector_find_direct v i delta needle = Some r", OF _ that, rule_format])
        (subst nr_vector_find_direct.simps, auto split: if_splits)
    with that show ?thesis by blast
  qed
  show ?thesis
    using 1 2 by (cases "nr_vector_find_direct v i delta needle";
        cases "nr_vector_find_comparator v i delta needle ?c u") auto
qed

text \<open>The index a forward search from \<open>i\<close> and a backward search from \<open>i\<close> stop at.\<close>

definition is_first_from :: "(nat \<Rightarrow> bool) \<Rightarrow> nat \<Rightarrow> nat \<Rightarrow> size_t option \<Rightarrow> bool" where
  "is_first_from P i n r =
     (case r of None \<Rightarrow> \<forall>j. i \<le> j \<and> j < n \<longrightarrow> \<not> P j
      | Some k \<Rightarrow> i \<le> unat k \<and> unat k < n \<and> P (unat k) \<and> (\<forall>j. i \<le> j \<and> j < unat k \<longrightarrow> \<not> P j))"

definition is_last_upto :: "(nat \<Rightarrow> bool) \<Rightarrow> nat \<Rightarrow> size_t option \<Rightarrow> bool" where
  "is_last_upto P i r =
     (case r of None \<Rightarrow> \<forall>j. j \<le> i \<longrightarrow> \<not> P j
      | Some k \<Rightarrow> unat k \<le> i \<and> P (unat k) \<and> (\<forall>j. unat k < j \<and> j \<le> i \<longrightarrow> \<not> P j))"

lemma is_first_from_step:
  assumes "\<not> P i" "is_first_from P (Suc i) n r"
  shows "is_first_from P i n r"
proof -
  have "i \<le> j \<longleftrightarrow> i = j \<or> Suc i \<le> j" for j by auto
  with assms show ?thesis by (auto simp: is_first_from_def split: option.splits)
qed

lemma is_last_upto_step:
  assumes "\<not> P i" "is_last_upto P (i - 1) r" "0 < i"
  shows "is_last_upto P i r"
proof -
  have "j \<le> i \<longleftrightarrow> j = i \<or> j \<le> i - 1" for j using assms(3) by auto
  with assms show ?thesis by (auto simp: is_last_upto_def split: option.splits)
qed

lemma is_first_from_cong:
  "(\<And>j. j < n \<Longrightarrow> P j = Q j) \<Longrightarrow> is_first_from P i n r \<longleftrightarrow> is_first_from Q i n r"
  by (auto simp: is_first_from_def split: option.splits)

lemma is_last_upto_cong:
  "(\<And>j. j \<le> i \<Longrightarrow> P j = Q j) \<Longrightarrow> is_last_upto P i r \<longleftrightarrow> is_last_upto Q i r"
  by (auto simp: is_last_upto_def split: option.splits)

lemma find_comparator_step:
  assumes "i < vec_used v" "c (vec_elements v ! unat i) needle u \<noteq> 0"
  shows "nr_vector_find_comparator v i delta needle c u = nr_vector_find_comparator v (i + delta) delta needle c u"
  using assms by (subst nr_vector_find_comparator.simps) simp

lemma find_comparator_forward:
  "\<exists>r. nr_vector_find_comparator v i 1 needle c u = Some r \<and>
       is_first_from (\<lambda>j. c (vec_elements v ! j) needle u = 0) (unat i) (unat (vec_used v)) r"
proof (induction "unat (vec_used v) - unat i" arbitrary: i rule: less_induct)
  case less
  show ?case
  proof (cases "i < vec_used v \<and> c (vec_elements v ! unat i) needle u \<noteq> 0")
    case False
    then show ?thesis
      by (auto simp: nr_vector_find_comparator.simps is_first_from_def word_less_nat_alt)
  next
    case True
    then have s: "unat (i + 1) = Suc (unat i)" by (auto intro: unat_plus1_lt)
    with True have "unat (vec_used v) - unat (i + 1) < unat (vec_used v) - unat i"
      by (auto simp: word_less_nat_alt)
    from less [OF this] obtain r where
      r: "nr_vector_find_comparator v (i + 1) 1 needle c u = Some r"
      and "is_first_from (\<lambda>j. c (vec_elements v ! j) needle u = 0) (Suc (unat i)) (unat (vec_used v)) r"
      using s by auto
    then have "is_first_from (\<lambda>j. c (vec_elements v ! j) needle u = 0) (unat i) (unat (vec_used v)) r"
      using True by (simp add: is_first_from_step)
    moreover have "nr_vector_find_comparator v i 1 needle c u = Some r"
      using find_comparator_step [of i v c needle u 1] True r by argo
    ultimately show ?thesis by blast
  qed
qed

lemma find_comparator_backward:
  assumes "i < vec_used v"
  shows "\<exists>r. nr_vector_find_comparator v i (- 1) needle c u = Some r \<and>
       is_last_upto (\<lambda>j. c (vec_elements v ! j) needle u = 0) (unat i) r"
  using assms
proof (induction "unat i" arbitrary: i rule: less_induct)
  case less
  show ?case
  proof (cases "c (vec_elements v ! unat i) needle u = 0")
    case True
    with less.prems show ?thesis
      by (auto simp: nr_vector_find_comparator.simps is_last_upto_def)
  next
    case no: False
    show ?thesis
    proof (cases "i = 0")
      case True
      have "nr_vector_find_comparator v (- 1) (- 1) needle c u = Some None"
        by (subst nr_vector_find_comparator.simps) (simp add: not_less)
      with True no less.prems show ?thesis
        by (intro exI [of _ None]) (simp add: nr_vector_find_comparator.simps [of v 0] is_last_upto_def)
    next
      case False
      then have p: "unat (i - 1) = unat i - 1" "0 < unat i"
        by (auto simp: unat_minus1 unat_gt_0)
      with less.prems have "unat (i - 1) < unat i" "i - 1 < vec_used v"
        by (auto simp: word_less_nat_alt)
      from less.hyps [OF this] obtain r where
        r: "nr_vector_find_comparator v (i - 1) (- 1) needle c u = Some r"
        and l: "is_last_upto (\<lambda>j. c (vec_elements v ! j) needle u = 0) (unat i - 1) r"
        using p by auto
      have "is_last_upto (\<lambda>j. c (vec_elements v ! j) needle u = 0) (unat i) r"
        using no l p(2) by (rule is_last_upto_step)
      moreover have "nr_vector_find_comparator v i (- 1) needle c u = Some r"
        using find_comparator_step [of i v c needle u "- 1"] less.prems no r by simp
      ultimately show ?thesis by blast
    qed
  qed
qed

section \<open>The operations on the abstract list\<close>

text \<open>
  C5 (refinement). On a well-formed vector, \<open>nr_vector_insert\<close> always returns.  It succeeds exactly
  when there is a free cell or the allocator provides the doubled array (8 cells for an empty one,
  and at most the 64-bit address space): the vector then holds the old list with the element
  inserted before position \<open>pos\<close>, at the end when \<open>pos\<close> is past it.  Otherwise it reports failure
  and the vector is as it was.  The vector stays well formed.
\<close>

theorem nr_vector_insert_refines:
  assumes "vec_invar v"
  shows "\<exists>v'. nr_vector_insert ok (Some v) pos e = Some (has_room ok v, Some v') \<and> vec_invar v' \<and>
           (if has_room ok v
            then vec_list v' = take (unat pos) (vec_list v) @ e # drop (unat pos) (vec_list v)
            else v' = v)"
proof -
  from nr_vector_insert_impl_rel [OF vec_invar_rel [OF assms], of ok pos e] obtain b v' where
    "nr_vector_insert_impl ok v pos e = Some (b, v')" "b \<longleftrightarrow> has_room ok v"
    "if b then vec_rel v' (take (unat pos) (vec_list v) @ e # drop (unat pos) (vec_list v)) else v' = v"
    by blast
  with assms show ?thesis
    by (intro exI [of _ v']) (auto simp: nr_vector_insert_def vec_rel_iff split: if_splits)
qed

theorem nr_vector_insert_refines_witness:
  "vec_invar (vec_of [4 :: nat, 9]) \<and>
   (\<exists>v'. nr_vector_insert (\<lambda>_. False) (Some (vec_of [4 :: nat, 9])) 1 5 = Some (True, Some v') \<and>
      vec_invar v' \<and> vec_list v' = [4, 5, 9]) \<and>
   nr_vector_insert (\<lambda>_. False) (Some (vec_of [2 :: nat, 3, 4, 5, 6, 7, 8, 9])) 1 5 = Some (False, Some (vec_of [2 :: nat, 3, 4, 5, 6, 7, 8, 9])) \<and>
   (\<exists>v'. nr_vector_insert (\<lambda>_. True) (Some (vec_of [2 :: nat, 3, 4, 5, 6, 7, 8, 9])) 3 1 = Some (True, Some v') \<and>
      vec_invar v' \<and> vec_list v' = [2, 3, 4, 1, 5, 6, 7, 8, 9])"
proof -
  have l: "vec_invar (vec_of [4 :: nat, 9])" "vec_list (vec_of [4 :: nat, 9]) = [4, 9]"
    "has_room (\<lambda>_. False) (vec_of [4 :: nat, 9])"
    by (simp_all add: vec_of_rel) (simp add: has_room_def vec_of_def)
  have f: "vec_invar (vec_of [2 :: nat, 3, 4, 5, 6, 7, 8, 9])" "vec_list (vec_of [2 :: nat, 3, 4, 5, 6, 7, 8, 9]) = [2 :: nat, 3, 4, 5, 6, 7, 8, 9]"
    "\<not> has_room (\<lambda>_. False) (vec_of [2 :: nat, 3, 4, 5, 6, 7, 8, 9])" "has_room (\<lambda>_. True) (vec_of [2 :: nat, 3, 4, 5, 6, 7, 8, 9])"
    by (simp_all add: vec_of_rel) (simp_all add: has_room_def vec_of_def)
  show ?thesis
    using l f(1) nr_vector_insert_refines [OF l(1), of "\<lambda>_. False" 1 5]
      nr_vector_insert_refines [OF f(1), of "\<lambda>_. False" 1 5]
      nr_vector_insert_refines [OF f(1), of "\<lambda>_. True" 3 1]
    unfolding l(2) f(2) by (simp add: f(3,4) l(3))
qed

text \<open>
  C6 (refinement). On a well-formed vector, \<open>nr_vector_remove\<close> with a place to store the element
  hands back the element at \<open>pos\<close> and removes exactly it, or reports failure and changes nothing
  when \<open>pos\<close> is out of range.  Shrinking the array afterwards, or failing to, never loses an
  element.
\<close>


theorem nr_vector_remove_refines:
  assumes "vec_invar v"
  shows "\<exists>v'. nr_vector_remove ok (Some v) pos True =
             (if unat pos < length (vec_list v) then (True, Some (vec_list v ! unat pos), Some v')
              else (False, None, Some v')) \<and>
           vec_invar v' \<and>
           vec_list v' = take (unat pos) (vec_list v) @ drop (Suc (unat pos)) (vec_list v)"
proof (cases "unat pos < length (vec_list v)")
  case True
  from nr_vector_remove_impl_rel(1) [OF vec_invar_rel [OF assms] True, of ok] obtain v' where
    "nr_vector_remove_impl ok v pos = (True, Some (vec_list v ! unat pos), v')"
    "vec_rel v' (take (unat pos) (vec_list v) @ drop (Suc (unat pos)) (vec_list v))" by blast
  with True show ?thesis by (intro exI [of _ v']) (simp add: nr_vector_remove_def vec_rel_iff)
next
  case False
  then have "nr_vector_remove_impl ok v pos = (False, None, v)"
    by (intro nr_vector_remove_impl_rel(2) [OF vec_invar_rel [OF assms]]) simp
  with False assms show ?thesis by (intro exI [of _ v]) (simp add: nr_vector_remove_def)
qed

theorem nr_vector_remove_refines_witness:
  "vec_invar (vec_of [4 :: nat, 9]) \<and>
   (\<exists>v'. nr_vector_remove (\<lambda>_. False) (Some (vec_of [4 :: nat, 9])) 0 True = (True, Some 4, Some v') \<and>
         vec_invar v' \<and> vec_list v' = [9])"
  using nr_vector_remove_refines [of "vec_of [4 :: nat, 9]" "\<lambda>_. False" 0] by (simp add: vec_of_rel)

text \<open>What the searches look for: the comparator gives 0, or without one, the needle itself.\<close>

definition matches :: "('a option \<Rightarrow> 'a option \<Rightarrow> 'c \<Rightarrow> int) option \<Rightarrow> 'a option \<Rightarrow> 'c \<Rightarrow> 'a \<Rightarrow> bool" where
  "matches comparator needle userdata x =
     (case comparator of None \<Rightarrow> Some x = needle | Some c \<Rightarrow> c (Some x) needle userdata = 0)"

lemma matches_None: "matches None (Some y) u x \<longleftrightarrow> x = y"
  by (simp add: matches_def)

text \<open>\<open>nr_vector_find\<close> as one comparator loop.\<close>

definition comparator_or_equal ::
  "('a option \<Rightarrow> 'a option \<Rightarrow> 'c \<Rightarrow> int) option \<Rightarrow> 'a option \<Rightarrow> 'a option \<Rightarrow> 'c \<Rightarrow> int" where
  "comparator_or_equal comparator =
     (case comparator of None \<Rightarrow> \<lambda>x y _. if x = y then 0 else 1 | Some c \<Rightarrow> c)"

lemma nr_vector_find_eq:
  assumes "start < vec_used v"
  shows "nr_vector_find v start forward needle comparator u =
    nr_vector_find_comparator v start (if forward then 1 else - 1) needle
      (comparator_or_equal comparator) u"
  using assms
  by (auto simp: nr_vector_find_def comparator_or_equal_def nr_vector_find_direct_comparator [of _ _ _ _ u] split: option.split)

lemma matches_at:
  assumes "vec_invar v" "j < length (vec_list v)"
  shows "comparator_or_equal comparator
           (vec_elements v ! j) needle u = 0 \<longleftrightarrow> matches comparator needle u (vec_list v ! j)"
proof -
  from vec_invar_rel [OF assms(1)] have "vec_elements v ! j = Some (vec_list v ! j)"
    using assms(2) by (auto elim!: vec_relE simp: nth_append)
  then show ?thesis by (simp add: matches_def comparator_or_equal_def split: option.split)
qed

lemma find_first_list:
  assumes "vec_invar v"
  shows "\<exists>r. nr_vector_find_first (Some v) needle comparator u = Some r \<and>
           is_first_from (\<lambda>j. matches comparator needle u (vec_list v ! j)) 0 (length (vec_list v)) r"
proof (cases "vec_used v = 0")
  case True
  with vec_invar_rel [OF assms] show ?thesis
    by (auto elim!: vec_relE simp: nr_vector_find_first_def is_first_from_def)
next
  case False
  have len: "length (vec_list v) = unat (vec_used v)"
    using vec_invar_rel [OF assms] by (auto elim: vec_relE)
  have "0 < vec_used v" using False by (simp add: word_gt_0)
  with find_comparator_forward [of v 0 needle "comparator_or_equal comparator" u]
  obtain r where "nr_vector_find_first (Some v) needle comparator u = Some r"
    "is_first_from (\<lambda>j. comparator_or_equal comparator
       (vec_elements v ! j) needle u = 0) 0 (length (vec_list v)) r"
    using False by (auto simp: nr_vector_find_first_def nr_vector_find_eq len)
  moreover from this(2) have
    "is_first_from (\<lambda>j. matches comparator needle u (vec_list v ! j)) 0 (length (vec_list v)) r"
    by (rule is_first_from_cong [THEN iffD1, rotated]) (rule matches_at [OF assms])
  ultimately show ?thesis by blast
qed

lemma find_last_list:
  assumes "vec_invar v"
  shows "\<exists>r. nr_vector_find_last (Some v) needle comparator u = Some r \<and>
           (case r of None \<Rightarrow> \<forall>j < length (vec_list v). \<not> matches comparator needle u (vec_list v ! j)
            | Some k \<Rightarrow> unat k < length (vec_list v) \<and> matches comparator needle u (vec_list v ! unat k) \<and>
                (\<forall>j. unat k < j \<and> j < length (vec_list v) \<longrightarrow> \<not> matches comparator needle u (vec_list v ! j)))"
proof (cases "vec_used v = 0")
  case True
  with vec_invar_rel [OF assms] show ?thesis
    by (auto elim!: vec_relE simp: nr_vector_find_last_def)
next
  case False
  have len: "length (vec_list v) = unat (vec_used v)"
    using vec_invar_rel [OF assms] by (auto elim: vec_relE)
  from False have lt: "vec_used v - 1 < vec_used v" and u: "unat (vec_used v - 1) = length (vec_list v) - 1"
    and pos: "0 < length (vec_list v)"
    by (auto simp: word_less_nat_alt unat_minus1 unat_gt_0 len)
  from find_comparator_backward [OF lt, of needle "comparator_or_equal comparator" u]
  obtain r where r: "nr_vector_find_last (Some v) needle comparator u = Some r"
    and l: "is_last_upto (\<lambda>j. comparator_or_equal comparator
       (vec_elements v ! j) needle u = 0) (length (vec_list v) - 1) r"
    using False by (auto simp: nr_vector_find_last_def nr_vector_find_eq [OF lt] u)
  have iff: "j \<le> length (vec_list v) - 1 \<longleftrightarrow> j < length (vec_list v)" for j using pos by linarith
  have "is_last_upto (\<lambda>j. matches comparator needle u (vec_list v ! j)) (length (vec_list v) - 1) r"
    using l by (rule is_last_upto_cong [THEN iffD1, rotated]) (rule matches_at [OF assms], simp only: iff)
  with r iff show ?thesis by (auto simp: is_last_upto_def split: option.splits)
qed

text \<open>
  C7 (functional). On a well-formed vector, with or without a comparator, \<open>nr_vector_find_first\<close> and
  \<open>nr_vector_find_last\<close> always return (the backward index wraps below 0 and the loop ends) and store
  the first, or the last, index whose element matches the needle: the comparator gives 0 on it, or
  it is the needle when the comparator is NULL.  They report that there is none exactly when no
  element matches.
\<close>

theorem nr_vector_find_correct:
  assumes "vec_invar v"
  shows "(\<exists>r. nr_vector_find_first (Some v) needle comparator u = Some r \<and>
           (case r of None \<Rightarrow> \<forall>x \<in> set (vec_list v). \<not> matches comparator needle u x
            | Some k \<Rightarrow> unat k < length (vec_list v) \<and> matches comparator needle u (vec_list v ! unat k) \<and>
                (\<forall>j < unat k. \<not> matches comparator needle u (vec_list v ! j)))) \<and>
         (\<exists>r. nr_vector_find_last (Some v) needle comparator u = Some r \<and>
           (case r of None \<Rightarrow> \<forall>x \<in> set (vec_list v). \<not> matches comparator needle u x
            | Some k \<Rightarrow> unat k < length (vec_list v) \<and> matches comparator needle u (vec_list v ! unat k) \<and>
                (\<forall>j. unat k < j \<and> j < length (vec_list v) \<longrightarrow> \<not> matches comparator needle u (vec_list v ! j))))"
proof
  from find_first_list [OF assms, of needle comparator u] obtain r where
    "nr_vector_find_first (Some v) needle comparator u = Some r"
    "is_first_from (\<lambda>j. matches comparator needle u (vec_list v ! j)) 0 (length (vec_list v)) r" by blast
  then show "\<exists>r. nr_vector_find_first (Some v) needle comparator u = Some r \<and>
           (case r of None \<Rightarrow> \<forall>x \<in> set (vec_list v). \<not> matches comparator needle u x
            | Some k \<Rightarrow> unat k < length (vec_list v) \<and> matches comparator needle u (vec_list v ! unat k) \<and>
                (\<forall>j < unat k. \<not> matches comparator needle u (vec_list v ! j)))"
    by (intro exI [of _ r]) (auto simp: is_first_from_def in_set_conv_nth split: option.splits)
  from find_last_list [OF assms, of needle comparator u] obtain r where
    "nr_vector_find_last (Some v) needle comparator u = Some r"
    "case r of None \<Rightarrow> \<forall>j < length (vec_list v). \<not> matches comparator needle u (vec_list v ! j)
            | Some k \<Rightarrow> unat k < length (vec_list v) \<and> matches comparator needle u (vec_list v ! unat k) \<and>
                (\<forall>j. unat k < j \<and> j < length (vec_list v) \<longrightarrow> \<not> matches comparator needle u (vec_list v ! j))"
    by blast
  then show "\<exists>r. nr_vector_find_last (Some v) needle comparator u = Some r \<and>
           (case r of None \<Rightarrow> \<forall>x \<in> set (vec_list v). \<not> matches comparator needle u x
            | Some k \<Rightarrow> unat k < length (vec_list v) \<and> matches comparator needle u (vec_list v ! unat k) \<and>
                (\<forall>j. unat k < j \<and> j < length (vec_list v) \<longrightarrow> \<not> matches comparator needle u (vec_list v ! j)))"
    by (intro exI [of _ r]) (auto simp: in_set_conv_nth split: option.splits)
qed

theorem nr_vector_find_correct_witness:
  "vec_invar (vec_of [4 :: nat, 9, 4]) \<and>
   nr_vector_find_last (Some (vec_of [4 :: nat, 9, 4])) (Some 4) None () = Some (Some 2) \<and>
   nr_vector_find_first (Some (vec_of [4 :: nat, 9, 4])) (Some 5) (Some (\<lambda>a b _. if the a > the b then 0 else 1)) () = Some (Some 1)"
proof -
  have l: "vec_invar (vec_of [4 :: nat, 9, 4])" "vec_list (vec_of [4 :: nat, 9, 4]) = [4, 9, 4]"
    by (simp_all add: vec_of_rel)
  have idx: "k = n" if "unat k = unat n" for k n :: size_t using that by (rule word_unat_eq_iff [THEN iffD2])
  obtain r where r: "nr_vector_find_last (Some (vec_of [4 :: nat, 9, 4])) (Some 4) None () = Some r"
    and c: "case r of None \<Rightarrow> \<forall>x \<in> set [4 :: nat, 9, 4]. \<not> matches None (Some 4) () x
            | Some k \<Rightarrow> unat k < length [4 :: nat, 9, 4] \<and> matches None (Some 4) () ([4 :: nat, 9, 4] ! unat k) \<and>
                (\<forall>j. unat k < j \<and> j < length [4 :: nat, 9, 4] \<longrightarrow> \<not> matches None (Some 4) () ([4 :: nat, 9, 4] ! j))"
    using nr_vector_find_correct [OF l(1), of "Some 4" None "()"] unfolding l(2) by blast
  have "r = Some 2"
  proof (cases r)
    case None
    with c show ?thesis by (simp add: matches_def)
  next
    case (Some k)
    with c have "unat k < 3" "\<not> unat k < 2"
      by (auto simp: matches_def dest: spec [of _ 2])
    then have "unat k = unat (2 :: size_t)" by simp
    with Some show ?thesis using idx by blast
  qed
  moreover
  let ?c = "Some (\<lambda>a b (_ :: unit). if the (a :: nat option) > the b then 0 else (1 :: int))"
  obtain r' where r': "nr_vector_find_first (Some (vec_of [4 :: nat, 9, 4])) (Some 5) ?c () = Some r'"
    and c': "case r' of None \<Rightarrow> \<forall>x \<in> set [4 :: nat, 9, 4]. \<not> matches ?c (Some 5) () x
            | Some k \<Rightarrow> unat k < length [4 :: nat, 9, 4] \<and> matches ?c (Some 5) () ([4 :: nat, 9, 4] ! unat k) \<and>
                (\<forall>j < unat k. \<not> matches ?c (Some 5) () ([4 :: nat, 9, 4] ! j))"
    using nr_vector_find_correct [OF l(1), of "Some 5" ?c "()"] unfolding l(2) by blast
  have "r' = Some 1"
  proof (cases r')
    case None
    with c' show ?thesis by (simp add: matches_def)
  next
    case (Some k)
    with c' have "unat k < 3" "\<not> 1 < unat k"
      by (auto simp: matches_def dest: spec [of _ 1] split: if_splits)
    moreover have "unat k \<noteq> 0"
    proof
      assume "unat k = 0"
      with c' Some show False by (simp add: matches_def)
    qed
    ultimately have "unat k = unat (1 :: size_t)" by simp
    with Some show ?thesis using idx by blast
  qed
  ultimately show ?thesis using l r r' by simp
qed

lemma grow_capacity_power_of_two:
  assumes "s = 2 ^ k" "s \<noteq> 0"
  shows "grow_capacity s cap = None \<longleftrightarrow> cap > 2 ^ 63"
proof
  assume none: "grow_capacity s cap = None"
  show "cap > 2 ^ 63"
  proof (rule ccontr)
    assume "\<not> cap > 2 ^ 63"
    then have "unat cap \<le> 2 ^ 63" by (simp add: word_less_nat_alt)
    with grow_capacity_returns [OF this assms(2)] none show False by auto
  qed
next
  assume big: "cap > 2 ^ 63"
  show "grow_capacity s cap = None"
  proof (rule ccontr)
    assume "grow_capacity s cap \<noteq> None"
    then obtain y j where "cap \<le> y" "y = s * 2 ^ j" using grow_capacity_multiple by blast
    moreover have "s * 2 ^ j \<le> 2 ^ 63"
      unfolding assms(1) by (metis power2_word64_le power_add)
    ultimately show False using big by (metis leD order_trans)
  qed
qed

text \<open>
  C8 (termination).  When the capacity of a vector is a power of two, as the default capacity 8 and
  everything doubling and halving make of it, or 0, \<open>nr_vector_ensure\<close> fails to return exactly for
  requests of more than $2^{63}$ elements: the doubling loop multiplies the candidate past the top of
  \<open>size_t\<close>, where it becomes 0 and stays there.  (With another capacity the product can reach some
  of these requests: from 3 the loop gets to $3 \cdot 2^{62}$.)
\<close>

theorem nr_vector_ensure_diverges:
  assumes "vec_capacity v = 0 \<or> vec_capacity v = 2 ^ k"
  shows "nr_vector_ensure ok (Some v) cap = None \<longleftrightarrow> cap > 2 ^ 63"
proof -
  let ?s = "if vec_capacity v \<noteq> 0 then vec_capacity v else 8"
  have "\<exists>j. ?s = 2 ^ j"
  proof (cases "vec_capacity v = 0")
    case True
    then have "?s = 2 ^ 3" by simp
    then show ?thesis by blast
  next
    case False
    with assms have "?s = 2 ^ k" by simp
    then show ?thesis by blast
  qed
  then obtain j where s: "?s = 2 ^ j" by blast
  have nz: "?s \<noteq> 0" by simp
  show ?thesis
  proof (cases "cap > 2 ^ 63")
    case True
    have "vec_capacity v \<le> 2 ^ 63" using assms power2_word64_le [of k] word_zero_le by (elim disjE) (simp_all only:)
    from this True have "vec_capacity v < cap" by (rule le_less_trans)
    then have "\<not> cap \<le> vec_capacity v" "cap \<noteq> 0" by auto
    with True grow_capacity_power_of_two [OF s nz, of cap] show ?thesis
      by (simp add: nr_vector_ensure_def nr_vector_ensure_impl_def)
  next
    case False
    then obtain y where "grow_capacity ?s cap = Some y"
      using grow_capacity_power_of_two [OF s nz, of cap] by blast
    then have "nr_vector_ensure ok (Some v) cap \<noteq> None"
      by (simp add: nr_vector_ensure_def nr_vector_ensure_impl_def split: option.split) blast
    with False show ?thesis by blast
  qed
qed

theorem nr_vector_ensure_diverges_witness:
  "vec_capacity (nr_vector_create 0 None () :: (nat, unit) nr_vector) = 2 ^ 3 \<and>
   nr_vector_ensure (\<lambda>_. True) (Some (nr_vector_create 0 None () :: (nat, unit) nr_vector)) (2 ^ 63 + 1) = None"
proof -
  have h: "vec_capacity (nr_vector_create 0 None () :: (nat, unit) nr_vector) = 2 ^ 3"
    by (simp add: nr_vector_create_def nr_vector_init_impl_def)
  show ?thesis
    using h nr_vector_ensure_diverges [OF disjI2 [OF h], of "\<lambda>_. True" "2 ^ 63 + 1"] by simp
qed

section \<open>Other operations\<close>

lemma nr_vector_get_list:
  assumes "vec_invar v" "pos < vec_used v"
  shows "nr_vector_get (Some v) pos = Some (vec_list v ! unat pos)"
    and "nr_vector_get_element (Some v) pos True = (True, Some (vec_list v ! unat pos))"
proof -
  from vec_invar_rel [OF assms(1)] obtain rest where
    "vec_elements v = map Some (vec_list v) @ rest" "length (vec_list v) = unat (vec_used v)"
    by (auto elim: vec_relE)
  with assms(2) have "vec_elements v ! unat pos = Some (vec_list v ! unat pos)"
    by (simp add: nth_append word_less_nat_alt)
  with assms(2) show "nr_vector_get (Some v) pos = Some (vec_list v ! unat pos)"
    and "nr_vector_get_element (Some v) pos True = (True, Some (vec_list v ! unat pos))"
    by (auto simp: nr_vector_get_def nr_vector_get_element_def not_le)
qed

lemma nr_vector_size_list: "vec_invar v \<Longrightarrow> unat (nr_vector_size (Some v)) = length (vec_list v)"
  by (auto simp: nr_vector_size_def dest!: vec_invar_rel elim: vec_relE)

lemma nr_vector_replace_rel:
  assumes "vec_invar v" "pos < vec_used v"
  obtains v' where "nr_vector_replace (Some v) pos e = (True, Some v')" "vec_invar v'"
    "vec_list v' = (vec_list v)[unat pos := e]"
proof -
  let ?xs = "vec_list v"
  from vec_invar_rel [OF assms(1)] obtain rest where
    r: "vec_elements v = map Some ?xs @ rest" "length ?xs = unat (vec_used v)"
    "length ?xs + length rest = unat (vec_capacity v)" "unat (vec_capacity v) < 2 ^ 61"
    by (auto elim: vec_relE)
  have p: "unat pos < length ?xs" using assms(2) r(2) by (simp add: word_less_nat_alt)
  define v' where "v' = the (snd (nr_vector_replace (Some v) pos e))"
  have np: "\<not> vec_used v \<le> pos" using assms(2) by simp
  then have "nr_vector_replace (Some v) pos e = (True, Some v')"
    by (simp add: v'_def nr_vector_replace_def Let_def)
  moreover have "vec_rel v' (?xs[unat pos := e])"
    using np r p
    by (simp add: v'_def nr_vector_replace_def Let_def vec_rel_def list_update_append map_update)
  ultimately show ?thesis using that by (simp add: vec_rel_iff)
qed

lemma destroy_cells_fold: "destroy_cells d (map Some xs) u = fold (d \<circ> Some) xs u"
  by (induction xs arbitrary: u) auto

text \<open>The destructor runs once per element, in order, and the vector is left empty.\<close>

lemma nr_vector_deinit_runs_dtor:
  assumes "vec_invar v" "vec_dtor v = Some d"
  shows "\<exists>v'. nr_vector_deinit (Some v) = (True, Some v') \<and> vec_invar v' \<and> vec_list v' = [] \<and>
           vec_dtor_userdata v' = fold (d \<circ> Some) (vec_list v) (vec_dtor_userdata v)"
proof -
  from vec_invar_rel [OF assms(1)] obtain rest where
    "vec_elements v = map Some (vec_list v) @ rest" "length (vec_list v) = unat (vec_used v)"
    by (auto elim: vec_relE)
  then have "take (unat (vec_used v)) (vec_elements v) = map Some (vec_list v)" by simp
  with assms(2) show ?thesis
    by (simp add: nr_vector_deinit_def nr_vector_deinit_impl_def destroy_cells_fold)
      (simp add: vec_invar_def vec_rel_def vec_list_def)
qed

end
