(* ===== verification/Stack.thy ===== *)
theory Stack
  imports Vector
begin

text \<open>
  util_stack.c.  A stack is a vector without destructor whose top is the last element.  The locale
  \<open>vector_contract\<close> lists what the stack needs of the vector operations it calls; the stack's
  behaviour is proved from these laws, and the interpretation \<open>vec\<close> discharges them for the
  operations of util_vector.c.
\<close>

type_synonym 'a nr_stack = "('a, unit) nr_vector"

section \<open>Operations\<close>

definition nr_stack_init :: "'a nr_stack option \<Rightarrow> size_t \<Rightarrow> bool \<times> 'a nr_stack option" where
  "nr_stack_init s cap = (if cap = 0 then (False, s) else nr_vector_init s cap None ())"

definition nr_stack_is_empty :: "'a nr_stack option \<Rightarrow> bool" where
  "nr_stack_is_empty s = (case s of None \<Rightarrow> True | Some _ \<Rightarrow> 0 = nr_vector_size s)"

definition nr_stack_get_top :: "'a nr_stack option \<Rightarrow> 'a option" where
  "nr_stack_get_top s =
     (let sz = nr_vector_size s in if sz = 0 then None else nr_vector_get s (sz - 1))"

text \<open>\<open>None\<close> as a result means that the call does not return (see \<open>nr_vector_push_back\<close>).\<close>

definition nr_stack_push :: "alloc \<Rightarrow> 'a nr_stack option \<Rightarrow> 'a \<Rightarrow> 'a nr_stack option option" where
  "nr_stack_push ok s new_element = map_option snd (nr_vector_push_back ok s new_element)"

definition nr_stack_pop :: "alloc \<Rightarrow> 'a nr_stack option \<Rightarrow> 'a option \<times> 'a nr_stack option" where
  "nr_stack_pop ok s = (case nr_vector_pop_back ok s True of (_, element, s') \<Rightarrow> (element, s'))"

definition nr_stack_destroy_fields :: "'a nr_stack option \<Rightarrow> 'a nr_stack option" where
  "nr_stack_destroy_fields s = snd (nr_vector_deinit s)"

definition nr_stack_remove_topmost :: "alloc \<Rightarrow> 'a nr_stack option \<Rightarrow> 'a \<Rightarrow> (bool \<times> 'a nr_stack option) option" where
  "nr_stack_remove_topmost ok s element =
     (case nr_vector_find_last s (Some element) None () of
        None \<Rightarrow> None
      | Some None \<Rightarrow> Some (False, s)
      | Some (Some index) \<Rightarrow>
          (case nr_vector_remove ok s index True of (b, _, s') \<Rightarrow> Some (b, s')))"

section \<open>The contract of the vector\<close>

definition remove_nth :: "nat \<Rightarrow> 'a list \<Rightarrow> 'a list" where
  "remove_nth i xs = take i xs @ drop (Suc i) xs"

fun remove_last_occ :: "'a \<Rightarrow> 'a list \<Rightarrow> 'a list" where
  "remove_last_occ x [] = []"
| "remove_last_occ x (y # ys) =
     (if x \<in> set ys then y # remove_last_occ x ys else if x = y then ys else y # ys)"

lemma remove_last_occ_notin: "x \<notin> set xs \<Longrightarrow> remove_last_occ x xs = xs"
  by (induction xs) auto

lemma remove_last_occ_nth:
  assumes "i < length xs" "xs ! i = x" "\<forall>j. i < j \<and> j < length xs \<longrightarrow> xs ! j \<noteq> x"
  shows "remove_last_occ x xs = remove_nth i xs"
  using assms
proof (induction xs arbitrary: i)
  case Nil
  then show ?case by simp
next
  case (Cons y ys)
  show ?case
  proof (cases i)
    case 0
    have "x \<notin> set ys"
    proof
      assume "x \<in> set ys"
      then obtain j where "j < length ys" "ys ! j = x" by (auto simp: in_set_conv_nth)
      with Cons.prems(3) 0 show False by (auto dest!: spec [of _ "Suc j"])
    qed
    with Cons.prems 0 show ?thesis by (simp add: remove_nth_def)
  next
    case (Suc k)
    then have k: "k < length ys" "ys ! k = x" using Cons.prems by auto
    have "\<forall>j. k < j \<and> j < length ys \<longrightarrow> ys ! j \<noteq> x"
      using Cons.prems(3) Suc by (metis Suc_less_eq length_Cons nth_Cons_Suc)
    from Cons.IH [OF k this] k Suc show ?thesis by (auto simp: remove_nth_def)
  qed
qed

locale vector_contract =
  fixes rel :: "'v \<Rightarrow> 'a list \<Rightarrow> bool"
    and room :: "'v \<Rightarrow> bool"
    and push_back :: "'v \<Rightarrow> 'a \<Rightarrow> (bool \<times> 'v) option"
    and pop_back :: "'v \<Rightarrow> bool \<times> 'a option \<times> 'v"
    and find_last :: "'v \<Rightarrow> 'a \<Rightarrow> size_t option option"
    and remove_at :: "'v \<Rightarrow> size_t \<Rightarrow> bool \<times> 'a option \<times> 'v"
  assumes push_law: "rel v xs \<Longrightarrow>
      \<exists>v'. push_back v x = Some (room v, v') \<and> (if room v then rel v' (xs @ [x]) else v' = v)"
    and pop_law: "rel v (xs @ [x]) \<Longrightarrow> \<exists>v'. pop_back v = (True, Some x, v') \<and> rel v' xs"
    and pop_empty_law: "rel v [] \<Longrightarrow> pop_back v = (False, None, v)"
    and find_last_law: "rel v xs \<Longrightarrow> \<exists>r. find_last v x = Some r \<and>
        (case r of None \<Rightarrow> x \<notin> set xs
         | Some k \<Rightarrow> unat k < length xs \<and> xs ! unat k = x \<and>
             (\<forall>j. unat k < j \<and> j < length xs \<longrightarrow> xs ! j \<noteq> x))"
    and remove_law: "rel v xs \<Longrightarrow> unat k < length xs \<Longrightarrow>
        \<exists>v'. remove_at v k = (True, Some (xs ! unat k), v') \<and> rel v' (remove_nth (unat k) xs)"
begin

text \<open>A push that finds room followed by a pop gives the element back and restores the contents.\<close>

lemma pop_after_push:
  assumes "rel v xs" "room v"
  shows "\<exists>v' v''. push_back v x = Some (True, v') \<and> pop_back v' = (True, Some x, v'') \<and> rel v'' xs"
  using push_law [OF assms(1), of x] assms(2) pop_law by fastforce

text \<open>Finding the last occurrence and removing it is \<open>remove_last_occ\<close>.\<close>

lemma remove_topmost_law:
  assumes "rel v xs"
  shows "if x \<in> set xs
         then \<exists>k v'. find_last v x = Some (Some k) \<and> remove_at v k = (True, Some x, v') \<and>
                rel v' (remove_last_occ x xs)
         else find_last v x = Some None"
proof -
  from find_last_law [OF assms, of x] obtain r where r: "find_last v x = Some r" and
    c: "case r of None \<Rightarrow> x \<notin> set xs
         | Some k \<Rightarrow> unat k < length xs \<and> xs ! unat k = x \<and>
             (\<forall>j. unat k < j \<and> j < length xs \<longrightarrow> xs ! j \<noteq> x)" by blast
  show ?thesis
  proof (cases r)
    case None
    with r c show ?thesis by simp
  next
    case (Some k)
    with c have k: "unat k < length xs" "xs ! unat k = x"
      "\<forall>j. unat k < j \<and> j < length xs \<longrightarrow> xs ! j \<noteq> x" by auto
    from remove_law [OF assms k(1)] obtain v' where
      "remove_at v k = (True, Some (xs ! unat k), v')" "rel v' (remove_nth (unat k) xs)" by blast
    with r Some k remove_last_occ_nth [OF k] show ?thesis by (auto simp: nth_mem)
  qed
qed

end

definition vec_ptr_rel :: "('a, 'u) nr_vector option \<Rightarrow> 'a list \<Rightarrow> bool" where
  "vec_ptr_rel s xs = (case s of None \<Rightarrow> False | Some v \<Rightarrow> vec_rel v xs)"

lemma vec_ptr_relE:
  assumes "vec_ptr_rel s xs"
  obtains v where "s = Some v" "vec_rel v xs"
  using assms by (auto simp: vec_ptr_rel_def split: option.splits)

definition ptr_has_room :: "alloc \<Rightarrow> ('a, 'u) nr_vector option \<Rightarrow> bool" where
  "ptr_has_room ok s = (case s of None \<Rightarrow> False | Some v \<Rightarrow> has_room ok v)"

interpretation vec: vector_contract vec_ptr_rel "ptr_has_room ok" "nr_vector_push_back ok"
  "\<lambda>v. nr_vector_pop_back ok v True" "\<lambda>v x. nr_vector_find_last v (Some x) None ()"
  "\<lambda>v k. nr_vector_remove ok v k True"
  for ok
proof
  fix v :: "('a, 'b) nr_vector option" and xs :: "'a list" and x :: 'a
  show "\<exists>v'. nr_vector_push_back ok v x = Some (ptr_has_room ok v, v') \<and>
          (if ptr_has_room ok v then vec_ptr_rel v' (xs @ [x]) else v' = v)" if rel: "vec_ptr_rel v xs"
  proof -
    from rel obtain w where w: "v = Some w" "vec_rel w xs" by (rule vec_ptr_relE)
    from w(2) have len: "length xs = unat (vec_used w)" by (auto elim: vec_relE)
    from nr_vector_insert_impl_rel [OF w(2), of ok "vec_used w" x] obtain b w' where
      "nr_vector_insert_impl ok w (vec_used w) x = Some (b, w')" "b \<longleftrightarrow> has_room ok w"
      "if b then vec_rel w' (xs @ [x]) else w' = w" using len by (auto cong: if_cong)
    with w(1) show ?thesis
      by (intro exI [of _ "Some w'"]) (auto simp: nr_vector_push_back_def vec_ptr_rel_def ptr_has_room_def)
  qed
  show "\<exists>v'. nr_vector_pop_back ok v True = (True, Some x, v') \<and> vec_ptr_rel v' xs"
    if rel: "vec_ptr_rel v (xs @ [x])"
  proof -
    from rel obtain w where w: "v = Some w" "vec_rel w (xs @ [x])" by (rule vec_ptr_relE)
    from w(2) have len: "Suc (length xs) = unat (vec_used w)" by (auto elim: vec_relE)
    then have nz: "vec_used w \<noteq> 0" by auto
    with len have u: "unat (vec_used w - 1) = length xs" by (simp add: unat_minus1)
    from nr_vector_remove_impl_rel(1) [OF w(2), of "vec_used w - 1" ok] u obtain w' where
      "nr_vector_remove_impl ok w (vec_used w - 1) = (True, Some x, w')" "vec_rel w' xs" by auto
    with w(1) nz show ?thesis by (auto simp: nr_vector_pop_back_def vec_ptr_rel_def)
  qed
  show "nr_vector_pop_back ok v True = (False, None, v)" if "vec_ptr_rel v []"
    using that by (auto elim!: vec_ptr_relE vec_relE simp: nr_vector_pop_back_def unat_eq_0)
  show "\<exists>r. nr_vector_find_last v (Some x) None () = Some r \<and>
        (case r of None \<Rightarrow> x \<notin> set xs
         | Some k \<Rightarrow> unat k < length xs \<and> xs ! unat k = x \<and>
             (\<forall>j. unat k < j \<and> j < length xs \<longrightarrow> xs ! j \<noteq> x))" if "vec_ptr_rel v xs"
    proof -
    from that obtain w where w: "v = Some w" "vec_invar w" "vec_list w = xs"
      by (auto elim!: vec_ptr_relE simp: vec_rel_iff)
    from find_last_list [OF w(2), of "Some x" None "()"] obtain r where
      "nr_vector_find_last v (Some x) None () = Some r"
      "case r of None \<Rightarrow> \<forall>j < length xs. xs ! j \<noteq> x
       | Some k \<Rightarrow> unat k < length xs \<and> xs ! unat k = x \<and>
           (\<forall>j. unat k < j \<and> j < length xs \<longrightarrow> xs ! j \<noteq> x)"
      unfolding w matches_None by blast
    then show ?thesis by (intro exI [of _ r]) (auto simp: in_set_conv_nth split: option.splits)
  qed
  show "\<exists>v'. nr_vector_remove ok v k True = (True, Some (xs ! unat k), v') \<and>
          vec_ptr_rel v' (remove_nth (unat k) xs)" if "vec_ptr_rel v xs" "unat k < length xs" for k
  proof -
    from that(1) obtain w where w: "v = Some w" "vec_rel w xs" by (rule vec_ptr_relE)
    from nr_vector_remove_impl_rel(1) [OF w(2) that(2), of ok] w(1) show ?thesis
      by (auto simp: nr_vector_remove_def vec_ptr_rel_def remove_nth_def)
  qed
qed

section \<open>The stack on the abstract list\<close>

lemma nr_stack_push_list:
  assumes "vec_ptr_rel s xs"
  shows "\<exists>s'. nr_stack_push ok s x = Some s' \<and>
           (if ptr_has_room ok s then vec_ptr_rel s' (xs @ [x]) else s' = s)"
  using vec.push_law [OF assms, of ok x] by (auto simp: nr_stack_push_def split: if_splits)

lemma nr_stack_pop_list:
  "vec_ptr_rel s [] \<Longrightarrow> nr_stack_pop ok s = (None, s)"
  "vec_ptr_rel s (xs @ [x]) \<Longrightarrow> \<exists>s'. nr_stack_pop ok s = (Some x, s') \<and> vec_ptr_rel s' xs"
  using vec.pop_empty_law [of s ok] vec.pop_law [of s xs x ok] by (auto simp: nr_stack_pop_def)

lemma nr_stack_get_top_list:
  assumes "vec_ptr_rel s xs"
  shows "nr_stack_get_top s = (if xs = [] then None else Some (last xs))"
proof -
  from assms obtain v where v: "s = Some v" "vec_rel v xs" by (rule vec_ptr_relE)
  from v(2) have len: "length xs = unat (vec_used v)" by (auto elim: vec_relE)
  from v(2) have inv: "vec_invar v" and l: "vec_list v = xs" by (simp_all add: vec_rel_iff)
  show ?thesis
  proof (cases "vec_used v = 0")
    case True
    with v len show ?thesis by (simp add: nr_stack_get_top_def nr_vector_size_def)
  next
    case False
    then have u: "unat (vec_used v - 1) = length xs - 1" "vec_used v - 1 < vec_used v" "xs \<noteq> []"
      using len unat_gt_0 [of "vec_used v"] by (auto simp: unat_minus1 word_less_nat_alt)
    with nr_vector_get_list(1) [OF inv u(2)] v l False show ?thesis
      by (simp add: nr_stack_get_top_def nr_vector_size_def last_conv_nth)
  qed
qed

text \<open>
  C9 (refinement). A stack that holds \<open>xs\<close> behaves as the list with its top at the end: the top is
  the last element; a push returns with the element on top, and leaves the stack as it was exactly
  when its array is full and the allocator does not provide one twice as large; a pop takes the last element off; \<open>nr_stack_remove_topmost\<close> returns, takes out the
  occurrence of the element nearest the top and nothing else, and says whether there was one.
\<close>

theorem nr_stack_refines_list:
  assumes "vec_ptr_rel s xs"
  shows "nr_stack_get_top s = (if xs = [] then None else Some (last xs)) \<and>
    (\<exists>s'. nr_stack_push ok s x = Some s' \<and>
       (if ptr_has_room ok s then vec_ptr_rel s' (xs @ [x]) else s' = s)) \<and>
    (\<exists>s'. nr_stack_pop ok s = (if xs = [] then None else Some (last xs), s') \<and> vec_ptr_rel s' (butlast xs)) \<and>
    (\<exists>s'. nr_stack_remove_topmost ok s x = Some (x \<in> set xs, s') \<and> vec_ptr_rel s' (remove_last_occ x xs))"
proof (intro conjI)
  show "nr_stack_get_top s = (if xs = [] then None else Some (last xs))"
    using assms by (rule nr_stack_get_top_list)
  show "\<exists>s'. nr_stack_push ok s x = Some s' \<and>
      (if ptr_has_room ok s then vec_ptr_rel s' (xs @ [x]) else s' = s)"
    using assms by (rule nr_stack_push_list)
  show "\<exists>s'. nr_stack_pop ok s = (if xs = [] then None else Some (last xs), s') \<and> vec_ptr_rel s' (butlast xs)"
    using assms nr_stack_pop_list [of s] by (cases xs rule: rev_cases) auto
  show "\<exists>s'. nr_stack_remove_topmost ok s x = Some (x \<in> set xs, s') \<and> vec_ptr_rel s' (remove_last_occ x xs)"
    using vec.remove_topmost_law [OF assms, of x ok] assms
    by (auto simp: nr_stack_remove_topmost_def remove_last_occ_notin split: if_splits)
qed

theorem nr_stack_refines_list_witness:
  "vec_ptr_rel (Some (vec_of [1, 2, 1, 3 :: nat])) [1, 2, 1, 3] \<and>
   nr_stack_get_top (Some (vec_of [1, 2, 1, 3 :: nat])) = Some 3 \<and>
   (\<exists>s'. nr_stack_push (\<lambda>_. True) (Some (vec_of [1, 2, 1, 3 :: nat])) 1 = Some s' \<and>
      vec_ptr_rel s' [1, 2, 1, 3, 1]) \<and>
   (\<exists>s'. nr_stack_remove_topmost (\<lambda>_. True) (Some (vec_of [1, 2, 1, 3 :: nat])) 1 = Some (True, s') \<and>
      vec_ptr_rel s' [1, 2, 3])"
proof -
  have h: "vec_ptr_rel (Some (vec_of [1, 2, 1, 3 :: nat])) [1, 2, 1, 3]"
    by (simp add: vec_ptr_rel_def vec_rel_iff vec_of_rel)
  have r: "ptr_has_room (\<lambda>_. True) (Some (vec_of [1, 2, 1, 3 :: nat]))"
    by (simp add: ptr_has_room_def has_room_def vec_of_def)
  show ?thesis using h r nr_stack_refines_list [OF h, of "\<lambda>_. True" 1] by simp
qed

end
