(* ===== verification/World.thy ===== *)
theory World
  imports Config Metrics Attributes Distributed_Trace Stack
begin

text \<open>
  The memory of a process that uses the SDK: transactions (\<open>nrtxn_t\<close>), segments (\<open>nr_segment_t\<close>), the
  handles \<open>newrelic_txn_t\<close> and \<open>newrelic_segment_t\<close> that the API gives out, each kind in a map from
  addresses to records.

  Every operation takes the memory and returns its result with the new memory; \<open>None\<close> is undefined
  behaviour (following a NULL or freed pointer, a conversion outside its range) or a call that never
  returns (locking a lock that is held).  \<open>nr_get_time\<close> is the argument \<open>now\<close>.  The lists of children and
  the stacks of parents are lists, which the components of nr_segment_children.c and util_stack.c
  refine; an index into a string pool is a number, 0 for none.  The agent's own fields that the
  modelled code never reads are left out.
\<close>

section \<open>Types of nr_segment.h\<close>

datatype nr_segment_type_t = NR_SEGMENT_CUSTOM | NR_SEGMENT_DATASTORE | NR_SEGMENT_EXTERNAL

datatype nr_segment_color_t = NR_SEGMENT_WHITE | NR_SEGMENT_GREY

record nr_datastore_instance =
  ins_host :: "string option"
  ins_port_path_or_id :: "string option"
  ins_database_name :: "string option"

record nr_segment_datastore =
  sd_component :: "string option"
  sd_sql :: "string option"
  sd_sql_obfuscated :: "string option"
  sd_input_query_json :: "string option"
  sd_backtrace_json :: "string option"
  sd_explain_plan_json :: "string option"
  sd_instance :: nr_datastore_instance

record nr_segment_external =
  sx_transaction_guid :: "string option"
  sx_uri :: "string option"
  sx_library :: "string option"
  sx_procedure :: "string option"

text \<open>The union of the typed attributes; zeroed memory is \<open>No_attributes\<close>.\<close>

datatype nr_segment_typed_attributes =
  No_attributes | Datastore_attributes nr_segment_datastore | External_attributes nr_segment_external

record nr_segment_metric =
  sm_name :: string
  sm_scoped :: bool

record nr_segment =
  seg_type :: nr_segment_type_t
  seg_txn :: "nat option"
  seg_parent :: "nat option"
  seg_children :: "nat list"
  seg_color :: nr_segment_color_t
  seg_start_time :: nrtime_t
  seg_stop_time :: nrtime_t
  seg_name :: nat
  seg_async_context :: nat
  seg_id :: "string option"
  seg_metrics :: "nr_segment_metric list option"
  seg_priority :: uint32
  seg_typed_attributes :: nr_segment_typed_attributes

text \<open>A segment as the slab allocator returns it: zeroed memory.\<close>

definition zero_segment :: nr_segment where
  "zero_segment = \<lparr>seg_type = NR_SEGMENT_CUSTOM, seg_txn = None, seg_parent = None, seg_children = [],
     seg_color = NR_SEGMENT_WHITE, seg_start_time = 0, seg_stop_time = 0, seg_name = 0, seg_async_context = 0,
     seg_id = None, seg_metrics = None, seg_priority = 0, seg_typed_attributes = No_attributes\<rparr>"

section \<open>Types of nr_txn.h\<close>

datatype nr_path_type_t =
  NR_PATH_TYPE_UNKNOWN | NR_PATH_TYPE_URI | NR_PATH_TYPE_STATUS_CODE | NR_PATH_TYPE_ACTION
| NR_PATH_TYPE_FUNCTION | NR_PATH_TYPE_CUSTOM

fun path_type_number :: "nr_path_type_t \<Rightarrow> nat" where
  "path_type_number NR_PATH_TYPE_UNKNOWN = 0"
| "path_type_number NR_PATH_TYPE_URI = 1"
| "path_type_number NR_PATH_TYPE_STATUS_CODE = 2"
| "path_type_number NR_PATH_TYPE_ACTION = 3"
| "path_type_number NR_PATH_TYPE_FUNCTION = 4"
| "path_type_number NR_PATH_TYPE_CUSTOM = 5"

datatype nr_txn_assignment_t = NR_NOT_OK_TO_OVERWRITE | NR_OK_TO_OVERWRITE

record nrtxnstatus =
  st_path_is_frozen :: bool
  st_path_type :: nr_path_type_t
  st_ignore :: bool
  st_background :: bool
  st_recording :: bool
  st_complete :: bool

record nr_error =
  err_priority :: int
  err_when :: nrtime_t
  err_message :: string
  err_klass :: string
  err_stacktrace_json :: string

text \<open>The arguments of \<open>nr_slowsqls_add\<close> that the datastore segments give.\<close>

record nr_slowsqls_params =
  sq_sql :: "string option"
  sq_duration :: nrtime_t
  sq_metric_name :: string
  sq_instance :: nr_datastore_instance
  sq_instance_reporting_enabled :: bool
  sq_database_name_reporting_enabled :: bool

record nrtxn =
  tx_high_security :: bool
  tx_lasp :: bool
  tx_options :: nrtxnopt
  tx_status :: nrtxnstatus
  tx_default_parent_stack :: "nat list"
  tx_parent_stacks :: "nat \<Rightarrow> nat list option"
  tx_segment_count :: size_t
  tx_segment_root :: "nat option"
  tx_abs_start_time :: nrtime_t
  tx_error :: "nr_error option"
  tx_slowsqls :: "nr_slowsqls_params list"
  tx_datastore_products :: nrstrpool
  tx_trace_strings :: nrstrpool
  tx_scoped_metrics :: nrmtable
  tx_unscoped_metrics :: nrmtable
  tx_attributes :: nr_attributes
  tx_custom_events :: "nr_analytics_events option"
  tx_path :: "string option"
  tx_name :: "string option"
  tx_type :: uint32
  tx_app_connect_reply :: "nrobj option"
  tx_distributed_trace :: nr_distributed_trace

section \<open>Types of the API\<close>

datatype nr_datastore_t =
  NR_DATASTORE_OTHER | NR_DATASTORE_MONGODB | NR_DATASTORE_MEMCACHE | NR_DATASTORE_MYSQL | NR_DATASTORE_REDIS
| NR_DATASTORE_MSSQL | NR_DATASTORE_ORACLE | NR_DATASTORE_POSTGRES | NR_DATASTORE_SQLITE | NR_DATASTORE_FIREBIRD
| NR_DATASTORE_ODBC | NR_DATASTORE_SYBASE | NR_DATASTORE_INFORMIX | NR_DATASTORE_PDO | NR_DATASTORE_MUST_BE_LAST

text \<open>\<open>newrelic_txn_t\<close>: the transaction and whether its lock is held.\<close>

record newrelic_txn =
  nt_txn :: nat
  nt_locked :: bool

record datastore_fields =
  df_collection :: "string option"
  df_operation :: "string option"
  df_instance :: nr_datastore_instance
  df_type :: nr_datastore_t
  df_string :: "string option"
  df_sql :: "string option"

record external_fields =
  xf_uri :: "string option"
  xf_library :: "string option"
  xf_procedure :: "string option"

text \<open>The union inside \<open>newrelic_segment_t\<close>.\<close>

datatype segment_fields = No_fields | Datastore_fields datastore_fields | External_fields external_fields

record newrelic_segment =
  ns_segment :: "nat option"
  ns_transaction :: "nat option"
  ns_txn_lock :: "nat option"
  ns_type :: segment_fields

section \<open>Memory\<close>

record world =
  w_txns :: "nat \<Rightarrow> nrtxn option"
  w_segs :: "nat \<Rightarrow> nr_segment option"
  w_handles :: "nat \<Rightarrow> newrelic_txn option"
  w_wsegs :: "nat \<Rightarrow> newrelic_segment option"
  w_next :: nat
  w_guid_count :: nat
  w_sent :: "nrtxn list"

definition empty_world :: world where
  "empty_world = \<lparr>w_txns = \<lambda>_. None, w_segs = \<lambda>_. None, w_handles = \<lambda>_. None, w_wsegs = \<lambda>_. None, w_next = 0,
     w_guid_count = 0, w_sent = []\<rparr>"

text \<open>Reading and changing the record behind a pointer.\<close>

definition deref :: "('a \<Rightarrow> 'b option) \<Rightarrow> 'a option \<Rightarrow> 'b option" where
  "deref m p = (case p of None \<Rightarrow> None | Some a \<Rightarrow> m a)"

definition upd_txn :: "nat \<Rightarrow> (nrtxn \<Rightarrow> nrtxn) \<Rightarrow> world \<Rightarrow> world option" where
  "upd_txn t f w = map_option (\<lambda>x. w\<lparr>w_txns := (w_txns w)(t \<mapsto> f x)\<rparr>) (w_txns w t)"

definition upd_seg :: "nat \<Rightarrow> (nr_segment \<Rightarrow> nr_segment) \<Rightarrow> world \<Rightarrow> world option" where
  "upd_seg s f w = map_option (\<lambda>x. w\<lparr>w_segs := (w_segs w)(s \<mapsto> f x)\<rparr>) (w_segs w s)"

definition upd_handle :: "nat \<Rightarrow> (newrelic_txn \<Rightarrow> newrelic_txn) \<Rightarrow> world \<Rightarrow> world option" where
  "upd_handle h f w = map_option (\<lambda>x. w\<lparr>w_handles := (w_handles w)(h \<mapsto> f x)\<rparr>) (w_handles w h)"

definition upd_wseg :: "nat \<Rightarrow> (newrelic_segment \<Rightarrow> newrelic_segment) \<Rightarrow> world \<Rightarrow> world option" where
  "upd_wseg s f w = map_option (\<lambda>x. w\<lparr>w_wsegs := (w_wsegs w)(s \<mapsto> f x)\<rparr>) (w_wsegs w s)"

text \<open>The lock of a transaction handle; a NULL lock is refused by \<open>nrt_mutex_lock\<close> and nothing happens.\<close>

definition nrt_mutex_lock :: "nat option \<Rightarrow> world \<Rightarrow> world option" where
  "nrt_mutex_lock lock w =
     (case lock of None \<Rightarrow> Some w
      | Some h \<Rightarrow> (case w_handles w h of None \<Rightarrow> None
          | Some x \<Rightarrow> if nt_locked x then None else upd_handle h (\<lambda>x. x\<lparr>nt_locked := True\<rparr>) w))"

definition nrt_mutex_unlock :: "nat option \<Rightarrow> world \<Rightarrow> world option" where
  "nrt_mutex_unlock lock w =
     (case lock of None \<Rightarrow> Some w | Some h \<Rightarrow> upd_handle h (\<lambda>x. x\<lparr>nt_locked := False\<rparr>) w)"

section \<open>Metrics of a transaction\<close>

definition force_add_unscoped :: "nat \<Rightarrow> string \<Rightarrow> nrtime_t \<Rightarrow> world \<Rightarrow> world option" where
  "force_add_unscoped t name duration w = do {
     x \<leftarrow> w_txns w t;
     table \<leftarrow> nrm_force_add (tx_unscoped_metrics x) (Some name) duration;
     upd_txn t (\<lambda>x. x\<lparr>tx_unscoped_metrics := table\<rparr>) w
   }"

definition nr_txn_force_single_count :: "nat option \<Rightarrow> string option \<Rightarrow> world \<Rightarrow> world option" where
  "nr_txn_force_single_count txn name w =
     (case (txn, name) of (Some t, Some n) \<Rightarrow> force_add_unscoped t n 0 w | _ \<Rightarrow> Some w)"

text \<open>\<open>newrelic_add_api_supportability_metric\<close> of global.c.\<close>

definition newrelic_add_api_supportability_metric :: "nat option \<Rightarrow> string option \<Rightarrow> world \<Rightarrow> world option" where
  "newrelic_add_api_supportability_metric txn name w =
     (case (txn, name) of (Some t, Some n) \<Rightarrow> force_add_unscoped t (''Supportability/C/api/'' @ n) 0 w | _ \<Rightarrow> Some w)"

end
