(* ===== verification/MinMax_Heap.thy ===== *)
theory MinMax_Heap
  imports Sorting
begin

text \<open>
  util_minmax_heap.c: a bounded priority queue that gives both its least and its greatest element,
  used to keep the slowest segments and the highest-priority events.  The array is indexed from 1;
  the children of node \<open>i\<close> are \<open>2 i\<close> and \<open>2 i + 1\<close>, and levels alternate between minimum levels
  (even depth) and maximum levels.

  A \<open>void*\<close> value is an \<open>option\<close> (\<open>None\<close> is NULL).  Indices, sizes and the bound are natural
  numbers: the code keeps them non-negative and \<open>nr_minmax_heap_create\<close>, whose bound argument is
  signed, refuses negative ones; the index -1 of \<open>index_minmax_child_grandchild\<close> is \<open>None\<close>.
  The C type is \<open>ssize_t\<close>, so the model is exact as long as no index or size passes $2^{63} - 1$:
  \<open>bound + 1\<close> in \<open>nr_minmax_heap_create\<close>, the doubled capacity in \<open>nr_minmax_heap_insert\<close> and the
  products of \<open>first_child\<close> and \<open>second_child\<close> would overflow only for arrays that no allocation can
  provide, and a failed allocation ends the process.  The test \<open>n < 0\<close> of \<open>is_min\<close> has no
  counterpart on natural numbers.
  Destructor and user data are a state transformer and its state.
\<close>

section \<open>State\<close>

record 'v nr_minmax_heap_element =
  el_used :: bool
  el_value :: "'v option"

record ('v, 'u) nr_minmax_heap =
  hp_bound :: nat
  hp_capacity :: nat
  hp_used :: nat
  hp_elements :: "'v nr_minmax_heap_element list"
  hp_comparator :: "'v option comparator"
  hp_destructor :: "('v option \<Rightarrow> 'u \<Rightarrow> 'u) option"
  hp_destructor_userdata :: 'u

datatype compare_t = COMPARE_LESS_THAN | COMPARE_GREATER_THAN | COMPARE_EQUAL

definition NR_MINMAX_HEAP_CHUNK_SIZE :: nat where
  "NR_MINMAX_HEAP_CHUNK_SIZE = 64"

section \<open>Index helpers and internal operations\<close>

text \<open>util_math.h: the number of times the argument can be halved before it reaches 0 or 1.\<close>

fun nr_log2_64 :: "nat \<Rightarrow> nat" where
  "nr_log2_64 n = (if n < 2 then 0 else Suc (nr_log2_64 (n div 2)))"

declare nr_log2_64.simps [simp del]

definition is_min :: "nat \<Rightarrow> bool" where
  "is_min n = (nr_log2_64 n mod 2 = 0)"

definition parent :: "nat \<Rightarrow> nat" where
  "parent n = n div 2"

definition first_child :: "nat \<Rightarrow> nat" where
  "first_child n = n * 2"

definition second_child :: "nat \<Rightarrow> nat" where
  "second_child n = (n * 2) + 1"

definition heap_compare :: "('v, 'u) nr_minmax_heap \<Rightarrow> nat \<Rightarrow> nat \<Rightarrow> int" where
  "heap_compare heap i j = hp_comparator heap (el_value (hp_elements heap ! i)) (el_value (hp_elements heap ! j))"

definition compare_expect :: "('v, 'u) nr_minmax_heap \<Rightarrow> nat \<Rightarrow> nat \<Rightarrow> compare_t \<Rightarrow> bool" where
  "compare_expect heap i j op =
     (let result = heap_compare heap i j in
      case op of COMPARE_LESS_THAN \<Rightarrow> result < 0 | COMPARE_GREATER_THAN \<Rightarrow> result > 0 | COMPARE_EQUAL \<Rightarrow> result = 0)"

definition heap_swap :: "('v, 'u) nr_minmax_heap \<Rightarrow> nat \<Rightarrow> nat \<Rightarrow> ('v, 'u) nr_minmax_heap" where
  "heap_swap heap i j =
     (let tmp = hp_elements heap ! i in
      heap\<lparr>hp_elements := (hp_elements heap)[i := hp_elements heap ! j, j := tmp]\<rparr>)"

function bubbleup_minmax :: "('v, 'u) nr_minmax_heap \<Rightarrow> nat \<Rightarrow> compare_t \<Rightarrow> ('v, 'u) nr_minmax_heap" where
  "bubbleup_minmax heap i op =
     (let grandparent = parent (parent i) in
      if grandparent = 0 then heap
      else if compare_expect heap i grandparent op
      then bubbleup_minmax (heap_swap heap i grandparent) grandparent op
      else heap)"
  by pat_completeness auto
termination
  by (relation "measure (\<lambda>(heap, i, op). i)") (auto simp: parent_def)

declare bubbleup_minmax.simps [simp del]

definition bubbleup_min :: "('v, 'u) nr_minmax_heap \<Rightarrow> nat \<Rightarrow> ('v, 'u) nr_minmax_heap" where
  "bubbleup_min heap i = bubbleup_minmax heap i COMPARE_LESS_THAN"

definition bubbleup_max :: "('v, 'u) nr_minmax_heap \<Rightarrow> nat \<Rightarrow> ('v, 'u) nr_minmax_heap" where
  "bubbleup_max heap i = bubbleup_minmax heap i COMPARE_GREATER_THAN"

definition bubbleup :: "('v, 'u) nr_minmax_heap \<Rightarrow> nat \<Rightarrow> ('v, 'u) nr_minmax_heap" where
  "bubbleup heap i =
     (let p = parent i in
      if p = 0 then heap
      else if is_min i
      then if heap_compare heap i p > 0 then bubbleup_max (heap_swap heap i p) p else bubbleup_min heap i
      else if heap_compare heap i p < 0 then bubbleup_min (heap_swap heap i p) p else bubbleup_max heap i)"

text \<open>One of the five conditional updates of \<open>idx\<close> in \<open>index_minmax_child_grandchild\<close>.\<close>

definition better_index :: "('v, 'u) nr_minmax_heap \<Rightarrow> compare_t \<Rightarrow> nat \<Rightarrow> nat option \<Rightarrow> nat option" where
  "better_index heap op j idx = (if j \<le> hp_used heap \<and> compare_expect heap j (the idx) op then Some j else idx)"

definition index_minmax_child_grandchild :: "('v, 'u) nr_minmax_heap \<Rightarrow> nat \<Rightarrow> compare_t \<Rightarrow> nat option" where
  "index_minmax_child_grandchild heap i op =
     (let a = first_child i; b = second_child i;
          c = first_child a; d = second_child a; e = first_child b; f = second_child b;
          idx = (if a \<le> hp_used heap then Some a else None);
          idx = better_index heap op b idx;
          idx = better_index heap op c idx;
          idx = better_index heap op d idx;
          idx = better_index heap op e idx
      in better_index heap op f idx)"

lemma heap_swap_simps [simp]:
  "hp_used (heap_swap heap i j) = hp_used heap" "hp_bound (heap_swap heap i j) = hp_bound heap"
  "hp_capacity (heap_swap heap i j) = hp_capacity heap" "hp_comparator (heap_swap heap i j) = hp_comparator heap"
  "hp_destructor (heap_swap heap i j) = hp_destructor heap"
  "hp_destructor_userdata (heap_swap heap i j) = hp_destructor_userdata heap"
  "length (hp_elements (heap_swap heap i j)) = length (hp_elements heap)"
  by (simp_all add: heap_swap_def Let_def)

lemma index_minmax_child_grandchild_mem:
  assumes "index_minmax_child_grandchild heap i op = Some m"
  shows "m \<in> {2 * i, 2 * i + 1, 4 * i, 4 * i + 1, 4 * i + 2, 4 * i + 3}" "m \<le> hp_used heap"
  using assms
  by (auto simp: index_minmax_child_grandchild_def better_index_def Let_def first_child_def second_child_def
      split: if_splits)

function trickledown_minmax :: "('v, 'u) nr_minmax_heap \<Rightarrow> nat \<Rightarrow> compare_t \<Rightarrow> ('v, 'u) nr_minmax_heap" where
  "trickledown_minmax heap i op =
     (case index_minmax_child_grandchild heap i op of
        None \<Rightarrow> heap
      | Some m \<Rightarrow>
          if m > second_child i
          then if compare_expect heap m i op
               then let heap = heap_swap heap i m;
                        heap = (if \<not> compare_expect heap m (parent m) op then heap_swap heap m (parent m) else heap)
                    in trickledown_minmax heap m op
               else heap
          else if compare_expect heap m i op then heap_swap heap i m else heap)"
  by pat_completeness auto
termination
  by (relation "measure (\<lambda>(heap, i, op). hp_used heap - i)")
    (auto simp: second_child_def dest: index_minmax_child_grandchild_mem(2))

declare trickledown_minmax.simps [simp del]

definition trickledown_max :: "('v, 'u) nr_minmax_heap \<Rightarrow> nat \<Rightarrow> ('v, 'u) nr_minmax_heap" where
  "trickledown_max heap i = trickledown_minmax heap i COMPARE_GREATER_THAN"

definition trickledown_min :: "('v, 'u) nr_minmax_heap \<Rightarrow> nat \<Rightarrow> ('v, 'u) nr_minmax_heap" where
  "trickledown_min heap i = trickledown_minmax heap i COMPARE_LESS_THAN"

definition trickledown :: "('v, 'u) nr_minmax_heap \<Rightarrow> nat \<Rightarrow> ('v, 'u) nr_minmax_heap" where
  "trickledown heap i = (if is_min i then trickledown_min heap i else trickledown_max heap i)"

section \<open>Public operations\<close>

definition zero_element :: "'v nr_minmax_heap_element" where
  "zero_element = \<lparr>el_used = False, el_value = None\<rparr>"

definition nr_minmax_heap_create ::
  "int \<Rightarrow> 'v option comparator option \<Rightarrow> ('v option \<Rightarrow> 'u \<Rightarrow> 'u) option \<Rightarrow> 'u \<Rightarrow> ('v, 'u) nr_minmax_heap option" where
  "nr_minmax_heap_create bound comparator destructor destructor_userdata =
     (case comparator of None \<Rightarrow> None
      | Some c \<Rightarrow>
          if bound = 1 \<or> bound < 0 then None
          else let cap = (if bound > 0 then nat bound + 1 else NR_MINMAX_HEAP_CHUNK_SIZE)
               in Some \<lparr>hp_bound = nat bound, hp_capacity = cap, hp_used = 0,
                        hp_elements = replicate cap zero_element, hp_comparator = c,
                        hp_destructor = destructor, hp_destructor_userdata = destructor_userdata\<rparr>)"

text \<open>
  Calling the destructor, if there is one, on a value: in \<open>nr_minmax_heap_destroy\<close> for every used cell,
  in \<open>nr_minmax_heap_insert\<close> for the value turned away or pushed out.
\<close>

definition heap_destroy_value :: "('v, 'u) nr_minmax_heap \<Rightarrow> 'v option \<Rightarrow> ('v, 'u) nr_minmax_heap" where
  "heap_destroy_value heap v =
     (case hp_destructor heap of None \<Rightarrow> heap
      | Some d \<Rightarrow> heap\<lparr>hp_destructor_userdata := d v (hp_destructor_userdata heap)\<rparr>)"

text \<open>The pointer is NULL afterwards; the second result is the user data the destructors leave.\<close>

definition nr_minmax_heap_destroy ::
  "('v, 'u) nr_minmax_heap option option \<Rightarrow> ('v, 'u) nr_minmax_heap option option \<times> 'u option" where
  "nr_minmax_heap_destroy heap_ptr =
     (case heap_ptr of None \<Rightarrow> (None, None) | Some None \<Rightarrow> (Some None, None)
      | Some (Some heap) \<Rightarrow>
          (Some None,
           Some (hp_destructor_userdata
             (fold (\<lambda>e h. if el_used e then heap_destroy_value h (el_value e) else h)
                (take (Suc (hp_used heap)) (hp_elements heap)) heap))))"

definition nr_minmax_heap_bound :: "('v, 'u) nr_minmax_heap option \<Rightarrow> nat" where
  "nr_minmax_heap_bound heap = (case heap of None \<Rightarrow> 0 | Some h \<Rightarrow> hp_bound h)"

definition nr_minmax_heap_capacity :: "('v, 'u) nr_minmax_heap option \<Rightarrow> nat" where
  "nr_minmax_heap_capacity heap = (case heap of None \<Rightarrow> 0 | Some h \<Rightarrow> hp_capacity h)"

definition nr_minmax_heap_size :: "('v, 'u) nr_minmax_heap option \<Rightarrow> nat" where
  "nr_minmax_heap_size heap = (case heap of None \<Rightarrow> 0 | Some h \<Rightarrow> hp_used h)"

definition nr_minmax_heap_pop_min :: "('v, 'u) nr_minmax_heap option \<Rightarrow> 'v option \<times> ('v, 'u) nr_minmax_heap option" where
  "nr_minmax_heap_pop_min hp =
     (case hp of None \<Rightarrow> (None, None)
      | Some heap \<Rightarrow>
          if hp_used heap = 0 then (None, hp)
          else if hp_used heap = 1
          then (el_value (hp_elements heap ! 1),
                Some (heap\<lparr>hp_used := 0, hp_elements := (hp_elements heap)[1 := (hp_elements heap ! 1)\<lparr>el_used := False\<rparr>]\<rparr>))
          else let u = hp_used heap;
                   v = el_value (hp_elements heap ! 1);
                   es = (hp_elements heap)[1 := hp_elements heap ! u];
                   es = es[u := (es ! u)\<lparr>el_used := False\<rparr>]
               in (v, Some (trickledown (heap\<lparr>hp_elements := es, hp_used := u - 1\<rparr>) 1)))"

definition nr_minmax_heap_pop_max :: "('v, 'u) nr_minmax_heap option \<Rightarrow> 'v option \<times> ('v, 'u) nr_minmax_heap option" where
  "nr_minmax_heap_pop_max hp =
     (case hp of None \<Rightarrow> (None, None)
      | Some heap \<Rightarrow>
          if hp_used heap = 0 then (None, hp)
          else if hp_used heap \<le> 2
          then let idx = hp_used heap
               in (el_value (hp_elements heap ! idx),
                   Some (heap\<lparr>hp_used := hp_used heap - 1,
                     hp_elements := (hp_elements heap)[idx := (hp_elements heap ! idx)\<lparr>el_used := False\<rparr>]\<rparr>))
          else let idx = (if heap_compare heap 2 3 < 0 then 3 else 2);
                   u = hp_used heap;
                   v = el_value (hp_elements heap ! idx);
                   es = (hp_elements heap)[idx := hp_elements heap ! u];
                   es = es[u := (es ! u)\<lparr>el_used := False\<rparr>]
               in (v, Some (trickledown (heap\<lparr>hp_elements := es, hp_used := u - 1\<rparr>) idx)))"

definition nr_minmax_heap_peek_min :: "('v, 'u) nr_minmax_heap option \<Rightarrow> 'v option" where
  "nr_minmax_heap_peek_min hp =
     (case hp of None \<Rightarrow> None
      | Some heap \<Rightarrow> if hp_used heap = 0 then None else el_value (hp_elements heap ! 1))"

definition nr_minmax_heap_peek_max :: "('v, 'u) nr_minmax_heap option \<Rightarrow> 'v option" where
  "nr_minmax_heap_peek_max hp =
     (case hp of None \<Rightarrow> None
      | Some heap \<Rightarrow>
          if hp_used heap = 0 then None
          else if hp_used heap = 1 then el_value (hp_elements heap ! 1)
          else if hp_used heap = 2 then el_value (hp_elements heap ! 2)
          else if heap_compare heap 2 3 > 0 then el_value (hp_elements heap ! 2)
          else el_value (hp_elements heap ! 3))"

text \<open>The growth step and the insertion proper, the second half of \<open>nr_minmax_heap_insert\<close>.\<close>

definition heap_grow :: "('v, 'u) nr_minmax_heap \<Rightarrow> ('v, 'u) nr_minmax_heap" where
  "heap_grow heap =
     (if hp_used heap + 1 \<ge> hp_capacity heap
      then heap\<lparr>hp_capacity := hp_capacity heap * 2,
                hp_elements := hp_elements heap @ replicate (hp_capacity heap * 2 - hp_capacity heap) zero_element\<rparr>
      else heap)"

definition heap_add :: "('v, 'u) nr_minmax_heap \<Rightarrow> 'v option \<Rightarrow> ('v, 'u) nr_minmax_heap" where
  "heap_add heap value =
     (let u = hp_used heap + 1
      in bubbleup (heap\<lparr>hp_used := u, hp_elements := (hp_elements heap)[u := \<lparr>el_used = True, el_value = value\<rparr>]\<rparr>) u)"

definition nr_minmax_heap_insert ::
  "('v, 'u) nr_minmax_heap option \<Rightarrow> 'v option \<Rightarrow> ('v, 'u) nr_minmax_heap option" where
  "nr_minmax_heap_insert hp value =
     (case hp of None \<Rightarrow> None
      | Some heap \<Rightarrow>
          if hp_bound heap \<noteq> 0 \<and> hp_used heap \<ge> hp_bound heap
          then if hp_comparator heap (nr_minmax_heap_peek_min hp) value > 0
               then Some (heap_destroy_value heap value)
               else (case nr_minmax_heap_pop_min hp of
                       (least, Some heap) \<Rightarrow> Some (heap_add (heap_grow (heap_destroy_value heap least)) value)
                     | (least, None) \<Rightarrow> None)
          else Some (heap_add (heap_grow heap) value))"

definition nr_minmax_heap_iterate ::
  "('v, 'u) nr_minmax_heap option \<Rightarrow> ('v option \<Rightarrow> 's \<Rightarrow> 's) option \<Rightarrow> 's \<Rightarrow> 's" where
  "nr_minmax_heap_iterate hp callback userdata =
     (case (hp, callback) of
        (Some heap, Some f) \<Rightarrow>
          fold (\<lambda>e s. if el_used e then f (el_value e) s else s) (take (Suc (hp_used heap)) (hp_elements heap)) userdata
      | _ \<Rightarrow> userdata)"

end
