(* ===== verification/MinMax_Order.thy ===== *)
theory MinMax_Order
  imports MinMax_Heap
begin

text \<open>
  The order theory of min-max heaps, over arrays as functions from indices.  A node is compared
  with its parent and its grandparent only; \<open>lv r i\<close> is the order \<open>r\<close> seen from the level of node
  \<open>i\<close> (reversed on maximum levels), so that one statement covers both kinds of level, as the
  functions \<open>bubbleup_minmax\<close> and \<open>trickledown_minmax\<close> do with their comparison argument.  The
  locale \<open>total_preorder\<close> holds what the comparator must satisfy.
\<close>

section \<open>Levels\<close>

lemma nr_log2_64_double: "1 \<le> i \<Longrightarrow> nr_log2_64 (2 * i + k) = Suc (nr_log2_64 i)" if "k < 2"
  using that by (subst nr_log2_64.simps) auto

lemma is_min_div2: "2 \<le> j \<Longrightarrow> is_min (j div 2) \<longleftrightarrow> \<not> is_min j"
  using nr_log2_64_double [of "j mod 2" "j div 2"] by (simp add: is_min_def) presburger

lemma is_min_div4: "4 \<le> j \<Longrightarrow> is_min (j div 4) \<longleftrightarrow> is_min j"
  using is_min_div2 [of j] is_min_div2 [of "j div 2"] by (simp add: div_mult2_eq [symmetric])

lemma is_min_small: "is_min 0" "is_min 1" "\<not> is_min 2" "\<not> is_min 3"
  by (simp_all add: is_min_def nr_log2_64.simps)

definition lv :: "('p \<Rightarrow> 'p \<Rightarrow> bool) \<Rightarrow> nat \<Rightarrow> 'p \<Rightarrow> 'p \<Rightarrow> bool" where
  "lv r i x y = (if is_min i then r x y else r y x)"

lemma lv_child: "1 \<le> i \<Longrightarrow> j div 2 = i \<Longrightarrow> lv r j x y = lv r i y x"
  using is_min_div2 [of j] by (auto simp: lv_def)

lemma lv_grandchild: "1 \<le> i \<Longrightarrow> j div 4 = i \<Longrightarrow> lv r j x y = lv r i x y"
  using is_min_div4 [of j] by (auto simp: lv_def)

lemma lv_child_fun: "1 \<le> i \<Longrightarrow> j div 2 = i \<Longrightarrow> lv r j = (\<lambda>x y. lv r i y x)"
  by (intro ext lv_child)

lemma lv_grandchild_fun: "1 \<le> i \<Longrightarrow> j div 4 = i \<Longrightarrow> lv r j = lv r i"
  by (intro ext lv_grandchild)

definition pedge :: "('p \<Rightarrow> 'p \<Rightarrow> bool) \<Rightarrow> (nat \<Rightarrow> 'p) \<Rightarrow> nat \<Rightarrow> bool" where
  "pedge r A j \<longleftrightarrow> (2 \<le> j \<longrightarrow> lv r j (A j) (A (j div 2)))"

definition gedge :: "('p \<Rightarrow> 'p \<Rightarrow> bool) \<Rightarrow> (nat \<Rightarrow> 'p) \<Rightarrow> nat \<Rightarrow> bool" where
  "gedge r A j \<longleftrightarrow> (4 \<le> j \<longrightarrow> lv r j (A (j div 4)) (A j))"

definition mm_heap :: "('p \<Rightarrow> 'p \<Rightarrow> bool) \<Rightarrow> (nat \<Rightarrow> 'p) \<Rightarrow> nat \<Rightarrow> bool" where
  "mm_heap r A n \<longleftrightarrow> (\<forall>j. 1 \<le> j \<and> j \<le> n \<longrightarrow> pedge r A j \<and> gedge r A j)"

definition near_below :: "nat \<Rightarrow> nat \<Rightarrow> bool" where
  "near_below i c \<longleftrightarrow> c div 2 = i \<or> c div 4 = i"

definition up_inv :: "('p \<Rightarrow> 'p \<Rightarrow> bool) \<Rightarrow> (nat \<Rightarrow> 'p) \<Rightarrow> nat \<Rightarrow> nat \<Rightarrow> bool" where
  "up_inv r A n i \<longleftrightarrow>
     (\<forall>j. 1 \<le> j \<and> j \<le> n \<longrightarrow> pedge r A j \<and> (j \<noteq> i \<longrightarrow> gedge r A j)) \<and>
     (4 \<le> i \<longrightarrow> (\<forall>c. c \<le> n \<and> near_below i c \<longrightarrow> lv r i (A (i div 4)) (A c)))"

text \<open>Every edge that does not start at \<open>i\<close> holds, and what is below \<open>i\<close> respects what is above it.\<close>

definition down_inv :: "('p \<Rightarrow> 'p \<Rightarrow> bool) \<Rightarrow> (nat \<Rightarrow> 'p) \<Rightarrow> nat \<Rightarrow> nat \<Rightarrow> bool" where
  "down_inv r A n i \<longleftrightarrow>
     (\<forall>j. 1 \<le> j \<and> j \<le> n \<longrightarrow> (j div 2 \<noteq> i \<longrightarrow> pedge r A j) \<and> (j div 4 \<noteq> i \<longrightarrow> gedge r A j)) \<and>
     (\<forall>c. c \<le> n \<and> near_below i c \<longrightarrow>
        (4 \<le> i \<longrightarrow> lv r i (A (i div 4)) (A c)) \<and> (2 \<le> i \<longrightarrow> lv r i (A c) (A (i div 2))))"

definition swp :: "(nat \<Rightarrow> 'p) \<Rightarrow> nat \<Rightarrow> nat \<Rightarrow> nat \<Rightarrow> 'p" where
  "swp A i j = A(i := A j, j := A i)"

text \<open>\<open>m\<close> is a least child or grandchild of \<open>i\<close>, seen from the level of \<open>i\<close>, and beats \<open>i\<close>.\<close>

definition picks :: "('p \<Rightarrow> 'p \<Rightarrow> bool) \<Rightarrow> (nat \<Rightarrow> 'p) \<Rightarrow> nat \<Rightarrow> nat \<Rightarrow> nat \<Rightarrow> bool" where
  "picks r A n i m \<longleftrightarrow> 1 \<le> i \<and> m \<le> n \<and> near_below i m \<and>
     (\<forall>c. c \<le> n \<and> near_below i c \<longrightarrow> lv r i (A m) (A c)) \<and> \<not> lv r i (A i) (A m)"

text \<open>
  The two swaps of the grandchild case: \<open>i\<close> with \<open>m\<close>, and then \<open>m\<close> with its parent when the
  element that came down does not belong below it.
\<close>

definition grand_swap :: "('p \<Rightarrow> 'p \<Rightarrow> bool) \<Rightarrow> (nat \<Rightarrow> 'p) \<Rightarrow> nat \<Rightarrow> nat \<Rightarrow> nat \<Rightarrow> 'p" where
  "grand_swap r A i m =
     (if lv r i (A (m div 2)) (A i) then swp (swp A i m) m (m div 2) else swp A i m)"

locale total_preorder =
  fixes r :: "'p \<Rightarrow> 'p \<Rightarrow> bool"
  assumes r_total: "r x y \<or> r y x"
    and r_trans: "r x y \<Longrightarrow> r y z \<Longrightarrow> r x z"
begin

lemma lv_total: "lv r i x y \<or> lv r i y x"
  using r_total by (auto simp: lv_def)

lemma lv_refl: "lv r i x x"
  using lv_total [of i x x] by simp

lemma lv_trans: "lv r i x y \<Longrightarrow> lv r i y z \<Longrightarrow> lv r i x z"
  using r_trans [of x y z] r_trans [of z y x] by (auto simp: lv_def split: if_splits)

section \<open>Bubbling up\<close>

lemma up_inv_done:
  assumes "up_inv r A n i" "4 \<le> i \<Longrightarrow> lv r i (A (i div 4)) (A i)"
  shows "mm_heap r A n"
  using assms by (auto simp: up_inv_def mm_heap_def gedge_def)

lemma up_inv_step:
  assumes inv: "up_inv r A n i" and i: "4 \<le> i" "i \<le> n" and bad: "\<not> lv r i (A (i div 4)) (A i)"
  shows "up_inv r (swp A i (i div 4)) n (i div 4)"
proof -
  define g where "g = i div 4"
  let ?R = "lv r i" and ?B = "swp A i g"
  have g: "1 \<le> g" "g < i" "i div 2 \<noteq> g" "i div 2 \<noteq> i" "i div 2 div 2 = g" "g div 2 \<noteq> g" "g div 4 \<noteq> g" "g div 2 \<noteq> i" "g div 4 \<noteq> i"
    using i by (auto simp: g_def)
  have Rg: "lv r g = ?R" by (rule lv_grandchild_fun [OF g(1) g_def [symmetric], symmetric])
  have xy: "?R (A i) (A g)" using bad lv_total by (auto simp: g_def)
  have ped: "pedge r A j" if "1 \<le> j" "j \<le> n" for j using inv that by (auto simp: up_inv_def)
  have ged: "gedge r A j" if "1 \<le> j" "j \<le> n" "j \<noteq> i" for j using inv that by (auto simp: up_inv_def)
  have below: "?R (A g) (A c)" if "c \<le> n" "near_below i c" for c
    using inv i that by (auto simp: up_inv_def g_def)
  have g_child: "?R (A g) (A j)" if "j div 2 = g" "j \<le> n" for j
    using ped [of j] that g lv_child_fun [of g j r] Rg by (auto simp: pedge_def)
  have g_grandchild: "?R (A g) (A j)" if "j div 4 = g" "j \<le> n" "j \<noteq> i" for j
    using ged [of j] that g lv_grandchild_fun [of g j r] Rg by (auto simp: gedge_def)
  have Bi: "?B i = A g" "?B g = A i" using g by (auto simp: swp_def)
  have Bj: "?B j = A j" if "j \<noteq> i" "j \<noteq> g" for j using that by (auto simp: swp_def)
  have pB: "pedge r ?B j" if j: "1 \<le> j" "j \<le> n" for j
    unfolding pedge_def
  proof
    assume j2: "2 \<le> j"
    have old: "lv r j (A j) (A (j div 2))" using ped [OF j] j2 by (simp add: pedge_def)
    consider "j = i" | "j = g" | "j div 2 = i" | "j div 2 = g" | "j \<noteq> i" "j \<noteq> g" "j div 2 \<noteq> i" "j div 2 \<noteq> g"
      by blast
    then show "lv r j (?B j) (?B (j div 2))"
    proof cases
      case 1
      then show ?thesis using Bi Bj g_child [of "i div 2"] g i by simp
    next
      case 2
      then show ?thesis using Bi Bj [of "g div 2"] old g Rg lv_trans [OF xy] by simp
    next
      case 3
      have "lv r j = (\<lambda>x y. ?R y x)" using i 3 by (intro lv_child_fun) auto
      moreover have "?R (A g) (A j)" using 3 j by (intro below) (auto simp: near_below_def)
      moreover have "j \<noteq> i" "j \<noteq> g" using 3 g by auto
      ultimately show ?thesis using Bi Bj 3 by simp
    next
      case 4
      have "lv r j = (\<lambda>x y. ?R y x)" using lv_child_fun [OF g(1) 4, of r] Rg by simp
      moreover have "?R (A i) (A j)" using lv_trans [OF xy g_child [OF 4 j(2)]] .
      moreover have "j \<noteq> i" "j \<noteq> g" using 4 g by auto
      ultimately show ?thesis using Bi Bj 4 by simp
    next
      case 5
      then show ?thesis using Bj old by simp
    qed
  qed
  have gB: "gedge r ?B j" if j: "1 \<le> j" "j \<le> n" "j \<noteq> g" for j
    unfolding gedge_def
  proof
    assume j4: "4 \<le> j"
    consider "j = i" | "j div 4 = i" | "j div 4 = g" "j \<noteq> i" | "j \<noteq> i" "j div 4 \<noteq> i" "j div 4 \<noteq> g" by blast
    then show "lv r j (?B (j div 4)) (?B j)"
    proof cases
      case 1
      then show ?thesis using Bi xy by (simp add: g_def)
    next
      case 2
      have "lv r j = ?R" using i 2 by (intro lv_grandchild_fun) auto
      moreover have "?R (A g) (A j)" using 2 j by (intro below) (auto simp: near_below_def)
      moreover have "j \<noteq> i" using 2 g by auto
      ultimately show ?thesis using Bi Bj j 2 by simp
    next
      case 3
      have "lv r j = ?R" using lv_grandchild_fun [OF g(1) 3(1), of r] Rg by simp
      moreover have "?R (A i) (A j)" using lv_trans [OF xy g_grandchild [OF 3(1) j(2) 3(2)]] .
      ultimately show ?thesis using Bi Bj 3 j by simp
    next
      case 4
      then show ?thesis using Bj j ged [of j] j4 by (simp add: gedge_def)
    qed
  qed
  have "lv r g (?B (g div 4)) (?B c)" if g4: "4 \<le> g" and c: "c \<le> n" "near_below g c" for c
  proof -
    have up: "?R (A (g div 4)) (A g)" using ged [of g] g i g4 Rg by (auto simp: gedge_def)
    have "?R (A (g div 4)) (?B c)"
    proof (cases "c = i")
      case True
      then show ?thesis using up Bi by simp
    next
      case False
      then have "?R (A g) (A c)" using c g_child [of c] g_grandchild [of c] by (auto simp: near_below_def)
      moreover have "c \<noteq> g" using c(2) g by (auto simp: near_below_def)
      ultimately show ?thesis using up Bj [OF False] lv_trans by simp
    qed
    then show ?thesis using Bj [of "g div 4"] g Rg by simp
  qed
  with pB gB show ?thesis by (simp add: up_inv_def g_def [symmetric])
qed

section \<open>Trickling down\<close>

lemma down_inv_done:
  assumes inv: "down_inv r A n i" and "1 \<le> i"
    and le: "\<And>c. c \<le> n \<Longrightarrow> near_below i c \<Longrightarrow> lv r i (A i) (A c)"
  shows "mm_heap r A n"
  unfolding mm_heap_def
proof (intro allI impI conjI)
  fix j assume j: "1 \<le> j \<and> j \<le> n"
  show "pedge r A j"
  proof (cases "j div 2 = i")
    case True
    with le [of j] j show ?thesis
      by (simp add: pedge_def lv_child [OF \<open>1 \<le> i\<close> True] near_below_def)
  qed (use inv j in \<open>simp add: down_inv_def\<close>)
  show "gedge r A j"
  proof (cases "j div 4 = i")
    case True
    with le [of j] j show ?thesis
      by (simp add: gedge_def lv_grandchild [OF \<open>1 \<le> i\<close> True] near_below_def)
  qed (use inv j in \<open>simp add: down_inv_def\<close>)
qed

lemma picks_swapped: "picks r A n i m \<Longrightarrow> lv r i (A m) (A i)"
  using lv_total by (auto simp: picks_def)

lemma down_child_step:
  assumes inv: "down_inv r A n i" and pick: "picks r A n i m" and m: "m div 2 = i"
  shows "mm_heap r (swp A i m) n"
  unfolding mm_heap_def
proof (intro allI impI)
  let ?R = "lv r i" and ?B = "swp A i m"
  have i: "1 \<le> i" "m \<le> n" and min: "\<And>c. c \<le> n \<Longrightarrow> near_below i c \<Longrightarrow> ?R (A m) (A c)"
    using pick by (auto simp: picks_def)
  have mi: "m \<noteq> i" "1 \<le> m" "2 \<le> m" "i < m" using m i by auto
  have vx: "?R (A m) (A i)" by (rule picks_swapped [OF pick])
  have Rm: "lv r m = (\<lambda>x y. ?R y x)" by (rule lv_child_fun [OF i(1) m])
  have nm: "near_below i m" using m by (simp add: near_below_def)
  have Bi: "?B i = A m" "?B m = A i" and Bj: "\<And>j. j \<noteq> i \<Longrightarrow> j \<noteq> m \<Longrightarrow> ?B j = A j" using mi by (auto simp: swp_def)
  have above: "4 \<le> i \<Longrightarrow> ?R (A (i div 4)) (A m)" "2 \<le> i \<Longrightarrow> ?R (A m) (A (i div 2))"
    using inv i nm by (auto simp: down_inv_def)
  fix j assume j: "1 \<le> j \<and> j \<le> n"
  have ped: "j div 2 \<noteq> i \<Longrightarrow> pedge r A j" and ged: "j div 4 \<noteq> i \<Longrightarrow> gedge r A j"
    using inv j by (auto simp: down_inv_def)
  have "lv r j (?B j) (?B (j div 2))" if j2: "2 \<le> j"
  proof -
    consider "j = i" | "j = m" | "j div 2 = i" "j \<noteq> m" | "j div 2 = m"
      | "j \<noteq> i" "j \<noteq> m" "j div 2 \<noteq> i" "j div 2 \<noteq> m" by blast
    then show ?thesis
    proof cases
      case 1
      have "i div 2 \<noteq> i" "i div 2 \<noteq> m" using i mi by auto
      with 1 j2 show ?thesis by (simp add: Bi Bj above)
    next
      case 2
      then show ?thesis by (simp add: Bi m Rm vx)
    next
      case 3
      moreover have "?R (A m) (A j)" using 3 j by (intro min) (auto simp: near_below_def)
      moreover have "j \<noteq> i" using 3 i by auto
      ultimately show ?thesis by (simp add: Bi Bj lv_child [OF i(1) 3(1)])
    next
      case 4
      have "j \<noteq> i" "j \<noteq> m" "m \<noteq> i" using 4 mi by auto
      have "lv r j (A j) (A m)" using ped 4 j2 mi by (simp add: pedge_def)
      then have "lv r m (A m) (A j)" by (simp only: lv_child [OF mi(2) 4])
      then have "?R (A j) (A i)" using Rm vx lv_trans by simp
      with 4 \<open>j \<noteq> i\<close> \<open>j \<noteq> m\<close> show ?thesis by (simp add: Bi Bj lv_child [OF mi(2) 4] Rm)
    next
      case 5
      then show ?thesis using ped j2 by (simp add: Bj pedge_def)
    qed
  qed
  moreover have "lv r j (?B (j div 4)) (?B j)" if j4: "4 \<le> j"
  proof -
    consider "j = i" | "j = m" | "j div 4 = i" | "j div 4 = m"
      | "j \<noteq> i" "j \<noteq> m" "j div 4 \<noteq> i" "j div 4 \<noteq> m" by blast
    then show ?thesis
    proof cases
      case 1
      have "i div 4 \<noteq> i" "i div 4 \<noteq> m" using i mi by auto
      with 1 j4 show ?thesis by (simp add: Bi Bj above)
    next
      case 2
      have q: "m div 4 = i div 2" using m by auto
      have "i div 2 \<noteq> i" "i div 2 \<noteq> m" "2 \<le> i" using i mi 2 j4 m by auto
      moreover have "pedge r A i" using inv i mi \<open>i div 2 \<noteq> i\<close> by (auto simp: down_inv_def)
      ultimately show ?thesis using 2 q by (simp add: Bi Bj Rm pedge_def)
    next
      case 3
      have "?R (A m) (A j)" using 3 j by (intro min) (auto simp: near_below_def)
      moreover have "j \<noteq> i" "j \<noteq> m" using 3 i m by auto
      ultimately show ?thesis using 3 by (simp add: Bi Bj lv_grandchild [OF i(1) 3])
    next
      case 4
      have "j \<noteq> i" "j \<noteq> m" using 4 mi by auto
      have "lv r j (A m) (A j)" using ged 4 j4 mi by (simp add: gedge_def)
      then have "lv r m (A m) (A j)" by (simp only: lv_grandchild [OF mi(2) 4])
      then have "?R (A j) (A i)" using Rm vx lv_trans by simp
      with 4 \<open>j \<noteq> i\<close> \<open>j \<noteq> m\<close> show ?thesis by (simp add: Bi Bj lv_grandchild [OF mi(2) 4] Rm)
    next
      case 5
      then show ?thesis using ged j4 by (simp add: Bj gedge_def)
    qed
  qed
  ultimately show "pedge r ?B j \<and> gedge r ?B j" by (simp add: pedge_def gedge_def)
qed

lemma grand_swap_values:
  assumes pick: "picks r A n i m" and m: "m div 4 = i"
  defines "C \<equiv> grand_swap r A i m" and "p \<equiv> m div 2"
  shows "C i = A m" "\<And>j. j \<noteq> i \<Longrightarrow> j \<noteq> m \<Longrightarrow> j \<noteq> p \<Longrightarrow> C j = A j"
    "lv r i (C m) (C p)" "lv r i (A m) (C m)" "lv r i (A m) (C p)" "lv r i (A p) (C p)" "C p = A i \<or> C p = A p"
proof -
  have i: "1 \<le> i" "m \<le> n" and min: "\<And>c. c \<le> n \<Longrightarrow> near_below i c \<Longrightarrow> lv r i (A m) (A c)"
    using pick by (auto simp: picks_def)
  have d: "m \<noteq> i" "p \<noteq> i" "p \<noteq> m" "p div 2 = i" "p \<le> n" using m i by (auto simp: p_def)
  have pm: "lv r i (A m) (A p)" using d by (intro min) (auto simp: near_below_def)
  note vx = picks_swapped [OF pick]
  show "C i = A m" "\<And>j. j \<noteq> i \<Longrightarrow> j \<noteq> m \<Longrightarrow> j \<noteq> p \<Longrightarrow> C j = A j" "C p = A i \<or> C p = A p"
    using d by (auto simp: C_def grand_swap_def swp_def p_def [symmetric])
  show "lv r i (C m) (C p)" "lv r i (A m) (C m)" "lv r i (A m) (C p)" "lv r i (A p) (C p)"
    using d pm vx lv_total [of i "A i" "A p"] lv_refl
    by (auto simp: C_def grand_swap_def swp_def p_def [symmetric])
qed

lemma grand_index:
  fixes i m :: nat
  assumes "1 \<le> i" "m div 4 = i"
  defines "p \<equiv> m div 2"
  shows "p div 2 = i" "i < p" "p < m" "2 \<le> p" "4 \<le> m" "m div 2 = p" "1 \<le> p"
  using assms by (auto simp: p_def)

lemma grand_pedge:
  assumes inv: "down_inv r A n i" and pick: "picks r A n i m" and m: "m div 4 = i"
    and j: "1 \<le> j" "j \<le> n" "j div 2 \<noteq> m" "2 \<le> j"
  shows "lv r j (grand_swap r A i m j) (grand_swap r A i m (j div 2))"
proof -
  define p where "p = m div 2"
  let ?R = "lv r i" and ?C = "grand_swap r A i m"
  have i: "1 \<le> i" "m \<le> n" and min: "\<And>c. c \<le> n \<Longrightarrow> near_below i c \<Longrightarrow> ?R (A m) (A c)"
    using pick by (auto simp: picks_def)
  note v = grand_swap_values [OF pick m, folded p_def]
  note x = grand_index [OF i(1) m, folded p_def]
  have mp: "m div 2 = p" by (simp add: p_def)
  have Rm: "lv r m = ?R" by (rule lv_grandchild_fun [OF i(1) m])
  have Rp: "lv r p = (\<lambda>x y. ?R y x)" by (rule lv_child_fun [OF i(1) x(1)])
  have ped: "j div 2 \<noteq> i \<Longrightarrow> lv r j (A j) (A (j div 2))" using inv j by (simp add: down_inv_def pedge_def)
  consider "j = i" | "j = m" | "j = p" | "j div 2 = i" "j \<noteq> p" | "j div 2 = p" "j \<noteq> m"
    | "j \<noteq> i" "j \<noteq> m" "j \<noteq> p" "j div 2 \<noteq> i" "j div 2 \<noteq> p" by blast
  then show ?thesis
  proof cases
    case 1
    have "?R (A m) (A (i div 2))"
      using inv i m 1 j by (auto simp: down_inv_def near_below_def)
    moreover have "i div 2 \<noteq> i" "i div 2 \<noteq> m" "i div 2 \<noteq> p" using i x by auto
    ultimately show ?thesis using 1 v by simp
  next
    case 2
    then show ?thesis using v x Rm mp by simp
  next
    case 3
    then show ?thesis using v x Rp by simp
  next
    case 4
    have "?R (A m) (A j)" using 4 j by (intro min) (auto simp: near_below_def)
    moreover have "j \<noteq> i" "j \<noteq> m" using 4 i x mp by auto
    ultimately show ?thesis using 4 v by (simp add: lv_child [OF i(1) 4(1)])
  next
    case 5
    have "j div 4 = i" using 5 x by (metis div_mult2_eq mult_2 numeral_Bit0)
    then have Rj: "lv r j = ?R" by (rule lv_grandchild_fun [OF i(1)])
    have "?R (A j) (A p)" using ped 5 x Rj by simp
    moreover have "j \<noteq> i" "j \<noteq> p" using 5 x by auto
    ultimately show ?thesis using 5 v Rj lv_trans by simp
  next
    case 6
    then show ?thesis using ped v j by simp
  qed
qed

lemma grand_gedge:
  assumes inv: "down_inv r A n i" and pick: "picks r A n i m" and m: "m div 4 = i"
    and j: "1 \<le> j" "j \<le> n" "j div 4 \<noteq> m" "4 \<le> j"
  shows "lv r j (grand_swap r A i m (j div 4)) (grand_swap r A i m j)"
proof -
  define p where "p = m div 2"
  let ?R = "lv r i" and ?C = "grand_swap r A i m"
  have i: "1 \<le> i" "m \<le> n" and min: "\<And>c. c \<le> n \<Longrightarrow> near_below i c \<Longrightarrow> ?R (A m) (A c)"
    using pick by (auto simp: picks_def)
  note v = grand_swap_values [OF pick m, folded p_def]
  note x = grand_index [OF i(1) m, folded p_def]
  have mp: "m div 2 = p" by (simp add: p_def)
  have Rm: "lv r m = ?R" by (rule lv_grandchild_fun [OF i(1) m])
  have Rp: "lv r p = (\<lambda>x y. ?R y x)" by (rule lv_child_fun [OF i(1) x(1)])
  have ged: "j div 4 \<noteq> i \<Longrightarrow> lv r j (A (j div 4)) (A j)" using inv j by (simp add: down_inv_def gedge_def)
  consider "j = i" | "j = m" | "j = p" | "j div 4 = i" "j \<noteq> m" | "j div 4 = p"
    | "j \<noteq> i" "j \<noteq> m" "j \<noteq> p" "j div 4 \<noteq> i" "j div 4 \<noteq> p" by blast
  then show ?thesis
  proof cases
    case 1
    have "?R (A (i div 4)) (A m)"
      using inv i m 1 j by (auto simp: down_inv_def near_below_def)
    moreover have "i div 4 \<noteq> i" "i div 4 \<noteq> m" "i div 4 \<noteq> p" using i x by auto
    ultimately show ?thesis using 1 v by simp
  next
    case 2
    then show ?thesis using v m Rm by simp
  next
    case 3
    have q: "p div 4 = i div 2" using x by auto
    have d: "i div 2 \<noteq> i" "i div 2 \<noteq> m" "i div 2 \<noteq> p" "2 \<le> i" using i x 3 j by auto
    have "?R (A i) (A (i div 2))"
      using inv i d x by (auto simp: down_inv_def pedge_def)
    moreover have "?R (A p) (A (i div 2))" using ged 3 q d Rp by simp
    ultimately have "?R (?C p) (A (i div 2))" using v(7) by auto
    then show ?thesis using 3 q d v Rp by simp
  next
    case 4
    have "?R (A m) (A j)" using 4 j by (intro min) (auto simp: near_below_def)
    moreover have "j \<noteq> i" "j \<noteq> p" using 4 i x by auto
    ultimately show ?thesis using 4 v by (simp add: lv_grandchild [OF i(1) 4(1)])
  next
    case 5
    have Rj: "lv r j = (\<lambda>x y. ?R y x)" using lv_grandchild_fun [OF x(7) 5, of r] Rp by simp
    have "?R (A j) (A p)" using ged 5 x Rj by simp
    moreover have "j \<noteq> i" "j \<noteq> p" "j \<noteq> m" using 5 x mp by auto
    ultimately show ?thesis using 5 v Rj lv_trans by simp
  next
    case 6
    then show ?thesis using ged v j by simp
  qed
qed

lemma grand_below:
  assumes inv: "down_inv r A n i" and pick: "picks r A n i m" and m: "m div 4 = i"
    and c: "c \<le> n" "near_below m c"
  shows "lv r m (grand_swap r A i m i) (grand_swap r A i m c)"
    "lv r m (grand_swap r A i m c) (grand_swap r A i m (m div 2))"
proof -
  define p where "p = m div 2"
  let ?R = "lv r i" and ?C = "grand_swap r A i m"
  have i: "1 \<le> i" "m \<le> n" using pick by (auto simp: picks_def)
  note v = grand_swap_values [OF pick m, folded p_def]
  note x = grand_index [OF i(1) m, folded p_def]
  have mp: "m div 2 = p" by (simp add: p_def)
  have Rm: "lv r m = ?R" by (rule lv_grandchild_fun [OF i(1) m])
  have Rp: "lv r p = (\<lambda>x y. ?R y x)" by (rule lv_child_fun [OF i(1) x(1)])
  have d: "c \<noteq> i" "c \<noteq> m" "c \<noteq> p" "1 \<le> c" "1 \<le> m" using c x by (auto simp: near_below_def)
  have child: "?R (A m) (A k) \<and> ?R (A k) (A p)" if k: "k div 2 = m" "k \<le> n" for k
  proof
    have a: "k div 4 = p" "k div 2 \<noteq> i" "k div 4 \<noteq> i" "1 \<le> k" "4 \<le> k" using k x mp by auto
    have "pedge r A k" "gedge r A k" using inv a k by (auto simp: down_inv_def)
    moreover have "lv r k = (\<lambda>x y. ?R y x)" using lv_child_fun [OF d(5) k(1), of r] Rm by simp
    ultimately show "?R (A m) (A k)" "?R (A k) (A p)" using a k by (auto simp: pedge_def gedge_def)
  qed
  have grand: "?R (A m) (A c) \<and> ?R (A c) (A p)" if k: "c div 4 = m"
  proof
    have a: "c div 2 \<noteq> i" "c div 4 \<noteq> i" "4 \<le> c" "c div 2 div 2 = m" "c div 2 \<le> n" using k x c by auto
    have "pedge r A c" "gedge r A c" using inv a c d by (auto simp: down_inv_def)
    moreover have "lv r c = ?R" using lv_grandchild_fun [OF d(5) k, of r] Rm by simp
    ultimately have "?R (A m) (A c)" "?R (A c) (A (c div 2))" using a k by (auto simp: pedge_def gedge_def)
    then show "?R (A m) (A c)" "?R (A c) (A p)" using child [OF a(4,5)] lv_trans by auto
  qed
  have both: "?R (A m) (A c)" "?R (A c) (A p)" using c child [of c] grand by (auto simp: near_below_def)
  have "?C i = A m" "?C c = A c" using v d by auto
  moreover have "?R (A c) (?C p)" using lv_trans [OF both(2) v(6)] .
  ultimately show "lv r m (?C i) (?C c)" "lv r m (?C c) (?C (m div 2))"
    using both(1) Rm mp by simp_all
qed

lemma down_grand_step:
  assumes inv: "down_inv r A n i" and pick: "picks r A n i m" and m: "m div 4 = i"
  shows "down_inv r (grand_swap r A i m) n m"
  using grand_pedge [OF assms] grand_gedge [OF assms] grand_below [OF assms] m
  by (simp add: down_inv_def pedge_def gedge_def)

section \<open>Extremes, insertion at the end, removal near the root\<close>

lemma mm_heap_root:
  assumes "mm_heap r A n" "1 \<le> j" "j \<le> n"
  shows "r (A 1) (A j)"
  using assms(2,3)
proof (induction j rule: less_induct)
  case (less j)
  have e: "pedge r A j" "gedge r A j" using assms(1) less.prems by (auto simp: mm_heap_def)
  consider "j = 1" | "2 \<le> j" "\<not> is_min j" | "4 \<le> j" "is_min j"
  proof -
    have "j = 1 \<or> j = 2 \<or> j = 3 \<or> 4 \<le> j" using less.prems by auto
    then show ?thesis using that is_min_small by force
  qed
  then show ?case
  proof cases
    case 1
    then show ?thesis using r_total by blast
  next
    case 2
    then have "r (A (j div 2)) (A j)" using e by (auto simp: pedge_def lv_def)
    moreover have "r (A 1) (A (j div 2))" using less.prems 2 by (intro less.IH) auto
    ultimately show ?thesis using r_trans by blast
  next
    case 3
    then have "r (A (j div 4)) (A j)" using e by (auto simp: gedge_def lv_def)
    moreover have "r (A 1) (A (j div 4))" using less.prems 3 by (intro less.IH) auto
    ultimately show ?thesis using r_trans by blast
  qed
qed

lemma mm_heap_top:
  assumes "mm_heap r A n" "2 \<le> j" "j \<le> n"
  shows "r (A j) (A 2) \<or> 3 \<le> n \<and> r (A j) (A 3)"
  using assms(2,3)
proof (induction j rule: less_induct)
  case (less j)
  have e: "pedge r A j" "gedge r A j" using assms(1) less.prems by (auto simp: mm_heap_def)
  have refl: "r x x" for x using r_total by blast
  show ?case
  proof (cases "4 \<le> j")
    case False
    then have "j = 2 \<or> j = 3" using less.prems by auto
    then show ?thesis using refl less.prems by auto
  next
    case True
    show ?thesis
    proof (cases "is_min j")
      case m: True
      then have "r (A j) (A (j div 2))" using e True by (auto simp: pedge_def lv_def)
      moreover have "r (A (j div 2)) (A 2) \<or> 3 \<le> n \<and> r (A (j div 2)) (A 3)"
        using less.prems True by (intro less.IH) auto
      ultimately show ?thesis using r_trans by blast
    next
      case m: False
      then have "r (A j) (A (j div 4))" using e True by (auto simp: gedge_def lv_def)
      moreover have "j div 4 \<noteq> 1" using m is_min_div4 [OF True] is_min_small(2) by metis
      then have "2 \<le> j div 4" using True by (auto simp: div_le_mono Suc_le_eq le_less)
      then have "r (A (j div 4)) (A 2) \<or> 3 \<le> n \<and> r (A (j div 4)) (A 3)"
        using less.prems True by (intro less.IH) auto
      ultimately show ?thesis using r_trans by blast
    qed
  qed
qed

lemma up_inv_start:
  assumes "mm_heap r A n" "2 \<le> Suc n \<Longrightarrow> lv r (Suc n) (A (Suc n)) (A (Suc n div 2))"
  shows "up_inv r A (Suc n) (Suc n)"
  using assms by (auto simp: up_inv_def mm_heap_def pedge_def near_below_def le_Suc_eq)

lemma up_inv_start_swap:
  assumes heap: "mm_heap r A n" and i: "i = Suc n" "2 \<le> i" and bad: "\<not> lv r i (A i) (A (i div 2))"
  shows "up_inv r (swp A i (i div 2)) i (i div 2)"
proof -
  define p where "p = i div 2"
  let ?R = "lv r p" and ?B = "swp A i p"
  have p: "1 \<le> p" "p < i" "p \<le> n" using i by (auto simp: p_def)
  have Ri: "lv r i = (\<lambda>x y. ?R y x)" by (rule lv_child_fun [OF p(1)]) (simp add: p_def)
  have xy: "?R (A i) (A p)" using bad Ri lv_total [of p "A i" "A p"] by (simp add: p_def [symmetric])
  have Bi: "?B i = A p" "?B p = A i" and Bj: "\<And>j. j \<noteq> i \<Longrightarrow> j \<noteq> p \<Longrightarrow> ?B j = A j" using p by (auto simp: swp_def)
  have ped: "2 \<le> j \<Longrightarrow> lv r j (A j) (A (j div 2))" and ged: "4 \<le> j \<Longrightarrow> lv r j (A (j div 4)) (A j)" if "j \<le> n" for j
    using heap that by (auto simp: mm_heap_def pedge_def gedge_def)
  have far: "c div 4 \<noteq> i" "c div 4 \<noteq> p" if "c \<le> i" for c
  proof -
    have "c div 4 \<le> i div 4" using that by (rule div_le_mono)
    moreover have "i div 4 = p div 2" by (simp add: p_def div_mult2_eq [symmetric])
    moreover have "p div 2 < p" using p(1) by simp
    ultimately show "c div 4 \<noteq> i" "c div 4 \<noteq> p" using p(2) by auto
  qed
  have child: "?R (A p) (A c)" if "c div 2 = p" "c \<le> n" for c
    using ped [of c] that p lv_child [OF p(1) that(1), of r] by simp
  have "pedge r ?B j" if j: "1 \<le> j" "j \<le> i" for j
    unfolding pedge_def
  proof
    assume j2: "2 \<le> j"
    consider "j = i" | "j = p" | "j div 2 = p" "j \<noteq> i" | "j \<noteq> i" "j \<noteq> p" "j div 2 \<noteq> p" by blast
    then show "lv r j (?B j) (?B (j div 2))"
    proof cases
      case 1
      then show ?thesis using Bi Ri xy by (simp add: p_def [symmetric])
    next
      case 2
      have "p div 2 \<noteq> i" "p div 2 \<noteq> p" using p by auto
      then show ?thesis using 2 j2 Bi Bj lv_trans [OF xy ped [OF p(3)]] by simp
    next
      case 3
      have "j \<le> n" "j \<noteq> p" using 3 j i p by auto
      then show ?thesis using 3 Bi Bj lv_trans [OF xy child [OF 3(1)]] by (simp add: lv_child [OF p(1) 3(1)])
    next
      case 4
      have "j \<le> n" "j div 2 \<noteq> i" using 4 j i by auto
      then show ?thesis using 4 Bj ped j2 by simp
    qed
  qed
  moreover have "gedge r ?B j" if j: "1 \<le> j" "j \<le> i" "j \<noteq> p" for j
    unfolding gedge_def
  proof
    assume j4: "4 \<le> j"
    note d = far [OF j(2)]
    show "lv r j (?B (j div 4)) (?B j)"
    proof (cases "j = i")
      case True
      have "?R (A p) (A (p div 2))" using ped [OF p(3)] True j4 by (simp add: p_def)
      moreover have "j div 4 = p div 2" using True by (simp add: p_def div_mult2_eq [symmetric])
      ultimately show ?thesis using True Bi Bj d Ri by simp
    next
      case False
      then show ?thesis using Bj d j ged [of j] j4 i by simp
    qed
  qed
  moreover have "lv r p (?B (p div 4)) (?B c)" if p4: "4 \<le> p" and c: "c \<le> i" "near_below p c" for c
  proof -
    have up: "?R (A (p div 4)) (A p)" using ged [OF p(3) p4] .
    have c2: "c div 2 = p" using c(2) far [OF c(1)] by (simp add: near_below_def)
    then have "c \<noteq> p" using p(1) by auto
    have "?R (A (p div 4)) (?B c)"
    proof (cases "c = i")
      case False
      then have "?B c = A c" using \<open>c \<noteq> p\<close> by (intro Bj)
      moreover have "c \<le> n" using False c(1) i(1) by simp
      ultimately show ?thesis using lv_trans [OF up child [OF c2]] by simp
    qed (simp add: Bi up)
    moreover have "p div 4 \<noteq> i" "p div 4 \<noteq> p" using p by auto
    ultimately show ?thesis using Bj by simp
  qed
  ultimately show ?thesis by (simp add: up_inv_def p_def [symmetric])
qed

lemma down_inv_start:
  assumes heap: "mm_heap r A n" and k: "1 \<le> k" "k \<le> 3" "k < n"
  shows "down_inv r (A(k := A n)) (n - 1) k"
proof -
  have root: "\<And>c. 1 \<le> c \<Longrightarrow> c \<le> n \<Longrightarrow> r (A 1) (A c)" using mm_heap_root [OF heap] by blast
  have km: "\<not> is_min k" if "2 \<le> k" 
  proof -
    have "k = 2 \<or> k = 3" using that k by auto
    then show ?thesis using is_min_small by auto
  qed
  have k2: "2 \<le> k \<Longrightarrow> k div 2 = 1" using k by auto
  have "pedge r (A(k := A n)) j" if "1 \<le> j" "j \<le> n - 1" "j div 2 \<noteq> k" for j
    using that heap km k2 root k by (auto simp: mm_heap_def pedge_def lv_def)
  moreover have "gedge r (A(k := A n)) j" if "1 \<le> j" "j \<le> n - 1" "j div 4 \<noteq> k" for j
    using that heap k by (auto simp: mm_heap_def gedge_def)
  moreover have "2 \<le> k \<Longrightarrow> lv r k ((A(k := A n)) c) ((A(k := A n)) (k div 2))" if "c \<le> n - 1" "near_below k c" for c
    using that km k2 root k by (auto simp: lv_def near_below_def)
  ultimately show ?thesis using k by (simp add: down_inv_def)
qed

end

end
