(* ===== verification/MinMax_Correct.thy ===== *)
theory MinMax_Correct
  imports MinMax_Order
begin

text \<open>
  Correctness of util_minmax_heap.c: every operation keeps the min-max order, the used flags and
  the capacity, pops deliver a least or a greatest element, and a bounded heap retains the greatest
  elements ever inserted.
\<close>

section \<open>The comparator and the invariant\<close>

definition cmp_total :: "'p comparator \<Rightarrow> bool" where
  "cmp_total c \<longleftrightarrow> comparator_ok c \<and> (\<forall>x y. 0 < c x y \<longleftrightarrow> c y x < 0)"

definition cle :: "'p comparator \<Rightarrow> 'p \<Rightarrow> 'p \<Rightarrow> bool" where
  "cle c x y \<longleftrightarrow> c x y \<le> 0"

text \<open>
  The COMPARATOR_NULL_CHECK macro of nr_segment.c in front of a comparator: NULL is smaller than
  every other pointer.
\<close>

definition COMPARATOR_NULL_CHECK :: "'v comparator \<Rightarrow> 'v option comparator" where
  "COMPARATOR_NULL_CHECK c elem1 elem2 =
     (case (elem1, elem2) of (None, None) \<Rightarrow> 0 | (None, Some _) \<Rightarrow> -1 | (Some _, None) \<Rightarrow> 1 | (Some a, Some b) \<Rightarrow> c a b)"

lemma cmp_total_null_check:
  assumes "cmp_total c"
  shows "cmp_total (COMPARATOR_NULL_CHECK c)"
  using assms unfolding cmp_total_def comparator_ok_def COMPARATOR_NULL_CHECK_def
  by (auto split: option.splits)

lemma cmp_total_preorder: "cmp_total c \<Longrightarrow> total_preorder (cle c)"
  by (auto simp: cmp_total_def comparator_ok_def cle_def total_preorder_def)

definition hv :: "('v, 'u) nr_minmax_heap \<Rightarrow> nat \<Rightarrow> 'v option" where
  "hv heap i = el_value (hp_elements heap ! i)"

definition heap_cells :: "('v, 'u) nr_minmax_heap \<Rightarrow> nat \<Rightarrow> 'v nr_minmax_heap_element list" where
  "heap_cells heap n = take n (drop 1 (hp_elements heap))"

text \<open>The values the heap holds.\<close>

definition heap_mset :: "('v, 'u) nr_minmax_heap \<Rightarrow> 'v option multiset" where
  "heap_mset heap = mset (map el_value (heap_cells heap (hp_used heap)))"

definition heap_invar :: "('v, 'u) nr_minmax_heap \<Rightarrow> bool" where
  "heap_invar heap \<longleftrightarrow>
     cmp_total (hp_comparator heap) \<and>
     length (hp_elements heap) = hp_capacity heap \<and> hp_used heap < hp_capacity heap \<and>
     (hp_bound heap \<noteq> 0 \<longrightarrow> 2 \<le> hp_bound heap \<and> hp_used heap \<le> hp_bound heap \<and> hp_capacity heap = hp_bound heap + 1) \<and>
     (\<forall>i < hp_capacity heap. el_used (hp_elements heap ! i) \<longleftrightarrow> 1 \<le> i \<and> i \<le> hp_used heap) \<and>
     mm_heap (cle (hp_comparator heap)) (hv heap) (hp_used heap)"

section \<open>Permuting the cells\<close>

definition permuted :: "nat \<Rightarrow> ('v, 'u) nr_minmax_heap \<Rightarrow> ('v, 'u) nr_minmax_heap \<Rightarrow> bool" where
  "permuted n heap heap' \<longleftrightarrow>
     heap' = heap\<lparr>hp_elements := hp_elements heap'\<rparr> \<and> length (hp_elements heap') = length (hp_elements heap) \<and>
     (\<forall>i < length (hp_elements heap). i = 0 \<or> n < i \<longrightarrow> hp_elements heap' ! i = hp_elements heap ! i) \<and>
     mset (heap_cells heap' n) = mset (heap_cells heap n)"

lemma permuted_refl: "permuted n heap heap"
  by (simp add: permuted_def)

lemma permuted_trans:
  assumes "permuted n a b" "permuted n b c"
  shows "permuted n a c"
proof -
  have "c = a\<lparr>hp_elements := hp_elements c\<rparr>"
    using assms unfolding permuted_def
    by (metis nr_minmax_heap.unfold_congs(4) nr_minmax_heap.update_convs(4) nr_minmax_heap.cases)
  with assms show ?thesis by (simp add: permuted_def)
qed

lemma permuted_frame:
  assumes "permuted n heap heap'"
  shows "hp_used heap' = hp_used heap" "hp_bound heap' = hp_bound heap" "hp_capacity heap' = hp_capacity heap"
    "hp_comparator heap' = hp_comparator heap" "hp_destructor heap' = hp_destructor heap"
    "hp_destructor_userdata heap' = hp_destructor_userdata heap"
    "length (hp_elements heap') = length (hp_elements heap)"
proof -
  obtain es where e: "heap' = heap\<lparr>hp_elements := es\<rparr>" and l: "length (hp_elements heap') = length (hp_elements heap)"
    using assms unfolding permuted_def by metis
  show "hp_used heap' = hp_used heap" "hp_bound heap' = hp_bound heap" "hp_capacity heap' = hp_capacity heap"
    "hp_comparator heap' = hp_comparator heap" "hp_destructor heap' = hp_destructor heap"
    "hp_destructor_userdata heap' = hp_destructor_userdata heap" using e by simp_all
  show "length (hp_elements heap') = length (hp_elements heap)" by (rule l)
qed

lemma permuted_swap:
  assumes "1 \<le> i" "i \<le> n" "1 \<le> j" "j \<le> n" "n < length (hp_elements heap)"
  shows "permuted n heap (heap_swap heap i j)"
proof -
  let ?es = "hp_elements heap"
  have "heap_cells (heap_swap heap i j) n =
      (heap_cells heap n)[i - 1 := heap_cells heap n ! (j - 1), j - 1 := heap_cells heap n ! (i - 1)]"
    using assms by (auto simp: heap_cells_def heap_swap_def Let_def drop_update_swap take_update_swap
        list_update_swap split: nat.splits)
  moreover have "i - 1 < length (heap_cells heap n)" "j - 1 < length (heap_cells heap n)"
    using assms by (auto simp: heap_cells_def)
  ultimately have "mset (heap_cells (heap_swap heap i j) n) = mset (heap_cells heap n)"
    by (simp add: mset_swap)
  then show ?thesis using assms by (auto simp: permuted_def heap_swap_def Let_def)
qed

lemma hv_swap:
  "i < length (hp_elements heap) \<Longrightarrow> j < length (hp_elements heap) \<Longrightarrow> hv (heap_swap heap i j) = swp (hv heap) i j"
  by (auto simp: hv_def heap_swap_def swp_def Let_def fun_eq_iff nth_list_update)

section \<open>Comparisons seen from a level\<close>

definition op_of :: "nat \<Rightarrow> compare_t" where
  "op_of i = (if is_min i then COMPARE_LESS_THAN else COMPARE_GREATER_THAN)"

lemma compare_expect_lv:
  assumes "cmp_total (hp_comparator heap)"
  shows "compare_expect heap a b (op_of i) \<longleftrightarrow> \<not> lv (cle (hp_comparator heap)) i (hv heap b) (hv heap a)"
  using assms by (auto simp: compare_expect_def heap_compare_def op_of_def lv_def cle_def hv_def cmp_total_def not_le)

lemma op_of_grandparent: "4 \<le> i \<Longrightarrow> op_of (i div 4) = op_of i"
  by (simp add: op_of_def is_min_div4)

section \<open>Bubbling up\<close>

lemma bubbleup_minmax_correct:
  assumes "cmp_total (hp_comparator heap)" "n < length (hp_elements heap)" "1 \<le> i" "i \<le> n"
    and "up_inv (cle (hp_comparator heap)) (hv heap) n i" "op = op_of i"
  shows "permuted n heap (bubbleup_minmax heap i op) \<and>
    mm_heap (cle (hp_comparator heap)) (hv (bubbleup_minmax heap i op)) n"
  using assms
proof (induction heap i op rule: bubbleup_minmax.induct)
  case (1 heap i op)
  let ?r = "cle (hp_comparator heap)"
  have pre: "total_preorder ?r" using "1.prems"(1) by (rule cmp_total_preorder)
  have gp: "parent (parent i) = i div 4" by (simp add: parent_def div_mult2_eq [symmetric])
  show ?case
  proof (cases "i div 4 = 0 \<or> \<not> compare_expect heap i (i div 4) op")
    case True
    have "4 \<le> i \<Longrightarrow> lv ?r i (hv heap (i div 4)) (hv heap i)"
      using True "1.prems"(1,6) compare_expect_lv by (auto simp: div_greater_zero_iff)
    then have "mm_heap ?r (hv heap) n" by (rule total_preorder.up_inv_done [OF pre "1.prems"(5)])
    moreover have "bubbleup_minmax heap i op = heap"
      using True by (subst bubbleup_minmax.simps) (auto simp: gp Let_def)
    ultimately show ?thesis by (simp add: permuted_refl)
  next
    case False
    then have i4: "4 \<le> i" and cmp: "compare_expect heap i (i div 4) op" by auto
    let ?h = "heap_swap heap i (i div 4)"
    have perm: "permuted n heap ?h" using i4 "1.prems" by (intro permuted_swap) auto
    have hv: "hv ?h = swp (hv heap) i (i div 4)" using "1.prems" by (intro hv_swap) auto
    have "up_inv ?r (hv ?h) n (i div 4)"
      unfolding hv using "1.prems" i4 cmp compare_expect_lv [OF "1.prems"(1), of i "i div 4" i]
      by (intro total_preorder.up_inv_step [OF pre]) auto
    then have "permuted n ?h (bubbleup_minmax ?h (i div 4) op) \<and>
      mm_heap (cle (hp_comparator ?h)) (hv (bubbleup_minmax ?h (i div 4) op)) n"
      using "1.IH" [OF refl] False "1.prems" i4 op_of_grandparent [OF i4] by (simp add: gp)
    moreover have "bubbleup_minmax heap i op = bubbleup_minmax ?h (i div 4) op"
      using False by (subst bubbleup_minmax.simps) (simp add: gp Let_def)
    ultimately show ?thesis using permuted_trans [OF perm] by simp
  qed
qed

lemma bubbleup_correct:
  assumes c: "cmp_total (hp_comparator heap)" and n: "Suc n < length (hp_elements heap)"
    and heap: "mm_heap (cle (hp_comparator heap)) (hv heap) n"
  shows "permuted (Suc n) heap (bubbleup heap (Suc n)) \<and>
    mm_heap (cle (hp_comparator heap)) (hv (bubbleup heap (Suc n))) (Suc n)"
proof -
  let ?r = "cle (hp_comparator heap)" and ?i = "Suc n"
  let ?p = "?i div 2"
  have pre: "total_preorder ?r" using c by (rule cmp_total_preorder)
  have bad: "(if is_min ?i then heap_compare heap ?i ?p > 0 else heap_compare heap ?i ?p < 0) \<longleftrightarrow>
      \<not> lv ?r ?i (hv heap ?i) (hv heap ?p)"
    using c by (auto simp: heap_compare_def lv_def cle_def hv_def cmp_total_def not_le)
  have bu: "bubbleup heap ?i = (if ?p = 0 then heap
      else if \<not> lv ?r ?i (hv heap ?i) (hv heap ?p) then bubbleup_minmax (heap_swap heap ?i ?p) ?p (op_of ?p)
      else bubbleup_minmax heap ?i (op_of ?i))"
    using is_min_div2 [of ?i] bad
    by (auto simp: bubbleup_def parent_def Let_def bubbleup_min_def bubbleup_max_def op_of_def split: if_splits)
  consider "n = 0" | "1 \<le> n" "\<not> lv ?r ?i (hv heap ?i) (hv heap ?p)" | "1 \<le> n" "lv ?r ?i (hv heap ?i) (hv heap ?p)"
    by fastforce
  then show ?thesis
  proof cases
    case 1
    then show ?thesis using bu by (simp add: permuted_refl mm_heap_def pedge_def gedge_def)
  next
    case 2
    let ?h = "heap_swap heap ?i ?p"
    have perm: "permuted ?i heap ?h" using 2 n by (intro permuted_swap) auto
    have "up_inv ?r (hv ?h) ?i ?p"
      using total_preorder.up_inv_start_swap [OF pre heap refl] 2 n by (simp add: hv_swap)
    from bubbleup_minmax_correct [OF _ _ _ _ this [folded heap_swap_simps(4) [of heap ?i ?p]] refl] perm 2 c n bu
    show ?thesis by (auto intro: permuted_trans)
  next
    case 3
    have "up_inv ?r (hv heap) ?i ?i" by (rule total_preorder.up_inv_start [OF pre heap]) (rule 3)
    from bubbleup_minmax_correct [OF c n _ _ this refl] 3 bu show ?thesis by auto
  qed
qed

section \<open>Trickling down\<close>

definition best :: "('p \<Rightarrow> 'p \<Rightarrow> bool) \<Rightarrow> (nat \<Rightarrow> 'p) \<Rightarrow> nat \<Rightarrow> nat set \<Rightarrow> nat option \<Rightarrow> bool" where
  "best r A i S idx = (case idx of None \<Rightarrow> S = {} | Some m \<Rightarrow> m \<in> S \<and> (\<forall>c\<in>S. lv r i (A m) (A c)))"

lemma best_better_index:
  assumes c: "cmp_total (hp_comparator heap)" and b: "best (cle (hp_comparator heap)) (hv heap) i S idx"
    and ne: "j \<le> hp_used heap \<Longrightarrow> S \<noteq> {}"
  shows "best (cle (hp_comparator heap)) (hv heap) i (S \<union> {k. k = j \<and> k \<le> hp_used heap})
    (better_index heap (op_of i) j idx)"
proof (cases "j \<le> hp_used heap")
  case False
  then have "S \<union> {k. k = j \<and> k \<le> hp_used heap} = S" by auto
  with b False show ?thesis by (simp add: better_index_def)
next
  case True
  let ?r = "cle (hp_comparator heap)"
  have S: "S \<union> {k. k = j \<and> k \<le> hp_used heap} = insert j S" using True by auto
  obtain m where m: "idx = Some m" "m \<in> S" "\<forall>c\<in>S. lv ?r i (hv heap m) (hv heap c)"
    using b ne [OF True] by (auto simp: best_def split: option.splits)
  have pre: "total_preorder ?r" using c by (rule cmp_total_preorder)
  note total = total_preorder.lv_total [OF pre] and trans = total_preorder.lv_trans [OF pre]
    and refl = total_preorder.lv_refl [OF pre]
  have ce: "compare_expect heap j m (op_of i) \<longleftrightarrow> \<not> lv ?r i (hv heap m) (hv heap j)"
    by (rule compare_expect_lv [OF c])
  show ?thesis
  proof (cases "lv ?r i (hv heap m) (hv heap j)")
    case le: True
    with m ce True show ?thesis unfolding S by (simp add: better_index_def best_def)
  next
    case False
    then have "lv ?r i (hv heap j) (hv heap m)" using total by blast
    then have "\<forall>c\<in>insert j S. lv ?r i (hv heap j) (hv heap c)" using m(3) trans refl by blast
    with m ce True False show ?thesis unfolding S by (simp add: better_index_def best_def)
  qed
qed

lemma near_below_indices:
  "near_below i c \<longleftrightarrow>
    c = 2 * i \<or> c = 2 * i + 1 \<or> c = 4 * i \<or> c = 4 * i + 1 \<or> c = 4 * i + 2 \<or> c = 4 * i + 3"
proof -
  have "c div 2 = i \<longleftrightarrow> c = 2 * i \<or> c = 2 * i + 1" by presburger
  moreover have "c div 4 = i \<longleftrightarrow> c = 4 * i \<or> c = 4 * i + 1 \<or> c = 4 * i + 2 \<or> c = 4 * i + 3" by presburger
  ultimately show ?thesis by (simp add: near_below_def)
qed

lemma child_indices:
  "first_child i = 2 * i" "second_child i = 2 * i + 1"
  "2 * (2 * i) = 4 * i" "2 * (2 * i) + 1 = 4 * i + 1" "2 * (2 * i + 1) = 4 * i + 2" "4 * i + 2 + 1 = 4 * i + (3 :: nat)"
  by (simp_all add: first_child_def second_child_def)

lemma index_minmax_best:
  assumes c: "cmp_total (hp_comparator heap)" and i: "1 \<le> i"
  shows "best (cle (hp_comparator heap)) (hv heap) i {c. c \<le> hp_used heap \<and> near_below i c}
    (index_minmax_child_grandchild heap i (op_of i))"
proof -
  let ?S = "\<lambda>j. {k. k = j \<and> k \<le> hp_used heap}"
  let ?best = "best (cle (hp_comparator heap)) (hv heap) i"
  have refl: "lv (cle (hp_comparator heap)) i x x" for x
    using c by (intro total_preorder.lv_refl cmp_total_preorder)
  have a: "?best (?S (2 * i)) (if 2 * i \<le> hp_used heap then Some (2 * i) else None)"
    using refl by (auto simp: best_def)
  note step = best_better_index [OF c]
  note b = step [OF a, of "2 * i + 1"]
  note b' = step [OF b, of "4 * i"]
  note d = step [OF b', of "4 * i + 1"]
  note e = step [OF d, of "4 * i + 2"]
  note f = step [OF e, of "4 * i + 3"]
  have "?best (?S (2 * i) \<union> ?S (2 * i + 1) \<union> ?S (4 * i) \<union> ?S (4 * i + 1) \<union> ?S (4 * i + 2) \<union> ?S (4 * i + 3))
      (index_minmax_child_grandchild heap i (op_of i))"
    unfolding index_minmax_child_grandchild_def Let_def child_indices using i by (intro f) auto
  moreover have "?S (2 * i) \<union> ?S (2 * i + 1) \<union> ?S (4 * i) \<union> ?S (4 * i + 1) \<union> ?S (4 * i + 2) \<union> ?S (4 * i + 3) =
      {c. c \<le> hp_used heap \<and> near_below i c}"
    using near_below_indices [of i] by auto
  ultimately show ?thesis by simp
qed

lemma trickledown_minmax_correct:
  assumes "cmp_total (hp_comparator heap)" "hp_used heap < length (hp_elements heap)" "1 \<le> i"
    and "down_inv (cle (hp_comparator heap)) (hv heap) (hp_used heap) i" "op = op_of i"
  shows "permuted (hp_used heap) heap (trickledown_minmax heap i op) \<and>
    mm_heap (cle (hp_comparator heap)) (hv (trickledown_minmax heap i op)) (hp_used heap)"
  using assms
proof (induction heap i op rule: trickledown_minmax.induct)
  case (1 heap i op)
  let ?r = "cle (hp_comparator heap)" and ?n = "hp_used heap" and ?A = "hv heap"
  have pre: "total_preorder ?r" using "1.prems"(1) by (rule cmp_total_preorder)
  note best = index_minmax_best [OF "1.prems"(1,3)]
  note ce = compare_expect_lv [OF "1.prems"(1)]
  have same: "mm_heap ?r ?A ?n" if "\<And>c. c \<le> ?n \<Longrightarrow> near_below i c \<Longrightarrow> lv ?r i (?A i) (?A c)"
    using total_preorder.down_inv_done [OF pre "1.prems"(4,3)] that by blast
  show ?case
  proof (cases "index_minmax_child_grandchild heap i op")
    case None
    then have "{c. c \<le> ?n \<and> near_below i c} = {}" using best "1.prems"(5) by (simp add: best_def)
    then have "mm_heap ?r ?A ?n" by (intro same) auto
    moreover have "trickledown_minmax heap i op = heap"
      using None by (subst trickledown_minmax.simps) simp
    ultimately show ?thesis by (simp add: permuted_refl)
  next
    case (Some m)
    with best "1.prems"(5) have m: "m \<le> ?n" "near_below i m"
      and least: "\<And>c. c \<le> ?n \<Longrightarrow> near_below i c \<Longrightarrow> lv ?r i (?A m) (?A c)"
      by (auto simp: best_def)
    have im: "i < m" "1 \<le> m" using m(2) "1.prems"(3) by (auto simp: near_below_def)
    show ?thesis
    proof (cases "compare_expect heap m i op")
      case False
      then have le: "lv ?r i (?A i) (?A m)" using ce "1.prems"(5) by blast
      have "mm_heap ?r ?A ?n"
        by (intro same) (rule total_preorder.lv_trans [OF pre le least])
      moreover have "trickledown_minmax heap i op = heap"
        using Some False by (subst trickledown_minmax.simps) simp
      ultimately show ?thesis by (simp add: permuted_refl)
    next
      case True
      then have pick: "picks ?r ?A ?n i m"
        using ce "1.prems"(3,5) m least by (auto simp: picks_def)
      let ?h = "heap_swap heap i m"
      have perm: "permuted ?n heap ?h" using im m "1.prems" by (intro permuted_swap) auto
      have hv: "hv ?h = swp ?A i m" using im m "1.prems" by (intro hv_swap) auto
      show ?thesis
      proof (cases "m > second_child i")
        case False
        then have "m div 2 = i" using m(2) "1.prems"(3) by (auto simp: near_below_indices second_child_def)
        from total_preorder.down_child_step [OF pre "1.prems"(4) pick this] hv
        have "mm_heap ?r (hv ?h) ?n" by simp
        moreover have "trickledown_minmax heap i op = ?h"
          using Some True False by (subst trickledown_minmax.simps) simp
        ultimately show ?thesis using perm by simp
      next
        case grand: True
        then have m4: "m div 4 = i" using m(2) by (auto simp: near_below_def second_child_def)
        define g where "g = (if \<not> compare_expect ?h m (parent m) op then heap_swap ?h m (parent m) else ?h)"
        have pm: "1 \<le> parent m" "parent m \<le> ?n" "parent m \<noteq> m" "parent m \<noteq> i"
          using im m m4 grand by (auto simp: parent_def second_child_def)
        have permg: "permuted ?n ?h g"
          using pm im m "1.prems" by (auto simp: g_def intro!: permuted_swap permuted_refl)
        have cond: "compare_expect ?h m (parent m) op \<longleftrightarrow> \<not> lv ?r i (?A (m div 2)) (?A i)"
          using compare_expect_lv [of ?h m "parent m" i] "1.prems"(1,5) hv pm im
          by (simp add: swp_def parent_def)
        have hvg: "hv g = grand_swap ?r ?A i m"
          using cond pm im m "1.prems"(2) by (auto simp: g_def grand_swap_def hv_swap hv parent_def)
        have "down_inv ?r (hv g) ?n m"
          unfolding hvg by (rule total_preorder.down_grand_step [OF pre "1.prems"(4) pick m4])
        moreover have "op_of m = op_of i"
          using op_of_grandparent [of m] m4 "1.prems"(3) by auto
        ultimately have "permuted ?n g (trickledown_minmax g m op) \<and> mm_heap ?r (hv (trickledown_minmax g m op)) ?n"
          using "1.IH" [OF Some grand True refl g_def] "1.prems" im permuted_frame [OF permg] by simp
        moreover have "trickledown_minmax heap i op = trickledown_minmax g m op"
          using Some True grand by (subst trickledown_minmax.simps) (simp add: Let_def g_def)
        ultimately show ?thesis using permuted_trans [OF perm permuted_trans [OF permg]] by simp
      qed
    qed
  qed
qed

lemma trickledown_correct:
  assumes "cmp_total (hp_comparator heap)" "hp_used heap < length (hp_elements heap)" "1 \<le> i"
    and "down_inv (cle (hp_comparator heap)) (hv heap) (hp_used heap) i"
  shows "permuted (hp_used heap) heap (trickledown heap i)"
    "mm_heap (cle (hp_comparator heap)) (hv (trickledown heap i)) (hp_used heap)"
  using trickledown_minmax_correct [OF assms refl]
  by (auto simp: trickledown_def trickledown_min_def trickledown_max_def op_of_def split: if_splits)

section \<open>Adding and removing a cell\<close>

definition flags_ok :: "('v, 'u) nr_minmax_heap \<Rightarrow> bool" where
  "flags_ok heap \<longleftrightarrow>
     (\<forall>i < length (hp_elements heap). el_used (hp_elements heap ! i) \<longleftrightarrow> 1 \<le> i \<and> i \<le> hp_used heap)"

lemma heap_cells_nth:
  "i < n \<Longrightarrow> n < length (hp_elements heap) \<Longrightarrow> heap_cells heap n ! i = hp_elements heap ! Suc i"
  by (simp add: heap_cells_def)

lemma heap_cells_length: "n < length (hp_elements heap) \<Longrightarrow> length (heap_cells heap n) = n"
  by (simp add: heap_cells_def)

lemma flags_ok_permuted:
  assumes "flags_ok heap" "permuted (hp_used heap) heap heap'" "hp_used heap < length (hp_elements heap)"
  shows "flags_ok heap'"
proof -
  note fr = permuted_frame [OF assms(2)]
  let ?n = "hp_used heap"
  have "\<forall>e\<in>set (heap_cells heap ?n). el_used e"
    using assms(1,3) by (auto simp: flags_ok_def in_set_conv_nth heap_cells_nth heap_cells_length)
  moreover have "set (heap_cells heap' ?n) = set (heap_cells heap ?n)"
    using assms(2) unfolding permuted_def by (metis set_mset_mset)
  ultimately have cells: "\<forall>e\<in>set (heap_cells heap' ?n). el_used e" by simp
  have "el_used (hp_elements heap' ! i)" if "1 \<le> i" "i \<le> ?n" for i
  proof -
    have "heap_cells heap' ?n ! (i - 1) = hp_elements heap' ! i" "i - 1 < length (heap_cells heap' ?n)"
      using that assms(3) fr heap_cells_nth [of "i - 1" ?n heap'] by (auto simp: heap_cells_length)
    then show ?thesis using cells nth_mem by metis
  qed
  moreover have "\<not> el_used (hp_elements heap' ! i)" if "i < length (hp_elements heap)" "i = 0 \<or> ?n < i" for i
    using that assms(1,2) by (auto simp: permuted_def flags_ok_def)
  ultimately show ?thesis using fr by (force simp: flags_ok_def)
qed

lemma heap_invar_alt:
  "heap_invar heap \<longleftrightarrow>
     cmp_total (hp_comparator heap) \<and> length (hp_elements heap) = hp_capacity heap \<and> hp_used heap < hp_capacity heap \<and>
     (hp_bound heap \<noteq> 0 \<longrightarrow> 2 \<le> hp_bound heap \<and> hp_used heap \<le> hp_bound heap \<and> hp_capacity heap = hp_bound heap + 1) \<and>
     flags_ok heap \<and> mm_heap (cle (hp_comparator heap)) (hv heap) (hp_used heap)"
  by (auto simp: heap_invar_def flags_ok_def)

lemma heap_mset_permuted:
  "permuted (hp_used heap) heap heap' \<Longrightarrow> heap_mset heap' = heap_mset heap"
  using permuted_frame(1) [of "hp_used heap" heap heap'] by (simp add: heap_mset_def permuted_def)

lemma heap_invar_permuted:
  assumes "cmp_total (hp_comparator heap)" "length (hp_elements heap) = hp_capacity heap" "hp_used heap < hp_capacity heap"
    and "hp_bound heap \<noteq> 0 \<longrightarrow> 2 \<le> hp_bound heap \<and> hp_used heap \<le> hp_bound heap \<and> hp_capacity heap = hp_bound heap + 1"
    and "flags_ok heap" and perm: "permuted (hp_used heap) heap heap'"
    and "mm_heap (cle (hp_comparator heap)) (hv heap') (hp_used heap)"
  shows "heap_invar heap'"
  using assms flags_ok_permuted [OF assms(5) perm] permuted_frame [OF perm] by (simp add: heap_invar_alt)

lemma mm_heap_cong:
  "mm_heap r A n \<Longrightarrow> (\<And>j. 1 \<le> j \<Longrightarrow> j \<le> n \<Longrightarrow> A j = B j) \<Longrightarrow> mm_heap r B n"
  by (auto simp: mm_heap_def pedge_def gedge_def)

lemma heap_add_correct:
  assumes inv: "heap_invar heap" and room: "Suc (hp_used heap) < hp_capacity heap"
    and bound: "hp_bound heap \<noteq> 0 \<Longrightarrow> hp_used heap < hp_bound heap"
  shows "heap_invar (heap_add heap v)" "heap_mset (heap_add heap v) = add_mset v (heap_mset heap)"
    "hp_comparator (heap_add heap v) = hp_comparator heap" "hp_bound (heap_add heap v) = hp_bound heap"
    "hp_used (heap_add heap v) = Suc (hp_used heap)" "hp_destructor (heap_add heap v) = hp_destructor heap"
    "hp_destructor_userdata (heap_add heap v) = hp_destructor_userdata heap"
proof -
  let ?u = "hp_used heap"
  let ?e = "\<lparr>el_used = True, el_value = v\<rparr>"
  define h where "h = heap\<lparr>hp_used := ?u + 1, hp_elements := (hp_elements heap)[?u + 1 := ?e]\<rparr>"
  have len: "length (hp_elements heap) = hp_capacity heap" using inv by (simp add: heap_invar_alt)
  have fr: "hp_comparator h = hp_comparator heap" "hp_used h = Suc ?u" "length (hp_elements h) = hp_capacity heap"
    "hp_capacity h = hp_capacity heap" "hp_bound h = hp_bound heap" "hp_destructor h = hp_destructor heap"
    "hp_destructor_userdata h = hp_destructor_userdata heap"
    using len by (simp_all add: h_def)
  have "mm_heap (cle (hp_comparator h)) (hv h) ?u"
    by (rule mm_heap_cong [of _ "hv heap"]) (use inv in \<open>auto simp: h_def hv_def heap_invar_alt\<close>)
  from bubbleup_correct [OF _ _ this] inv room fr
  have b: "permuted (Suc ?u) h (bubbleup h (Suc ?u))" "mm_heap (cle (hp_comparator h)) (hv (bubbleup h (Suc ?u))) (Suc ?u)"
    by (auto simp: heap_invar_alt)
  have add: "heap_add heap v = bubbleup h (Suc ?u)" by (simp add: heap_add_def h_def Let_def)
  have flags: "flags_ok h"
    using inv room len by (auto simp: heap_invar_alt flags_ok_def h_def nth_list_update)
  show "heap_invar (heap_add heap v)"
    unfolding add by (rule heap_invar_permuted [of h]) (use inv room bound fr flags b in \<open>auto simp: heap_invar_alt\<close>)
  have "heap_cells h (Suc ?u) = heap_cells heap ?u @ [?e]"
    using room len by (simp add: heap_cells_def h_def take_Suc_conv_app_nth drop_update_swap)
  then have "heap_mset h = add_mset v (heap_mset heap)" by (simp add: heap_mset_def fr)
  then show "heap_mset (heap_add heap v) = add_mset v (heap_mset heap)"
    unfolding add using heap_mset_permuted [of h] b(1) fr by simp
  show "hp_comparator (heap_add heap v) = hp_comparator heap" "hp_bound (heap_add heap v) = hp_bound heap"
    "hp_used (heap_add heap v) = Suc (hp_used heap)" "hp_destructor (heap_add heap v) = hp_destructor heap"
    "hp_destructor_userdata (heap_add heap v) = hp_destructor_userdata heap"
    unfolding add using permuted_frame [OF b(1)] fr by simp_all
qed

text \<open>Moving the last cell to position \<open>k\<close> and shortening the heap, as both pops do.\<close>

definition heap_remove_at :: "('v, 'u) nr_minmax_heap \<Rightarrow> nat \<Rightarrow> ('v, 'u) nr_minmax_heap" where
  "heap_remove_at heap k =
     (let u = hp_used heap; es = (hp_elements heap)[k := hp_elements heap ! u]
      in heap\<lparr>hp_elements := es[u := (es ! u)\<lparr>el_used := False\<rparr>], hp_used := u - 1\<rparr>)"

lemma mset_butlast_update:
  assumes "i < length xs - 1"
  shows "mset ((butlast xs)[i := last xs]) = mset xs - {#xs ! i#}"
proof -
  have xs: "xs = butlast xs @ [last xs]" using assms by (cases xs rule: rev_cases) auto
  have "mset ((butlast xs)[i := last xs]) = add_mset (last xs) (mset (butlast xs) - {#butlast xs ! i#})"
    using assms by (intro mset_update) simp
  also have "\<dots> = add_mset (last xs) (mset (butlast xs)) - {#butlast xs ! i#}"
    using assms by (simp add: nth_mem)
  also have "\<dots> = mset xs - {#xs ! i#}"
    using assms by (subst (3) xs) (simp add: nth_butlast)
  finally show ?thesis .
qed

lemma down_inv_cong:
  assumes "down_inv r A n i" "1 \<le> i" "i \<le> Suc n" "\<And>j. 1 \<le> j \<Longrightarrow> j \<le> n \<Longrightarrow> A j = B j"
  shows "down_inv r B n i"
proof -
  have "A c = B c \<and> A (i div 4) = B (i div 4) \<or> i < 4" if "c \<le> n" "near_below i c" for c
    using that assms(2,3) by (auto simp: near_below_def intro!: assms(4))
  moreover have "A c = B c \<and> A (i div 2) = B (i div 2) \<or> i < 2" if "c \<le> n" "near_below i c" for c
    using that assms(2,3) by (auto simp: near_below_def intro!: assms(4))
  moreover have "pedge r A j \<longleftrightarrow> pedge r B j" "gedge r A j \<longleftrightarrow> gedge r B j" if "1 \<le> j" "j \<le> n" for j
    using that assms(4) by (auto simp: pedge_def gedge_def)
  ultimately show ?thesis using assms(1) unfolding down_inv_def by (metis not_le)
qed

lemma heap_remove_at_simps [simp]:
  "hp_used (heap_remove_at heap k) = hp_used heap - 1" "hp_bound (heap_remove_at heap k) = hp_bound heap"
  "hp_capacity (heap_remove_at heap k) = hp_capacity heap" "hp_comparator (heap_remove_at heap k) = hp_comparator heap"
  "length (hp_elements (heap_remove_at heap k)) = length (hp_elements heap)"
  "hp_destructor (heap_remove_at heap k) = hp_destructor heap"
  "hp_destructor_userdata (heap_remove_at heap k) = hp_destructor_userdata heap"
  by (simp_all add: heap_remove_at_def Let_def)

lemma heap_mset_remove_at:
  assumes "1 \<le> k" "k \<le> hp_used heap" "hp_used heap < length (hp_elements heap)"
  shows "heap_mset (heap_remove_at heap k) = heap_mset heap - {#hv heap k#}"
proof -
  define xs where "xs = heap_cells heap (hp_used heap)"
  let ?u = "hp_used heap"
  have len: "length xs = ?u" using assms by (simp add: xs_def heap_cells_length)
  have nth: "xs ! i = hp_elements heap ! Suc i" if "i < ?u" for i
    using that assms by (simp add: xs_def heap_cells_nth)
  have "last xs = xs ! (?u - 1)" using len assms by (subst last_conv_nth) auto
  then have last: "last xs = hp_elements heap ! ?u" using nth [of "?u - 1"] assms by simp
  have cells: "heap_cells (heap_remove_at heap k) (?u - 1) = (butlast xs)[k - 1 := last xs]"
    using assms len nth last
    by (intro nth_equalityI)
      (auto simp: heap_cells_length heap_cells_nth heap_remove_at_def Let_def nth_list_update nth_butlast)
  have "mset (map el_value ((butlast xs)[k - 1 := last xs])) = mset (map el_value xs) - {#el_value (xs ! (k - 1))#}"
  proof (cases "k = ?u")
    case True
    obtain ys y where ys: "xs = ys @ [y]" using assms len by (cases xs rule: rev_cases) auto
    with True len show ?thesis by (auto simp: list_update_beyond)
  next
    case False
    then have k: "k - 1 < length (map el_value xs) - 1" "xs \<noteq> []" using assms len by auto
    from mset_butlast_update [OF k(1)] k assms len show ?thesis
      by (simp add: map_update map_butlast [symmetric] last_map)
  qed
  then show ?thesis using cells nth [of "k - 1"] assms by (simp add: heap_mset_def xs_def [symmetric] hv_def)
qed

lemma heap_remove_correct:
  assumes inv: "heap_invar heap" and k: "1 \<le> k" "k \<le> 3" "k \<le> hp_used heap"
  shows "heap_invar (trickledown (heap_remove_at heap k) k)"
    "heap_mset (trickledown (heap_remove_at heap k) k) = heap_mset heap - {#hv heap k#}"
    "hp_comparator (trickledown (heap_remove_at heap k) k) = hp_comparator heap"
    "hp_bound (trickledown (heap_remove_at heap k) k) = hp_bound heap"
    "hp_used (trickledown (heap_remove_at heap k) k) = hp_used heap - 1"
    "hp_capacity (trickledown (heap_remove_at heap k) k) = hp_capacity heap"
    "hp_destructor (trickledown (heap_remove_at heap k) k) = hp_destructor heap"
    "hp_destructor_userdata (trickledown (heap_remove_at heap k) k) = hp_destructor_userdata heap"
proof -
  let ?h = "heap_remove_at heap k" and ?r = "cle (hp_comparator heap)" and ?u = "hp_used heap"
  have i: "cmp_total (hp_comparator heap)" "length (hp_elements heap) = hp_capacity heap" "?u < hp_capacity heap"
    "flags_ok heap" "mm_heap ?r (hv heap) ?u" using inv by (auto simp: heap_invar_alt)
  have pre: "total_preorder ?r" using i(1) by (rule cmp_total_preorder)
  have hv: "hv ?h j = ((hv heap)(k := hv heap ?u)) j" if "1 \<le> j" "j \<le> ?u - 1" for j
    using that k i by (auto simp: hv_def heap_remove_at_def Let_def nth_list_update)
  have down: "down_inv ?r (hv ?h) (?u - 1) k"
  proof (cases "k = ?u")
    case True
    have "mm_heap ?r (hv ?h) (?u - 1)"
      by (rule mm_heap_cong [of _ "hv heap"]) (use i hv True k in \<open>auto simp: mm_heap_def\<close>)
    then show ?thesis using True k by (auto simp: down_inv_def mm_heap_def near_below_def)
  next
    case False
    with total_preorder.down_inv_start [OF pre i(5) k(1,2)] k
    have "down_inv ?r ((hv heap)(k := hv heap ?u)) (?u - 1) k" by simp
    then show ?thesis 
      by (rule down_inv_cong) (use False k hv in auto)
  qed
  have p: "permuted (?u - 1) ?h (trickledown ?h k)" and m: "mm_heap ?r (hv (trickledown ?h k)) (?u - 1)"
    using trickledown_correct [of ?h k] i k(1) down by simp_all
  have flags: "flags_ok ?h"
    using i k by (auto simp: flags_ok_def heap_remove_at_def Let_def nth_list_update)
  show "heap_invar (trickledown ?h k)"
    by (rule heap_invar_permuted [of ?h]) (use inv flags p m in \<open>auto simp: heap_invar_alt\<close>)
  show "heap_mset (trickledown ?h k) = heap_mset heap - {#hv heap k#}"
    using heap_mset_permuted [of ?h "trickledown ?h k"] p heap_mset_remove_at [of k heap] k i by simp
  show "hp_comparator (trickledown ?h k) = hp_comparator heap" "hp_bound (trickledown ?h k) = hp_bound heap"
    "hp_used (trickledown ?h k) = ?u - 1" "hp_capacity (trickledown ?h k) = hp_capacity heap"
    "hp_destructor (trickledown ?h k) = hp_destructor heap"
    "hp_destructor_userdata (trickledown ?h k) = hp_destructor_userdata heap"
    using permuted_frame [OF p] by simp_all
qed

end
