(* ===== verification/Bounded_Heap.thy ===== *)
theory Bounded_Heap
  imports MinMax_Correct
begin

text \<open>
  What the clients of util_minmax_heap.c rely on: the pops deliver a least and a greatest element
  and remove exactly it, and a bounded heap keeps the greatest of the elements inserted into it and
  destroys the others.  The second contract is the locale \<open>bounded_pool\<close>, interpreted here on the
  operations of util_minmax_heap.c.
\<close>

section \<open>The pops as removals\<close>

lemma trickledown_leaf: "hp_used heap < 2 * i \<Longrightarrow> trickledown heap i = heap"
  by (simp add: trickledown_def trickledown_min_def trickledown_max_def trickledown_minmax.simps [of heap i]
      index_minmax_child_grandchild_def better_index_def Let_def first_child_def second_child_def)

lemma heap_remove_last:
  "hp_used heap < length (hp_elements heap) \<Longrightarrow> heap_remove_at heap (hp_used heap) =
    heap\<lparr>hp_used := hp_used heap - 1,
      hp_elements := (hp_elements heap)[hp_used heap := (hp_elements heap ! hp_used heap)\<lparr>el_used := False\<rparr>]\<rparr>"
  by (simp add: heap_remove_at_def Let_def)

text \<open>The position \<open>nr_minmax_heap_pop_max\<close> removes.\<close>

definition max_index :: "('v, 'u) nr_minmax_heap \<Rightarrow> nat" where
  "max_index heap = (if hp_used heap \<le> 2 then hp_used heap else if heap_compare heap 2 3 < 0 then 3 else 2)"

lemma pop_min_removal:
  assumes "heap_invar heap" "hp_used heap \<noteq> 0"
  shows "nr_minmax_heap_pop_min (Some heap) = (hv heap 1, Some (trickledown (heap_remove_at heap 1) 1))"
proof (cases "hp_used heap = 1")
  case True
  then have "heap_remove_at heap 1 = heap\<lparr>hp_used := 0,
      hp_elements := (hp_elements heap)[1 := (hp_elements heap ! 1)\<lparr>el_used := False\<rparr>]\<rparr>"
    using heap_remove_last [of heap] assms by (simp add: heap_invar_def)
  with True trickledown_leaf [of "heap_remove_at heap 1" 1] show ?thesis
    by (simp add: nr_minmax_heap_pop_min_def hv_def)
next
  case False
  with assms show ?thesis
    by (simp add: nr_minmax_heap_pop_min_def hv_def heap_remove_at_def Let_def)
qed

lemma pop_max_removal:
  assumes "heap_invar heap" "hp_used heap \<noteq> 0"
  shows "nr_minmax_heap_pop_max (Some heap) =
    (hv heap (max_index heap), Some (trickledown (heap_remove_at heap (max_index heap)) (max_index heap)))"
proof (cases "hp_used heap \<le> 2")
  case True
  then have k: "max_index heap = hp_used heap" by (simp add: max_index_def)
  have "trickledown (heap_remove_at heap (hp_used heap)) (hp_used heap) = heap_remove_at heap (hp_used heap)"
    using True assms(2) by (intro trickledown_leaf) simp
  with True k assms heap_remove_last [of heap] show ?thesis
    by (simp add: nr_minmax_heap_pop_max_def hv_def Let_def heap_invar_def)
next
  case False
  with assms show ?thesis
    by (simp add: nr_minmax_heap_pop_max_def max_index_def hv_def heap_remove_at_def Let_def)
qed

section \<open>Least and greatest elements\<close>

lemma in_heap_mset:
  assumes "hp_used heap < length (hp_elements heap)"
  shows "v \<in># heap_mset heap \<longleftrightarrow> (\<exists>j. 1 \<le> j \<and> j \<le> hp_used heap \<and> v = hv heap j)"
proof -
  have "map el_value (heap_cells heap (hp_used heap)) = map (\<lambda>i. hv heap (Suc i)) [0..<hp_used heap]"
    using assms by (intro nth_equalityI) (auto simp: heap_cells_length heap_cells_nth hv_def)
  then have "v \<in># heap_mset heap \<longleftrightarrow> (\<exists>i < hp_used heap. v = hv heap (Suc i))"
    unfolding heap_mset_def by auto
  also have "\<dots> \<longleftrightarrow> (\<exists>j. 1 \<le> j \<and> j \<le> hp_used heap \<and> v = hv heap j)"
    by (metis One_nat_def Suc_le_D Suc_le_eq le_add1 plus_1_eq_Suc)
  finally show ?thesis .
qed

lemma size_heap_mset: "heap_invar heap \<Longrightarrow> size (heap_mset heap) = hp_used heap"
  by (simp add: heap_mset_def heap_invar_def heap_cells_length)

lemma heap_min_least:
  assumes "heap_invar heap" "w \<in># heap_mset heap"
  shows "cle (hp_comparator heap) (hv heap 1) w"
proof -
  have i: "cmp_total (hp_comparator heap)" "hp_used heap < length (hp_elements heap)"
    "mm_heap (cle (hp_comparator heap)) (hv heap) (hp_used heap)" using assms(1) by (auto simp: heap_invar_def)
  from assms(2) i obtain j where "1 \<le> j" "j \<le> hp_used heap" "w = hv heap j" by (auto simp: in_heap_mset)
  with total_preorder.mm_heap_root [OF cmp_total_preorder [OF i(1)] i(3)] show ?thesis by simp
qed

lemma heap_max_greatest:
  assumes "heap_invar heap" "w \<in># heap_mset heap"
  shows "cle (hp_comparator heap) w (hv heap (max_index heap))"
proof -
  let ?r = "cle (hp_comparator heap)" and ?n = "hp_used heap"
  have i: "cmp_total (hp_comparator heap)" "?n < length (hp_elements heap)" "mm_heap ?r (hv heap) ?n"
    using assms(1) by (auto simp: heap_invar_def)
  have pre: "total_preorder ?r" by (rule cmp_total_preorder [OF i(1)])
  have tot: "?r x y \<or> ?r y x" and tr: "?r x y \<Longrightarrow> ?r y z \<Longrightarrow> ?r x z" for x y z
    using pre unfolding total_preorder_def by metis+
  from assms(2) i obtain j where j: "1 \<le> j" "j \<le> ?n" "w = hv heap j" by (auto simp: in_heap_mset)
  consider "?n = 1" | "?n = 2" | "3 \<le> ?n" using j by linarith
  then show ?thesis
  proof cases
    case 1
    then have "max_index heap = 1" "j = 1" using j by (auto simp: max_index_def)
    then show ?thesis using tot j by auto
  next
    case 2
    then have k: "max_index heap = 2" by (simp add: max_index_def)
    from 2 j have "j = 1 \<or> j = 2" by auto
    moreover have "?r (hv heap 1) (hv heap 2)" using 2 by (intro total_preorder.mm_heap_root [OF pre i(3)]) auto
    ultimately show ?thesis using k j tot by auto
  next
    case 3
    have c: "\<not> ?r (hv heap 3) (hv heap 2) \<longleftrightarrow> heap_compare heap 2 3 < 0"
      using i(1) by (auto simp: heap_compare_def cle_def hv_def cmp_total_def not_le)
    have "?r (hv heap 2) (hv heap (max_index heap))" "?r (hv heap 3) (hv heap (max_index heap))"
      using 3 c tot by (auto simp: max_index_def)
    moreover have "?r w (hv heap 2) \<or> ?r w (hv heap 3)"
      using total_preorder.mm_heap_top [OF pre i(3), of j] total_preorder.mm_heap_root [OF pre i(3), of 2] j 3
      by (cases "j = 1") auto
    ultimately show ?thesis using tr by blast
  qed
qed

lemma peek_max_greatest:
  assumes inv: "heap_invar heap" and used: "hp_used heap \<noteq> 0"
  shows "nr_minmax_heap_peek_max (Some heap) \<in># heap_mset heap"
    "w \<in># heap_mset heap \<Longrightarrow> cle (hp_comparator heap) w (nr_minmax_heap_peek_max (Some heap))"
proof -
  define k where "k = (if hp_used heap \<le> 2 then hp_used heap else if heap_compare heap 2 3 > 0 then 2 else 3)"
  have c: "cmp_total (hp_comparator heap)" and len: "hp_used heap < length (hp_elements heap)"
    using inv by (auto simp: heap_invar_def)
  have "1 \<le> k" "k \<le> hp_used heap" using used by (auto simp: k_def)
  moreover have peek: "nr_minmax_heap_peek_max (Some heap) = hv heap k"
    using used by (auto simp: nr_minmax_heap_peek_max_def k_def hv_def le_Suc_eq numeral_2_eq_2)
  ultimately show "nr_minmax_heap_peek_max (Some heap) \<in># heap_mset heap" using len by (auto simp: in_heap_mset)
  have "cle (hp_comparator heap) (hv heap (max_index heap)) (hv heap k)"
    using c unfolding k_def max_index_def heap_compare_def cle_def hv_def cmp_total_def comparator_ok_def
    by (smt (verit))
  moreover assume "w \<in># heap_mset heap"
  ultimately show "cle (hp_comparator heap) w (nr_minmax_heap_peek_max (Some heap))"
    using heap_max_greatest [OF inv] cmp_total_preorder [OF c] unfolding peek total_preorder_def by blast
qed

section \<open>Every operation keeps the invariant\<close>

lemma nr_minmax_heap_create_invar:
  assumes "cmp_total c" "nr_minmax_heap_create bound (Some c) dtor ud = Some heap"
  shows "heap_invar heap" "heap_mset heap = {#}" "hp_bound heap = nat bound" "hp_comparator heap = c"
    "hp_destructor heap = dtor" "hp_destructor_userdata heap = ud" "0 \<le> bound" "bound \<noteq> 1"
  using assms
  by (auto simp: nr_minmax_heap_create_def heap_invar_def Let_def mm_heap_def zero_element_def heap_mset_def
      heap_cells_def NR_MINMAX_HEAP_CHUNK_SIZE_def simp del: replicate_Suc split: if_splits)

lemma heap_grow_correct:
  assumes inv: "heap_invar heap" and room: "hp_bound heap = 0 \<or> hp_used heap < hp_bound heap"
  shows "heap_invar (heap_grow heap)" "heap_mset (heap_grow heap) = heap_mset heap"
    "hp_comparator (heap_grow heap) = hp_comparator heap" "hp_bound (heap_grow heap) = hp_bound heap"
    "hp_used (heap_grow heap) = hp_used heap"
    "Suc (hp_used heap) < hp_capacity (heap_grow heap)"
    "hp_destructor (heap_grow heap) = hp_destructor heap"
    "hp_destructor_userdata (heap_grow heap) = hp_destructor_userdata heap"
proof -
  have i: "cmp_total (hp_comparator heap)" "length (hp_elements heap) = hp_capacity heap" "hp_used heap < hp_capacity heap"
    "mm_heap (cle (hp_comparator heap)) (hv heap) (hp_used heap)" using inv by (auto simp: heap_invar_def)
  have mm: "mm_heap (cle (hp_comparator heap)) (hv (heap_grow heap)) (hp_used heap)"
    by (rule mm_heap_cong [OF i(4)]) (use i in \<open>auto simp: heap_grow_def hv_def nth_append\<close>)
  show "heap_mset (heap_grow heap) = heap_mset heap"
    using i by (simp add: heap_mset_def heap_cells_def heap_grow_def)
  show "hp_comparator (heap_grow heap) = hp_comparator heap" "hp_bound (heap_grow heap) = hp_bound heap"
    "hp_used (heap_grow heap) = hp_used heap" "hp_destructor (heap_grow heap) = hp_destructor heap"
    "hp_destructor_userdata (heap_grow heap) = hp_destructor_userdata heap"
    by (simp_all add: heap_grow_def)
  show "Suc (hp_used heap) < hp_capacity (heap_grow heap)"
    using inv room by (auto simp: heap_grow_def heap_invar_def)
  show "heap_invar (heap_grow heap)"
    using inv room mm i by (auto simp: heap_grow_def heap_invar_def nth_append zero_element_def simp del: replicate_Suc)
qed

lemma hv_userdata [simp]: "hv (heap\<lparr>hp_destructor_userdata := u\<rparr>) = hv heap"
  by (simp add: hv_def fun_eq_iff)

lemma heap_destroy_value_simps [simp]:
  "hp_used (heap_destroy_value heap v) = hp_used heap" "hp_bound (heap_destroy_value heap v) = hp_bound heap"
  "hp_capacity (heap_destroy_value heap v) = hp_capacity heap" "hp_elements (heap_destroy_value heap v) = hp_elements heap"
  "hp_comparator (heap_destroy_value heap v) = hp_comparator heap"
  "hp_destructor (heap_destroy_value heap v) = hp_destructor heap"
  "heap_invar (heap_destroy_value heap v) = heap_invar heap" "heap_mset (heap_destroy_value heap v) = heap_mset heap"
  by (auto simp: heap_destroy_value_def heap_invar_def heap_mset_def heap_cells_def hv_def fun_eq_iff split: option.splits)

text \<open>What the destructor does to its user data, nothing when there is none.\<close>

definition heap_kill :: "('v, 'u) nr_minmax_heap \<Rightarrow> 'v option \<Rightarrow> 'u \<Rightarrow> 'u" where
  "heap_kill heap = (case hp_destructor heap of None \<Rightarrow> (\<lambda>_ u. u) | Some d \<Rightarrow> d)"

lemma heap_destroy_value_log:
  "hp_destructor_userdata (heap_destroy_value heap v) = heap_kill heap v (hp_destructor_userdata heap)"
  by (simp add: heap_destroy_value_def heap_kill_def split: option.splits)

section \<open>A bounded pool that keeps the greatest elements\<close>

text \<open>
  \<open>pos\<close> is the order, \<open>cap\<close> the bound (0 for none), \<open>con\<close> the contents, \<open>kill\<close> what the destructor
  does and \<open>log\<close> the state it works on.
\<close>

locale bounded_pool =
  fixes inv :: "'h \<Rightarrow> bool" and con :: "'h \<Rightarrow> 'a multiset" and ins :: "'h \<Rightarrow> 'a \<Rightarrow> 'h"
    and pos :: "'h \<Rightarrow> 'a \<Rightarrow> 'a \<Rightarrow> bool" and cap :: "'h \<Rightarrow> nat"
    and kill :: "'h \<Rightarrow> 'a \<Rightarrow> 'u \<Rightarrow> 'u" and log :: "'h \<Rightarrow> 'u"
  assumes pos_trans: "inv h \<Longrightarrow> pos h x y \<Longrightarrow> pos h y z \<Longrightarrow> pos h x z"
    and ins_inv: "inv h \<Longrightarrow> inv (ins h v)"
    and ins_frame: "inv h \<Longrightarrow> pos (ins h v) = pos h \<and> cap (ins h v) = cap h \<and> kill (ins h v) = kill h"
    and ins_room: "inv h \<Longrightarrow> cap h = 0 \<or> size (con h) < cap h \<Longrightarrow>
      con (ins h v) = add_mset v (con h) \<and> log (ins h v) = log h"
    and ins_full: "inv h \<Longrightarrow> cap h \<noteq> 0 \<Longrightarrow> cap h \<le> size (con h) \<Longrightarrow>
      \<exists>d. add_mset d (con (ins h v)) = add_mset v (con h) \<and> (\<forall>w \<in># add_mset v (con h). pos h d w) \<and>
        log (ins h v) = kill h d (log h)"
begin

definition ins_all :: "'a list \<Rightarrow> 'h \<Rightarrow> 'h" where
  "ins_all vs h = fold (\<lambda>v h. ins h v) vs h"

lemma ins_all_frame:
  "inv h \<Longrightarrow> inv (ins_all vs h) \<and> pos (ins_all vs h) = pos h \<and> cap (ins_all vs h) = cap h \<and> kill (ins_all vs h) = kill h"
  unfolding ins_all_def by (induction vs rule: rev_induct) (simp_all add: ins_inv ins_frame)

lemma ins_all_keeps_greatest:
  assumes "inv h"
  shows "\<exists>ds. con (ins_all vs h) + mset ds = con h + mset vs \<and> (ds \<noteq> [] \<longrightarrow> 0 < cap h \<and> cap h \<le> size (con (ins_all vs h))) \<and>
    (\<forall>d \<in> set ds. \<forall>w \<in># con (ins_all vs h). pos h d w) \<and> log (ins_all vs h) = fold (kill h) ds (log h)"
proof (induction vs rule: rev_induct)
  case Nil
  show ?case by (rule exI [of _ "[]"]) (simp add: ins_all_def)
next
  case (snoc v vs)
  let ?h = "ins_all vs h"
  have fr: "inv ?h" "pos ?h = pos h" "cap ?h = cap h" "kill ?h = kill h" using ins_all_frame [OF assms] by auto
  have step: "ins_all (vs @ [v]) h = ins ?h v" by (simp add: ins_all_def)
  from snoc obtain ds where ds: "con ?h + mset ds = con h + mset vs"
      "ds \<noteq> [] \<longrightarrow> 0 < cap h \<and> cap h \<le> size (con ?h)"
      "\<forall>d \<in> set ds. \<forall>w \<in># con ?h. pos h d w" "log ?h = fold (kill h) ds (log h)" by blast
  show ?case
  proof (cases "cap h = 0 \<or> size (con ?h) < cap h")
    case True
    then have "ds = []" using ds(2) by auto
    then show ?thesis using ins_room [OF fr(1), of v] True ds fr step by (intro exI [of _ "[]"]) simp
  next
    case False
    with ins_full [OF fr(1), of v] fr obtain d where
      d: "add_mset d (con (ins ?h v)) = add_mset v (con ?h)" "\<forall>w \<in># add_mset v (con ?h). pos h d w"
        "log (ins ?h v) = kill h d (log ?h)" by auto
    have size: "size (con (ins ?h v)) = size (con ?h)" using arg_cong [OF d(1), of size] by simp
    have sub: "w \<in># add_mset v (con ?h)" if "w \<in># con (ins ?h v)" for w
      using that d(1) by (metis insert_noteq_member set_mset_add_mset_insert insertI2)
    have old: "pos h x w" if x: "x \<in> set ds" and w: "w \<in># con (ins ?h v)" for x w
    proof -
      from sub [OF w] consider "w \<in># con ?h" | "w = v" "w \<notin># con ?h" by auto
      then show ?thesis
      proof cases
        case 2
        then have "d \<noteq> v" using d(1) w by (metis add_mset_add_mset_same_iff)
        then have "d \<in># con ?h" using d(1) by (metis insert_noteq_member)
        then have "pos h x d" "pos h d v" using ds(3) d(2) x by auto
        then show ?thesis using 2 pos_trans [OF assms] by blast
      qed (use ds(3) x in blast)
    qed
    have "con (ins ?h v) + mset (ds @ [d]) = con h + mset (vs @ [v])"
      using ds(1) d(1) by (simp add: union_assoc [symmetric]) (metis union_mset_add_mset_left)
    moreover have "\<forall>x \<in> set (ds @ [d]). \<forall>w \<in># con (ins ?h v). pos h x w" using old d(2) sub by auto
    ultimately show ?thesis
      using False ds d size step by (intro exI [of _ "ds @ [d]"]) auto
  qed
qed

lemma ins_all_size:
  assumes "inv h" "con h = {#}"
  shows "size (con (ins_all vs h)) = (if cap h = 0 then length vs else min (cap h) (length vs))"
proof -
  have "size (con (ins_all us h)) \<le> cap h" if "cap h \<noteq> 0" for us
  proof (induction us rule: rev_induct)
    case Nil
    then show ?case by (simp add: ins_all_def assms)
  next
    case (snoc v us)
    have fr: "inv (ins_all us h)" "cap (ins_all us h) = cap h" using ins_all_frame [OF assms(1)] by auto
    have step: "ins_all (us @ [v]) h = ins (ins_all us h) v" by (simp add: ins_all_def)
    show ?case
    proof (cases "size (con (ins_all us h)) < cap h")
      case True
      then show ?thesis using ins_room [OF fr(1)] fr step by auto
    next
      case False
      with ins_full [OF fr(1), of v] fr that obtain d where
        "add_mset d (con (ins (ins_all us h) v)) = add_mset v (con (ins_all us h))" by auto
      from arg_cong [OF this, of size] snoc step show ?thesis by simp
    qed
  qed
  moreover obtain ds where ds: "con (ins_all vs h) + mset ds = con h + mset vs"
      "ds \<noteq> [] \<longrightarrow> 0 < cap h \<and> cap h \<le> size (con (ins_all vs h))"
    using ins_all_keeps_greatest [OF assms(1)] by blast
  moreover have "size (con (ins_all vs h)) + length ds = length vs"
    using arg_cong [OF ds(1), of size] assms(2) by simp
  ultimately have "cap h \<noteq> 0 \<longrightarrow> size (con (ins_all vs h)) \<le> cap h" "size (con (ins_all vs h)) + length ds = length vs"
    "ds = [] \<or> 0 < cap h \<and> cap h \<le> size (con (ins_all vs h))" by blast+
  then show ?thesis by (cases "ds = []") (auto simp: min_def)
qed

end

section \<open>The min-max heap as a bounded pool\<close>

definition heap_insert :: "('v, 'u) nr_minmax_heap \<Rightarrow> 'v option \<Rightarrow> ('v, 'u) nr_minmax_heap" where
  "heap_insert heap v = the (nr_minmax_heap_insert (Some heap) v)"

lemma heap_insert_room:
  assumes inv: "heap_invar heap" and room: "hp_bound heap = 0 \<or> hp_used heap < hp_bound heap"
  shows "nr_minmax_heap_insert (Some heap) v = Some (heap_add (heap_grow heap) v)"
    "heap_invar (heap_add (heap_grow heap) v)" "heap_mset (heap_add (heap_grow heap) v) = add_mset v (heap_mset heap)"
    "hp_comparator (heap_add (heap_grow heap) v) = hp_comparator heap" "hp_bound (heap_add (heap_grow heap) v) = hp_bound heap"
    "hp_destructor (heap_add (heap_grow heap) v) = hp_destructor heap"
    "hp_destructor_userdata (heap_add (heap_grow heap) v) = hp_destructor_userdata heap"
proof -
  show "nr_minmax_heap_insert (Some heap) v = Some (heap_add (heap_grow heap) v)"
    using room by (auto simp: nr_minmax_heap_insert_def)
  note g = heap_grow_correct [OF assms]
  have "hp_bound (heap_grow heap) \<noteq> 0 \<Longrightarrow> hp_used (heap_grow heap) < hp_bound (heap_grow heap)"
    using room g by auto
  note add = heap_add_correct [OF g(1) _ this, unfolded g(2-5,7,8), OF g(6)]
  show "heap_invar (heap_add (heap_grow heap) v)" "heap_mset (heap_add (heap_grow heap) v) = add_mset v (heap_mset heap)"
    "hp_comparator (heap_add (heap_grow heap) v) = hp_comparator heap" "hp_bound (heap_add (heap_grow heap) v) = hp_bound heap"
    "hp_destructor (heap_add (heap_grow heap) v) = hp_destructor heap"
    "hp_destructor_userdata (heap_add (heap_grow heap) v) = hp_destructor_userdata heap"
    using add by simp_all
qed

lemma heap_insert_full:
  assumes inv: "heap_invar heap" and full: "hp_bound heap \<noteq> 0" "hp_bound heap \<le> hp_used heap"
  obtains d heap' where "nr_minmax_heap_insert (Some heap) v = Some heap'" "heap_invar heap'"
    "add_mset d (heap_mset heap') = add_mset v (heap_mset heap)"
    "\<forall>w \<in># add_mset v (heap_mset heap). cle (hp_comparator heap) d w"
    "hp_destructor_userdata heap' = heap_kill heap d (hp_destructor_userdata heap)"
    "hp_comparator heap' = hp_comparator heap" "hp_bound heap' = hp_bound heap" "hp_destructor heap' = hp_destructor heap"
proof (cases "hp_comparator heap (hv heap 1) v > 0")
  case True
  have used: "hp_used heap \<noteq> 0" using full by auto
  then have peek: "nr_minmax_heap_peek_min (Some heap) = hv heap 1" by (simp add: nr_minmax_heap_peek_min_def hv_def)
  have c: "cmp_total (hp_comparator heap)" using inv by (simp add: heap_invar_def)
  have refl: "cle (hp_comparator heap) x x" for x using c by (auto simp: cmp_total_def comparator_ok_def cle_def)
  have lt: "cle (hp_comparator heap) v (hv heap 1)" using True c by (auto simp: cle_def cmp_total_def)
  have tr: "cle (hp_comparator heap) x z" if "cle (hp_comparator heap) x y" "cle (hp_comparator heap) y z" for x y z
    using cmp_total_preorder [OF c] that unfolding total_preorder_def by blast
  show ?thesis
    by (rule that [of "heap_destroy_value heap v" v])
      (use inv True full peek refl lt tr heap_min_least [OF inv] in
        \<open>auto simp: nr_minmax_heap_insert_def heap_destroy_value_log\<close>)
next
  case False
  have used: "hp_used heap \<noteq> 0" using full by auto
  then have peek: "nr_minmax_heap_peek_min (Some heap) = hv heap 1" by (simp add: nr_minmax_heap_peek_min_def hv_def)
  let ?h = "heap_destroy_value (trickledown (heap_remove_at heap 1) 1) (hv heap 1)"
  have rm: "1 \<le> hp_used heap" using used by simp
  note r = heap_remove_correct [OF inv order_refl _ rm]
  have inv': "heap_invar ?h" using r(1) by simp
  have room: "hp_bound ?h = 0 \<or> hp_used ?h < hp_bound ?h"
    using r inv full used by (auto simp: heap_invar_def)
  note i = heap_insert_room [OF inv' room]
  have mem: "hv heap 1 \<in># heap_mset heap" using inv rm by (auto simp: heap_invar_def in_heap_mset)
  have kill: "heap_kill (trickledown (heap_remove_at heap 1) 1) = heap_kill heap"
    using r by (simp add: heap_kill_def)
  show ?thesis
    by (rule that [of "heap_add (heap_grow ?h) v" "hv heap 1"])
      (use False full peek i r mem kill heap_min_least [OF inv] pop_min_removal [OF inv used] in
        \<open>auto simp: nr_minmax_heap_insert_def heap_destroy_value_log cle_def\<close>)
qed

interpretation mmh: bounded_pool heap_invar heap_mset heap_insert "\<lambda>h. cle (hp_comparator h)" hp_bound heap_kill
  hp_destructor_userdata
proof unfold_locales
  fix h :: "('v, 'u) nr_minmax_heap" and v x y z
  assume inv: "heap_invar h"
  then have c: "cmp_total (hp_comparator h)" by (simp add: heap_invar_def)
  show "cle (hp_comparator h) x z" if "cle (hp_comparator h) x y" "cle (hp_comparator h) y z"
    using cmp_total_preorder [OF c] that unfolding total_preorder_def by blast
  have both: "heap_invar (heap_insert h v) \<and> hp_comparator (heap_insert h v) = hp_comparator h \<and>
      hp_bound (heap_insert h v) = hp_bound h \<and> hp_destructor (heap_insert h v) = hp_destructor h"
  proof (cases "hp_bound h = 0 \<or> hp_used h < hp_bound h")
    case True
    from heap_insert_room [OF inv this] show ?thesis by (simp add: heap_insert_def)
  next
    case False
    then show ?thesis by (auto simp: heap_insert_def intro: heap_insert_full [OF inv, of v])
  qed
  then show "heap_invar (heap_insert h v)"
    and "cle (hp_comparator (heap_insert h v)) = cle (hp_comparator h) \<and> hp_bound (heap_insert h v) = hp_bound h \<and>
      heap_kill (heap_insert h v) = heap_kill h" by (simp_all add: heap_kill_def)
  show "heap_mset (heap_insert h v) = add_mset v (heap_mset h) \<and>
      hp_destructor_userdata (heap_insert h v) = hp_destructor_userdata h"
    if "hp_bound h = 0 \<or> size (heap_mset h) < hp_bound h"
    using heap_insert_room [OF inv] that by (simp add: heap_insert_def size_heap_mset [OF inv])
  show "\<exists>d. add_mset d (heap_mset (heap_insert h v)) = add_mset v (heap_mset h) \<and>
      (\<forall>w \<in># add_mset v (heap_mset h). cle (hp_comparator h) d w) \<and>
      hp_destructor_userdata (heap_insert h v) = heap_kill h d (hp_destructor_userdata h)"
    if "hp_bound h \<noteq> 0" "hp_bound h \<le> size (heap_mset h)"
    using heap_insert_full [OF inv that(1), of v] that(2) size_heap_mset [OF inv] unfolding heap_insert_def
    by (metis option.sel)
qed

lemma fold_insert_all:
  fixes heap :: "('v, 'u) nr_minmax_heap"
  assumes "heap_invar heap"
  shows "fold (\<lambda>v h. nr_minmax_heap_insert h v) vs (Some heap) = Some (mmh.ins_all vs heap)"
proof (induction vs rule: rev_induct)
  case Nil
  then show ?case by (simp add: mmh.ins_all_def)
next
  case (snoc v vs)
  have "nr_minmax_heap_insert (Some h) v \<noteq> None" for h :: "('v, 'u) nr_minmax_heap"
    by (auto simp: nr_minmax_heap_insert_def nr_minmax_heap_pop_min_def Let_def)
  then have "nr_minmax_heap_insert (Some h) v = Some (heap_insert h v)" for h :: "('v, 'u) nr_minmax_heap"
    by (metis heap_insert_def option.collapse)
  with snoc show ?case by (simp add: mmh.ins_all_def)
qed

lemma heap_insert_comparator:
  "heap_invar heap \<Longrightarrow> hp_comparator (heap_insert heap v) = hp_comparator heap"
  by (cases "hp_bound heap = 0 \<or> hp_used heap < hp_bound heap")
    (auto simp: heap_insert_def heap_insert_room intro: heap_insert_full [of heap v])

text \<open>A heap of at most two integers that counts what it destroys, for the concrete instances.\<close>

definition heap0 :: "(int, nat) nr_minmax_heap" where
  "heap0 = the (nr_minmax_heap_create 2 (Some (COMPARATOR_NULL_CHECK (\<lambda>a b. a - b))) (Some (\<lambda>_ n. Suc n)) 0)"

lemma int_cmp_total: "cmp_total (COMPARATOR_NULL_CHECK (\<lambda>a b. a - b :: int))"
  by (intro cmp_total_null_check) (auto simp: cmp_total_def comparator_ok_def)

lemma heap0_create:
  "nr_minmax_heap_create 2 (Some (COMPARATOR_NULL_CHECK (\<lambda>a b. a - b))) (Some (\<lambda>_ n. Suc n)) 0 = Some heap0"
  by (simp add: heap0_def nr_minmax_heap_create_def Let_def)

lemmas heap0_invar = nr_minmax_heap_create_invar(1) [OF int_cmp_total heap0_create]
lemmas heap0_facts = nr_minmax_heap_create_invar(2-6) [OF int_cmp_total heap0_create]

section \<open>Properties\<close>

text \<open>The element that the two functions for the maximum agree on, and what they do on a tie.\<close>

lemma pop_peek_max_same:
  assumes "nr_minmax_heap_pop_max (Some heap) = (hi, Some heap2)"
  shows "if 3 \<le> hp_used heap \<and> heap_compare heap 2 3 = 0
    then hi = el_value (hp_elements heap ! 2) \<and> nr_minmax_heap_peek_max (Some heap) = el_value (hp_elements heap ! 3)
    else nr_minmax_heap_peek_max (Some heap) = hi"
proof -
  consider "hp_used heap = 0" | "hp_used heap = 1" | "hp_used heap = 2" | "3 \<le> hp_used heap" by linarith
  then show ?thesis
    using assms
    by cases (auto simp: nr_minmax_heap_pop_max_def nr_minmax_heap_peek_max_def Let_def split: if_splits)
qed


lemma heap_pops:
  assumes inv: "heap_invar heap" and ne: "heap_mset heap \<noteq> {#}"
  shows "\<exists>lo hi heap1 heap2.
    nr_minmax_heap_pop_min (Some heap) = (lo, Some heap1) \<and> nr_minmax_heap_pop_max (Some heap) = (hi, Some heap2) \<and>
    (\<forall>w \<in># heap_mset heap. hp_comparator heap lo w \<le> 0 \<and> hp_comparator heap w hi \<le> 0) \<and>
    nr_minmax_heap_peek_min (Some heap) = lo \<and> nr_minmax_heap_peek_max (Some heap) \<in># heap_mset heap \<and>
    (\<forall>w \<in># heap_mset heap. hp_comparator heap w (nr_minmax_heap_peek_max (Some heap)) \<le> 0) \<and>
    add_mset lo (heap_mset heap1) = heap_mset heap \<and> add_mset hi (heap_mset heap2) = heap_mset heap \<and>
    heap_invar heap1 \<and> heap_invar heap2"
proof -
  have used: "hp_used heap \<noteq> 0" using ne size_heap_mset [OF inv] by (metis size_eq_0_iff_empty)
  have k: "1 \<le> max_index heap" "max_index heap \<le> 3" "max_index heap \<le> hp_used heap"
    using used by (auto simp: max_index_def)
  have one: "(1 :: nat) \<le> 1" "(1 :: nat) \<le> 3" "1 \<le> hp_used heap" using used by auto
  have "hv heap 1 \<in># heap_mset heap" "hv heap (max_index heap) \<in># heap_mset heap"
    using inv k one by (auto simp: heap_invar_def in_heap_mset)
  moreover have "nr_minmax_heap_peek_min (Some heap) = hv heap 1"
    using used by (simp add: nr_minmax_heap_peek_min_def hv_def)
  ultimately show ?thesis
    using heap_remove_correct [OF inv k] heap_remove_correct [OF inv one] heap_min_least [OF inv] heap_max_greatest [OF inv]
      pop_min_removal [OF inv used] pop_max_removal [OF inv used] peek_max_greatest [OF inv used]
    by (simp add: cle_def)
qed

text \<open>
  C4 (functional).  On a well-formed non-empty heap, \<open>nr_minmax_heap_pop_min\<close> returns a least and
  \<open>nr_minmax_heap_pop_max\<close> a greatest element of the heap; each removes exactly that element and
  leaves a well-formed heap.  \<open>nr_minmax_heap_peek_min\<close> returns the element the pop would return.
  \<open>nr_minmax_heap_peek_max\<close> returns a greatest element of the heap that the comparator does not
  distinguish from the one the pop would return.  It is the same element unless the heap has at
  least three elements and the indices 2 and 3 tie: then the peek gives index 3 and the pop takes
  index 2.
\<close>

theorem nr_minmax_heap_pops_correct:
  assumes inv: "heap_invar heap" and ne: "heap_mset heap \<noteq> {#}"
  shows "\<exists>lo hi heap1 heap2.
    nr_minmax_heap_pop_min (Some heap) = (lo, Some heap1) \<and> nr_minmax_heap_pop_max (Some heap) = (hi, Some heap2) \<and>
    (\<forall>w \<in># heap_mset heap. hp_comparator heap lo w \<le> 0 \<and> hp_comparator heap w hi \<le> 0) \<and>
    nr_minmax_heap_peek_min (Some heap) = lo \<and> nr_minmax_heap_peek_max (Some heap) \<in># heap_mset heap \<and>
    (\<forall>w \<in># heap_mset heap. hp_comparator heap w (nr_minmax_heap_peek_max (Some heap)) \<le> 0) \<and>
    hp_comparator heap (nr_minmax_heap_peek_max (Some heap)) hi = 0 \<and>
    hp_comparator heap hi (nr_minmax_heap_peek_max (Some heap)) = 0 \<and>
    (if 3 \<le> hp_used heap \<and> heap_compare heap 2 3 = 0
     then hi = el_value (hp_elements heap ! 2) \<and> nr_minmax_heap_peek_max (Some heap) = el_value (hp_elements heap ! 3)
     else nr_minmax_heap_peek_max (Some heap) = hi) \<and>
    add_mset lo (heap_mset heap1) = heap_mset heap \<and> add_mset hi (heap_mset heap2) = heap_mset heap \<and>
    heap_invar heap1 \<and> heap_invar heap2"
proof -
  from heap_pops [OF assms] obtain lo hi heap1 heap2 where
    h: "nr_minmax_heap_pop_min (Some heap) = (lo, Some heap1)" "nr_minmax_heap_pop_max (Some heap) = (hi, Some heap2)"
    "\<forall>w \<in># heap_mset heap. hp_comparator heap lo w \<le> 0 \<and> hp_comparator heap w hi \<le> 0"
    "nr_minmax_heap_peek_min (Some heap) = lo" "nr_minmax_heap_peek_max (Some heap) \<in># heap_mset heap"
    "\<forall>w \<in># heap_mset heap. hp_comparator heap w (nr_minmax_heap_peek_max (Some heap)) \<le> 0"
    "add_mset lo (heap_mset heap1) = heap_mset heap" "add_mset hi (heap_mset heap2) = heap_mset heap"
    "heap_invar heap1" "heap_invar heap2"
    by (elim exE conjE) (rule that)
  have "hi \<in># heap_mset heap" using h(8) by (metis union_single_eq_member)
  with h(3,5,6) have le: "hp_comparator heap (nr_minmax_heap_peek_max (Some heap)) hi \<le> 0"
    "hp_comparator heap hi (nr_minmax_heap_peek_max (Some heap)) \<le> 0" by blast+
  have tot: "cmp_total (hp_comparator heap)" using inv by (simp add: heap_invar_def)
  have "hp_comparator heap (nr_minmax_heap_peek_max (Some heap)) hi = 0"
    "hp_comparator heap hi (nr_minmax_heap_peek_max (Some heap)) = 0"
    using le tot unfolding cmp_total_def by (metis linorder_not_le order_le_less)+
  moreover have "if 3 \<le> hp_used heap \<and> heap_compare heap 2 3 = 0
    then hi = el_value (hp_elements heap ! 2) \<and> nr_minmax_heap_peek_max (Some heap) = el_value (hp_elements heap ! 3)
    else nr_minmax_heap_peek_max (Some heap) = hi"
    using h(2) by (rule pop_peek_max_same)
  ultimately show ?thesis using h
    by (intro exI [of _ lo] exI [of _ hi] exI [of _ heap1] exI [of _ heap2]) simp
qed

theorem nr_minmax_heap_pops_correct_witness:
  "let heap = heap_insert (heap_insert heap0 (Some 5)) (Some 3) in
   heap_invar heap \<and> heap_mset heap = {#Some 5, Some 3#} \<and>
   fst (nr_minmax_heap_pop_min (Some heap)) = Some 3 \<and> fst (nr_minmax_heap_pop_max (Some heap)) = Some 5 \<and>
   nr_minmax_heap_peek_max (Some heap) = Some 5"
proof -
  define heap where "heap = heap_insert (heap_insert heap0 (Some 5)) (Some 3)"
  have inv: "heap_invar heap" unfolding heap_def by (intro mmh.ins_inv heap0_invar)
  have ms: "heap_mset heap = {#Some 5, Some 3#}"
    unfolding heap_def using mmh.ins_room [OF heap0_invar] mmh.ins_room [OF mmh.ins_inv [OF heap0_invar]]
    by (simp add: heap0_facts mmh.ins_frame [OF heap0_invar])
  have cmp: "hp_comparator heap = COMPARATOR_NULL_CHECK (\<lambda>a b. a - b)"
    unfolding heap_def
    by (simp only: heap_insert_comparator [OF heap0_invar] heap_insert_comparator [OF mmh.ins_inv [OF heap0_invar]] heap0_facts)
  have ne: "heap_mset heap \<noteq> {#}" using ms by simp
  obtain lo hi heap1 heap2 where h: "nr_minmax_heap_pop_min (Some heap) = (lo, Some heap1)"
    "nr_minmax_heap_pop_max (Some heap) = (hi, Some heap2)"
    "\<forall>w \<in># heap_mset heap. hp_comparator heap lo w \<le> 0 \<and> hp_comparator heap w hi \<le> 0"
    "nr_minmax_heap_peek_max (Some heap) \<in># heap_mset heap"
    "\<forall>w \<in># heap_mset heap. hp_comparator heap w (nr_minmax_heap_peek_max (Some heap)) \<le> 0"
    "add_mset lo (heap_mset heap1) = heap_mset heap" "add_mset hi (heap_mset heap2) = heap_mset heap"
    using nr_minmax_heap_pops_correct [OF inv ne] by (elim exE conjE) (rule that)
  then have m: "lo \<in># {#Some 5, Some 3#}" "hi \<in># {#Some 5, Some 3#}"
    "nr_minmax_heap_peek_max (Some heap) \<in># {#Some 5, Some 3#}"
    unfolding ms [symmetric] by (metis union_single_eq_member)+
  have le: "hp_comparator heap (Some 5) hi \<le> 0" "hp_comparator heap lo (Some 3) \<le> 0"
    "hp_comparator heap (Some 5) (nr_minmax_heap_peek_max (Some heap)) \<le> 0"
    using h(3,5) unfolding ms by simp_all
  show ?thesis
    unfolding Let_def heap_def [symmetric]
    using inv ms h(1,2) m le by (auto simp: cmp COMPARATOR_NULL_CHECK_def)
qed

text \<open>
  C3 (functional).  Any sequence of insertions into a freshly created heap leaves a well-formed heap
  of \<open>min bound n\<close> elements (all \<open>n\<close> when the bound is 0).  What was inserted is either still in
  the heap or was handed to the destructor, once and in turn, and nothing that was destroyed is
  greater than anything retained.
\<close>

theorem nr_minmax_heap_keeps_greatest:
  assumes c: "cmp_total c" and create: "nr_minmax_heap_create bound (Some c) dtor ud = Some heap"
  shows "\<exists>heap' ds. fold (\<lambda>v h. nr_minmax_heap_insert h v) vs (Some heap) = Some heap' \<and> heap_invar heap' \<and>
    heap_mset heap' + mset ds = mset vs \<and> (\<forall>d \<in> set ds. \<forall>w \<in># heap_mset heap'. c d w \<le> 0) \<and>
    nr_minmax_heap_size (Some heap') = (if bound = 0 then length vs else min (nat bound) (length vs)) \<and>
    hp_destructor_userdata heap' = fold (heap_kill heap) ds ud"
proof -
  note n = nr_minmax_heap_create_invar [OF assms]
  let ?h = "mmh.ins_all vs heap"
  obtain ds where "heap_mset ?h + mset ds = heap_mset heap + mset vs"
      "\<forall>d \<in> set ds. \<forall>w \<in># heap_mset ?h. cle (hp_comparator heap) d w"
      "hp_destructor_userdata ?h = fold (heap_kill heap) ds (hp_destructor_userdata heap)"
    using mmh.ins_all_keeps_greatest [OF n(1)] by blast
  moreover have "heap_invar ?h" using mmh.ins_all_frame [OF n(1)] by blast
  moreover have "hp_used ?h = (if bound = 0 then length vs else min (nat bound) (length vs))"
    using mmh.ins_all_size [OF n(1,2), of vs] size_heap_mset [OF \<open>heap_invar ?h\<close>] n(3,7) by auto
  ultimately show ?thesis
    using fold_insert_all [OF n(1), of vs] n by (intro exI [of _ ?h] exI [of _ ds]) (simp add: cle_def nr_minmax_heap_size_def)
qed

theorem nr_minmax_heap_keeps_greatest_witness:
  "\<exists>heap'. fold (\<lambda>v h. nr_minmax_heap_insert h v) [Some 5, Some 1, Some 7] (Some heap0) = Some heap' \<and>
     hp_destructor_userdata heap' = 1 \<and> nr_minmax_heap_size (Some heap') = 2"
proof -
  obtain heap' ds where h: "fold (\<lambda>v h. nr_minmax_heap_insert h v) [Some 5, Some 1, Some 7] (Some heap0) = Some heap'"
      "heap_invar heap'" "heap_mset heap' + mset ds = mset [Some 5, Some 1, Some 7]" "nr_minmax_heap_size (Some heap') = 2"
      "hp_destructor_userdata heap' = fold (heap_kill heap0) ds 0"
    using nr_minmax_heap_keeps_greatest [OF int_cmp_total heap0_create, of "[Some 5, Some 1, Some 7]"] by auto
  have "size (heap_mset heap') = 2" using h(4) size_heap_mset [OF h(2)] by (simp add: nr_minmax_heap_size_def)
  then have "length ds = 1" using arg_cong [OF h(3), of size] by simp
  then obtain d where "ds = [d]" by (auto simp: length_Suc_conv)
  then show ?thesis using h by (auto simp: heap_kill_def heap0_facts)
qed

end
