(* ===== verification/Segment_Heap.thy ===== *)
theory Segment_Heap
  imports World Bounded_Heap
begin

text \<open>
  The comparators of nr_segment.c and the bounded heaps of segments built with them: the slowest
  segments are the ones kept for the transaction trace, and those of the highest priority for the
  span events.  The priority of a segment is an \<open>int\<close>, the signed value of the word.
\<close>

definition nr_segment_duration_comparator :: "nr_segment comparator" where
  "nr_segment_duration_comparator a b =
     (let duration_a = seg_stop_time a - seg_start_time a;
          duration_b = seg_stop_time b - seg_start_time b
      in if duration_a < duration_b then - 1 else if duration_a > duration_b then 1 else 0)"

definition nr_segment_wrapped_duration_comparator :: "nr_segment option comparator" where
  "nr_segment_wrapped_duration_comparator = COMPARATOR_NULL_CHECK nr_segment_duration_comparator"

definition nr_segment_span_priority_comparator :: "nr_segment comparator" where
  "nr_segment_span_priority_comparator a b =
     (if sint (seg_priority a) > sint (seg_priority b) then 1
      else if sint (seg_priority a) < sint (seg_priority b) then - 1
      else nr_segment_duration_comparator a b)"

definition nr_segment_wrapped_span_priority_comparator :: "nr_segment option comparator" where
  "nr_segment_wrapped_span_priority_comparator = COMPARATOR_NULL_CHECK nr_segment_span_priority_comparator"

definition nr_segment_heap_create ::
  "int \<Rightarrow> nr_segment option comparator option \<Rightarrow> (nr_segment, unit) nr_minmax_heap option" where
  "nr_segment_heap_create bound comparator = nr_minmax_heap_create bound comparator None ()"

section \<open>The comparators are total preorders\<close>

lemma duration_comparator_total: "cmp_total nr_segment_duration_comparator"
  by (auto simp: cmp_total_def comparator_ok_def nr_segment_duration_comparator_def Let_def)

lemma span_priority_comparator_total: "cmp_total nr_segment_span_priority_comparator"
  by (auto simp: cmp_total_def comparator_ok_def nr_segment_span_priority_comparator_def
      nr_segment_duration_comparator_def Let_def)

lemma wrapped_comparators_total:
  "cmp_total nr_segment_wrapped_duration_comparator" "cmp_total nr_segment_wrapped_span_priority_comparator"
  by (simp_all add: nr_segment_wrapped_duration_comparator_def nr_segment_wrapped_span_priority_comparator_def
      cmp_total_null_check duration_comparator_total span_priority_comparator_total)

interpretation by_duration: total_preorder "cle nr_segment_wrapped_duration_comparator"
  by (intro cmp_total_preorder wrapped_comparators_total)

interpretation by_span_priority: total_preorder "cle nr_segment_wrapped_span_priority_comparator"
  by (intro cmp_total_preorder wrapped_comparators_total)

section \<open>What a heap of segments keeps\<close>

lemma duration_comparator_le:
  "nr_segment_wrapped_duration_comparator (Some a) (Some b) \<le> 0 \<longleftrightarrow>
     seg_stop_time a - seg_start_time a \<le> seg_stop_time b - seg_start_time b"
  by (auto simp: nr_segment_wrapped_duration_comparator_def COMPARATOR_NULL_CHECK_def
      nr_segment_duration_comparator_def Let_def)

lemma span_priority_comparator_le:
  "nr_segment_wrapped_span_priority_comparator (Some a) (Some b) \<le> 0 \<longleftrightarrow>
     sint (seg_priority a) < sint (seg_priority b) \<or>
     seg_priority a = seg_priority b \<and> seg_stop_time a - seg_start_time a \<le> seg_stop_time b - seg_start_time b"
proof (cases "seg_priority a = seg_priority b")
  case True
  then show ?thesis
    using duration_comparator_le [of a b]
    by (simp add: nr_segment_wrapped_span_priority_comparator_def COMPARATOR_NULL_CHECK_def
        nr_segment_span_priority_comparator_def nr_segment_wrapped_duration_comparator_def)
next
  case False
  then have "sint (seg_priority a) < sint (seg_priority b) \<or> sint (seg_priority b) < sint (seg_priority a)"
    using word_eq_iff_signed linorder_neqE by blast
  with False show ?thesis
    by (elim disjE) (simp_all add: nr_segment_wrapped_span_priority_comparator_def COMPARATOR_NULL_CHECK_def
        nr_segment_span_priority_comparator_def)
qed

lemma segment_heap_contents:
  assumes c: "cmp_total c" and b: "2 \<le> bound"
  shows "\<exists>heap ds. fold (\<lambda>s h. nr_minmax_heap_insert h (Some s)) ss (nr_segment_heap_create bound (Some c)) = Some heap \<and>
    size (heap_mset heap) = min (nat bound) (length ss) \<and>
    heap_mset heap + mset ds = mset (map Some ss) \<and> (\<forall>d \<in> set ds. \<forall>w \<in># heap_mset heap. c d w \<le> 0)"
proof -
  from b obtain heap where create: "nr_minmax_heap_create bound (Some c) None () = Some heap"
    by (auto simp: nr_minmax_heap_create_def)
  note n = nr_minmax_heap_create_invar [OF c create]
  let ?h = "mmh.ins_all (map Some ss) heap"
  obtain ds where "heap_mset ?h + mset ds = heap_mset heap + mset (map Some ss)"
      "\<forall>d \<in> set ds. \<forall>w \<in># heap_mset ?h. cle (hp_comparator heap) d w"
    using mmh.ins_all_keeps_greatest [OF n(1)] by blast
  moreover have "size (heap_mset ?h) = min (nat bound) (length ss)"
    using mmh.ins_all_size [OF n(1,2), of "map Some ss"] n(3) b by auto
  moreover have "fold (\<lambda>s h. nr_minmax_heap_insert h (Some s)) ss (Some heap) = Some ?h"
    using fold_insert_all [OF n(1), of "map Some ss"] by (simp add: fold_map comp_def)
  ultimately show ?thesis
    using n create by (intro exI [of _ ?h] exI [of _ ds]) (simp add: nr_segment_heap_create_def cle_def)
qed

text \<open>
  C10 (functional).  A heap of segments with bound \<open>n\<close> (at least 2) that is given the segments
  \<open>ss\<close> keeps \<open>min n (length ss)\<close> of them.  With the duration comparator no segment that was left out
  took longer than one that was kept; with the span priority comparator no segment left out has a
  higher priority than one that was kept, or the same priority and a longer duration.
\<close>

theorem segment_heap_keeps_slowest:
  assumes "2 \<le> bound"
  shows "(\<exists>heap ds. fold (\<lambda>s h. nr_minmax_heap_insert h (Some s)) ss
        (nr_segment_heap_create bound (Some nr_segment_wrapped_duration_comparator)) = Some heap \<and>
      size (heap_mset heap) = min (nat bound) (length ss) \<and> heap_mset heap + mset (map Some ds) = mset (map Some ss) \<and>
      (\<forall>d \<in> set ds. \<forall>s. Some s \<in># heap_mset heap \<longrightarrow>
         seg_stop_time d - seg_start_time d \<le> seg_stop_time s - seg_start_time s)) \<and>
    (\<exists>heap ds. fold (\<lambda>s h. nr_minmax_heap_insert h (Some s)) ss
        (nr_segment_heap_create bound (Some nr_segment_wrapped_span_priority_comparator)) = Some heap \<and>
      size (heap_mset heap) = min (nat bound) (length ss) \<and> heap_mset heap + mset (map Some ds) = mset (map Some ss) \<and>
      (\<forall>d \<in> set ds. \<forall>s. Some s \<in># heap_mset heap \<longrightarrow> sint (seg_priority d) < sint (seg_priority s) \<or>
         seg_priority d = seg_priority s \<and>
         seg_stop_time d - seg_start_time d \<le> seg_stop_time s - seg_start_time s))"
proof -
  have some: "\<exists>ds'. ds = map Some ds'" if "M + mset ds = mset (map Some ss)" for M and ds :: "nr_segment option list"
  proof -
    have "set ds \<subseteq> set (map Some ss)"
      by (metis that mset_subset_eq_add_right set_mset_mono set_mset_mset)
    then have "ds = map Some (map the ds)" by (induction ds) auto
    then show ?thesis by blast
  qed
  show ?thesis
  proof (intro conjI, goal_cases)
    case 1
    from segment_heap_contents [OF wrapped_comparators_total(1) assms, of ss] obtain heap ds where
      h: "fold (\<lambda>s h. nr_minmax_heap_insert h (Some s)) ss
            (nr_segment_heap_create bound (Some nr_segment_wrapped_duration_comparator)) = Some heap"
        "size (heap_mset heap) = min (nat bound) (length ss)" "heap_mset heap + mset ds = mset (map Some ss)"
        "\<forall>d \<in> set ds. \<forall>w \<in># heap_mset heap. nr_segment_wrapped_duration_comparator d w \<le> 0" by blast
    from some [OF h(3)] obtain ds' where "ds = map Some ds'" by blast
    with h show ?case
      by (intro exI [of _ heap] exI [of _ ds']) (simp add: duration_comparator_le [symmetric])
  next
    case 2
    from segment_heap_contents [OF wrapped_comparators_total(2) assms, of ss] obtain heap ds where
      h: "fold (\<lambda>s h. nr_minmax_heap_insert h (Some s)) ss
            (nr_segment_heap_create bound (Some nr_segment_wrapped_span_priority_comparator)) = Some heap"
        "size (heap_mset heap) = min (nat bound) (length ss)" "heap_mset heap + mset ds = mset (map Some ss)"
        "\<forall>d \<in> set ds. \<forall>w \<in># heap_mset heap. nr_segment_wrapped_span_priority_comparator d w \<le> 0" by blast
    from some [OF h(3)] obtain ds' where "ds = map Some ds'" by blast
    with h show ?case
      by (intro exI [of _ heap] exI [of _ ds']) (simp add: span_priority_comparator_le [symmetric])
  qed
qed

definition seg_of_duration :: "nrtime_t \<Rightarrow> nr_segment" where
  "seg_of_duration d = zero_segment\<lparr>seg_stop_time := d\<rparr>"

theorem segment_heap_keeps_slowest_witness:
  "\<exists>heap d. fold (\<lambda>s h. nr_minmax_heap_insert h (Some s)) [seg_of_duration 5, seg_of_duration 1, seg_of_duration 9]
      (nr_segment_heap_create 2 (Some nr_segment_wrapped_duration_comparator)) = Some heap \<and>
    size (heap_mset heap) = 2 \<and>
    add_mset (Some d) (heap_mset heap) =
      {#Some (seg_of_duration 5), Some (seg_of_duration 1), Some (seg_of_duration 9)#}"
proof -
  have two: "2 \<le> (2 :: int)" by simp
  obtain heap ds where h: "fold (\<lambda>s h. nr_minmax_heap_insert h (Some s)) [seg_of_duration 5, seg_of_duration 1, seg_of_duration 9]
      (nr_segment_heap_create 2 (Some nr_segment_wrapped_duration_comparator)) = Some heap"
    "size (heap_mset heap) = 2"
    "heap_mset heap + mset (map Some ds) =
       mset (map Some [seg_of_duration 5, seg_of_duration 1, seg_of_duration 9])"
    using segment_heap_keeps_slowest [OF two, of "[seg_of_duration 5, seg_of_duration 1, seg_of_duration 9]"] by auto
  have "size (heap_mset heap) + length ds = 3" using arg_cong [OF h(3), of size] by simp
  with h(2) have "length ds = 1" by simp
  then obtain d where "ds = [d]" by (auto simp: length_Suc_conv)
  with h show ?thesis by (intro exI [of _ heap] exI [of _ d]) simp
qed

end
