(* ===== verification/Segment.thy ===== *)
theory Segment
  imports World
begin

text \<open>
  nr_segment.c and the functions of nr_txn.c that keep the current segment of a transaction.

  \<open>nr_segment_set_parent\<close> walks up the parents of the new parent: \<open>is_ancestor\<close> counts its steps, one for
  each address handed out so far, which is enough as long as the parents form no cycle.
\<close>

section \<open>The current segment (nr_txn.c)\<close>

definition nr_txn_start_time :: "nrtxn option \<Rightarrow> nrtime_t" where
  "nr_txn_start_time txn = (case txn of None \<Rightarrow> 0 | Some x \<Rightarrow> tx_abs_start_time x)"

definition stack_top :: "nat list option \<Rightarrow> nat option" where
  "stack_top s = (case s of None \<Rightarrow> None | Some xs \<Rightarrow> if xs = [] then None else Some (last xs))"

definition nr_txn_get_current_segment :: "nrtxn \<Rightarrow> string option \<Rightarrow> nat option option" where
  "nr_txn_get_current_segment x async_context =
     (case async_context of
        None \<Rightarrow> Some (stack_top (Some (tx_default_parent_stack x)))
      | Some c \<Rightarrow> do {
          idx \<leftarrow> nr_string_find (tx_trace_strings x) (Some c);
          Some (if idx = 0 then None else stack_top (tx_parent_stacks x idx))
        })"

definition push_current :: "nat \<Rightarrow> nat \<Rightarrow> nrtxn \<Rightarrow> nrtxn" where
  "push_current s ctx x =
     (if ctx \<noteq> 0
      then x\<lparr>tx_parent_stacks := (tx_parent_stacks x)(ctx \<mapsto>
        (case tx_parent_stacks x ctx of None \<Rightarrow> [] | Some xs \<Rightarrow> xs) @ [s])\<rparr>
      else x\<lparr>tx_default_parent_stack := tx_default_parent_stack x @ [s]\<rparr>)"

definition nr_txn_set_current_segment :: "nat \<Rightarrow> nat \<Rightarrow> world \<Rightarrow> world option" where
  "nr_txn_set_current_segment t s w = do {
     seg \<leftarrow> w_segs w s;
     upd_txn t (push_current s (seg_async_context seg)) w
   }"

definition pop_current :: "nat \<Rightarrow> nat \<Rightarrow> nrtxn \<Rightarrow> nrtxn" where
  "pop_current s ctx x =
     (if ctx \<noteq> 0
      then x\<lparr>tx_parent_stacks := (tx_parent_stacks x)(ctx := map_option (remove_last_occ s) (tx_parent_stacks x ctx))\<rparr>
      else x\<lparr>tx_default_parent_stack := remove_last_occ s (tx_default_parent_stack x)\<rparr>)"

definition nr_txn_retire_current_segment :: "nat \<Rightarrow> nat \<Rightarrow> world \<Rightarrow> world option" where
  "nr_txn_retire_current_segment t s w = do {
     seg \<leftarrow> w_segs w s;
     upd_txn t (pop_current s (seg_async_context seg)) w
   }"

section \<open>Starting a segment\<close>

definition nr_segment_children_add :: "nat \<Rightarrow> nat \<Rightarrow> world \<Rightarrow> world option" where
  "nr_segment_children_add p s w = upd_seg p (\<lambda>x. x\<lparr>seg_children := seg_children x @ [s]\<rparr>) w"

definition nr_segment_children_remove :: "nat \<Rightarrow> nat \<Rightarrow> world \<Rightarrow> world option" where
  "nr_segment_children_remove p s w = upd_seg p (\<lambda>x. x\<lparr>seg_children := remove1 s (seg_children x)\<rparr>) w"

text \<open>The string pool index of the execution context.\<close>

definition intern_trace_string :: "nat \<Rightarrow> string option \<Rightarrow> world \<Rightarrow> (nat \<times> world) option" where
  "intern_trace_string t str w = do {
     x \<leftarrow> w_txns w t;
     (idx, pool) \<leftarrow> nr_string_add (tx_trace_strings x) str;
     w \<leftarrow> upd_txn t (\<lambda>x. x\<lparr>tx_trace_strings := pool\<rparr>) w;
     Some (idx, w)
   }"

definition nr_segment_init ::
  "nat \<Rightarrow> nat \<Rightarrow> nat option \<Rightarrow> string option \<Rightarrow> nrtime_t \<Rightarrow> world \<Rightarrow> (bool \<times> world) option" where
  "nr_segment_init s t parent async_context now w = do {
     x \<leftarrow> w_txns w t;
     let start_time = nr_time_duration (nr_txn_start_time (Some x)) now;
     (ctx, w) \<leftarrow> (case async_context of None \<Rightarrow> Some (0, w) | Some c \<Rightarrow> intern_trace_string t (Some c) w);
     w \<leftarrow> upd_seg s (\<lambda>seg. seg\<lparr>seg_color := NR_SEGMENT_WHITE, seg_type := NR_SEGMENT_CUSTOM, seg_txn := Some t,
       seg_start_time := start_time, seg_async_context := ctx, seg_children := []\<rparr>) w;
     (case parent of
        Some p \<Rightarrow> do {
          w \<leftarrow> upd_seg s (\<lambda>seg. seg\<lparr>seg_parent := Some p\<rparr>) w;
          w \<leftarrow> nr_segment_children_add p s w;
          Some (True, w)
        }
      | None \<Rightarrow> do {
          x \<leftarrow> w_txns w t;
          current_segment \<leftarrow> nr_txn_get_current_segment x async_context;
          current_segment \<leftarrow> (if current_segment = None \<and> async_context \<noteq> None
                              then nr_txn_get_current_segment x None else Some current_segment);
          w \<leftarrow> upd_seg s (\<lambda>seg. seg\<lparr>seg_parent := current_segment\<rparr>) w;
          w \<leftarrow> (case current_segment of None \<Rightarrow> Some w | Some p \<Rightarrow> nr_segment_children_add p s w);
          w \<leftarrow> nr_txn_set_current_segment t s w;
          Some (True, w)
        })
   }"

definition nr_segment_start ::
  "nat option \<Rightarrow> nat option \<Rightarrow> string option \<Rightarrow> nrtime_t \<Rightarrow> world \<Rightarrow> (nat option \<times> world) option" where
  "nr_segment_start txn parent async_context now w =
     (case txn of None \<Rightarrow> Some (None, w)
      | Some t \<Rightarrow> do {
          x \<leftarrow> w_txns w t;
          if \<not> st_recording (tx_status x) then Some (None, w)
          else do {
            let s = w_next w;
            let w = w\<lparr>w_next := Suc s, w_segs := (w_segs w)(s \<mapsto> zero_segment)\<rparr>;
            (_, w) \<leftarrow> nr_segment_init s t parent async_context now w;
            Some (Some s, w)
          }
        })"

section \<open>Changing a segment\<close>

definition nr_segment_set_name :: "nat option \<Rightarrow> string option \<Rightarrow> world \<Rightarrow> (bool \<times> world) option" where
  "nr_segment_set_name segment name w =
     (case (segment, name) of
        (Some s, Some n) \<Rightarrow> do {
          seg \<leftarrow> w_segs w s;
          t \<leftarrow> seg_txn seg;
          (idx, w) \<leftarrow> intern_trace_string t (Some n) w;
          w \<leftarrow> upd_seg s (\<lambda>seg. seg\<lparr>seg_name := idx\<rparr>) w;
          Some (True, w)
        }
      | _ \<Rightarrow> Some (False, w))"

definition nr_segment_add_metric :: "nat option \<Rightarrow> string option \<Rightarrow> bool \<Rightarrow> world \<Rightarrow> (bool \<times> world) option" where
  "nr_segment_add_metric segment name scoped w =
     (case (segment, name) of
        (Some s, Some n) \<Rightarrow> do {
          w \<leftarrow> upd_seg s (\<lambda>seg. seg\<lparr>seg_metrics := Some ((case seg_metrics seg of None \<Rightarrow> [] | Some ms \<Rightarrow> ms) @
            [\<lparr>sm_name = n, sm_scoped = scoped\<rparr>])\<rparr>) w;
          Some (True, w)
        }
      | _ \<Rightarrow> Some (False, w))"

text \<open>Whether \<open>s\<close> is among \<open>ancestor\<close> and its parents.\<close>

fun is_ancestor :: "nat \<Rightarrow> nat \<Rightarrow> nat option \<Rightarrow> world \<Rightarrow> bool option" where
  "is_ancestor fuel s ancestor w =
     (case ancestor of None \<Rightarrow> Some False
      | Some a \<Rightarrow>
          if a = s then Some True
          else (case w_segs w a of None \<Rightarrow> None
            | Some seg \<Rightarrow> (case fuel of 0 \<Rightarrow> None | Suc f \<Rightarrow> is_ancestor f s (seg_parent seg) w)))"

declare is_ancestor.simps [simp del]

definition nr_segment_set_parent :: "nat option \<Rightarrow> nat option \<Rightarrow> world \<Rightarrow> (bool \<times> world) option" where
  "nr_segment_set_parent segment parent w =
     (case segment of None \<Rightarrow> Some (False, w)
      | Some s \<Rightarrow> do {
          seg \<leftarrow> w_segs w s;
          other_txn \<leftarrow> (case parent of None \<Rightarrow> Some False
            | Some p \<Rightarrow> do { pseg \<leftarrow> w_segs w p; Some (seg_txn seg \<noteq> seg_txn pseg) });
          if other_txn then Some (False, w)
          else if seg_parent seg = parent then Some (True, w)
          else do {
            cycle \<leftarrow> is_ancestor (w_next w) s parent w;
            if cycle then Some (False, w)
            else do {
              w \<leftarrow> (case seg_parent seg of None \<Rightarrow> Some w | Some old \<Rightarrow> nr_segment_children_remove old s w);
              p \<leftarrow> parent;
              w \<leftarrow> nr_segment_children_add p s w;
              w \<leftarrow> upd_seg s (\<lambda>seg. seg\<lparr>seg_parent := Some p\<rparr>) w;
              Some (True, w)
            }
          }
        })"

definition nr_segment_set_timing :: "nat option \<Rightarrow> nrtime_t \<Rightarrow> nrtime_t \<Rightarrow> world \<Rightarrow> (bool \<times> world) option" where
  "nr_segment_set_timing segment start duration w =
     (case segment of None \<Rightarrow> Some (False, w)
      | Some s \<Rightarrow> do {
          w \<leftarrow> upd_seg s (\<lambda>seg. seg\<lparr>seg_start_time := start, seg_stop_time := start + duration\<rparr>) w;
          Some (True, w)
        })"

definition nr_segment_end :: "nat option \<Rightarrow> nrtime_t \<Rightarrow> world \<Rightarrow> (bool \<times> world) option" where
  "nr_segment_end segment now w =
     (case segment of None \<Rightarrow> Some (False, w)
      | Some s \<Rightarrow> do {
          seg \<leftarrow> w_segs w s;
          (case seg_txn seg of None \<Rightarrow> Some (False, w)
           | Some t \<Rightarrow> do {
               x \<leftarrow> w_txns w t;
               w \<leftarrow> (if seg_stop_time seg = 0
                     then upd_seg s (\<lambda>seg. seg\<lparr>seg_stop_time := nr_time_duration (nr_txn_start_time (Some x)) now\<rparr>) w
                     else Some w);
               w \<leftarrow> upd_txn t (\<lambda>x. x\<lparr>tx_segment_count := tx_segment_count x + 1\<rparr>) w;
               w \<leftarrow> nr_txn_retire_current_segment t s w;
               Some (True, w)
             })
        })"

text \<open>Both copy the strings they are given; what the segment had before is freed.\<close>

definition nr_segment_set_datastore :: "nat option \<Rightarrow> nr_segment_datastore option \<Rightarrow> world \<Rightarrow> (bool \<times> world) option" where
  "nr_segment_set_datastore segment datastore w =
     (case (segment, datastore) of
        (Some s, Some d) \<Rightarrow> do {
          w \<leftarrow> upd_seg s (\<lambda>seg. seg\<lparr>seg_type := NR_SEGMENT_DATASTORE, seg_typed_attributes := Datastore_attributes d\<rparr>) w;
          Some (True, w)
        }
      | _ \<Rightarrow> Some (False, w))"

definition nr_segment_set_external :: "nat option \<Rightarrow> nr_segment_external option \<Rightarrow> world \<Rightarrow> (bool \<times> world) option" where
  "nr_segment_set_external segment external w =
     (case (segment, external) of
        (Some s, Some d) \<Rightarrow> do {
          w \<leftarrow> upd_seg s (\<lambda>seg. seg\<lparr>seg_type := NR_SEGMENT_EXTERNAL, seg_typed_attributes := External_attributes d\<rparr>) w;
          Some (True, w)
        }
      | _ \<Rightarrow> Some (False, w))"

definition nr_segment_set_priority_flag :: "nat option \<Rightarrow> uint32 \<Rightarrow> world \<Rightarrow> world option" where
  "nr_segment_set_priority_flag segment flag w =
     (case segment of None \<Rightarrow> Some w
      | Some s \<Rightarrow> upd_seg s (\<lambda>seg. seg\<lparr>seg_priority := seg_priority seg OR flag\<rparr>) w)"

definition NR_SEGMENT_PRIORITY_ROOT :: uint32 where "NR_SEGMENT_PRIORITY_ROOT = 65536"
definition NR_SEGMENT_PRIORITY_DT :: uint32 where "NR_SEGMENT_PRIORITY_DT = 32768"

end
