(* ===== verification/Global.thy ===== *)
theory Global
  imports Config
begin

text \<open>
  global.c, with the parts of nr_agent.c and util_logging.c it drives: the log configuration, the
  parsing of the daemon address, the daemon connection and the process-wide initialisation.

  The process-wide variables are the record \<open>nr_global\<close>.  What the operating system answers
  (whether a log file opens, a host name resolves, a socket can be made, how a connect attempt
  ends) and the version string the build defines are the record \<open>os_env\<close>, an argument of the operations.  \<open>nr_agent_daemon_mutex\<close> is an
  ordinary mutex: locking it while it is held never returns.  An operation that does not return is
  \<open>None\<close>.
\<close>

section \<open>The daemon address\<close>

datatype nr_conn_params =
  NR_AGENT_CONN_UNKNOWN
| NR_AGENT_CONN_ABSTRACT_SOCKET string
| NR_AGENT_CONN_TCP_HOST_PORT string int
| NR_AGENT_CONN_UNIX_DOMAIN_SOCKET string
| NR_AGENT_CONN_TCP_LOOPBACK int

definition is_space :: "char \<Rightarrow> bool" where
  "is_space c = (let n = (of_char c :: nat) in n = 32 \<or> 9 \<le> n \<and> n \<le> 13)"

definition is_digit :: "char \<Rightarrow> bool" where
  "is_digit c = (let n = (of_char c :: nat) in 48 \<le> n \<and> n \<le> 57)"

definition digits_value :: "string \<Rightarrow> int" where
  "digits_value ds = foldl (\<lambda>acc c. 10 * acc + (int (of_char c :: nat) - 48)) 0 ds"

definition LONG_MAX :: int where "LONG_MAX = 2 ^ 63 - 1"

text \<open>The C library's \<open>strtol\<close> in base 10: the value, saturated, and what follows the number.\<close>

definition strtol10 :: "string \<Rightarrow> int \<times> string" where
  "strtol10 s =
     (let t = dropWhile is_space s;
          neg = (t \<noteq> [] \<and> hd t = CHR ''-'');
          u = (if t \<noteq> [] \<and> (hd t = CHR ''-'' \<or> hd t = CHR ''+'') then tl t else t);
          ds = takeWhile is_digit u;
          v = digits_value ds
      in if ds = [] then (0, s)
         else (if neg then max (- LONG_MAX - 1) (- v) else min LONG_MAX v, dropWhile is_digit u))"

definition NR_AGENT_MAX_PORT_VALUE :: int where "NR_AGENT_MAX_PORT_VALUE = 65536"

definition nr_agent_is_port_out_of_bounds :: "int \<Rightarrow> bool" where
  "nr_agent_is_port_out_of_bounds port = (port \<le> 0 \<or> port \<ge> NR_AGENT_MAX_PORT_VALUE)"

definition nr_parse_port :: "string \<Rightarrow> int" where
  "nr_parse_port strport =
     (let (v, rest) = strtol10 strport;
          port = sint (word_of_int v :: 32 word)
      in if rest \<noteq> [] then -1
         else if nr_agent_is_port_out_of_bounds port then -1
         else port)"

text \<open>The index of the last occurrence of a character.\<close>

definition last_index :: "char \<Rightarrow> string \<Rightarrow> nat" where
  "last_index c s = length s - 1 - length (takeWhile (\<lambda>d. d \<noteq> c) (rev s))"

text \<open>\<open>nr_parse_address_port\<close> on an address that contains a colon: the host and the port.\<close>

definition nr_parse_address_port :: "string \<Rightarrow> (string \<times> int) option" where
  "nr_parse_address_port address =
     (let address_len = length address; colon_idx = last_index (CHR '':'') address
      in if colon_idx = 0 then None
         else if address_len - 1 = colon_idx then None
         else let tcp_port = nr_parse_port (drop (colon_idx + 1) address)
              in if tcp_port = -1 then None
                 else if address ! 0 = CHR ''['' \<and> address ! (colon_idx - 1) = CHR '']''
                 then Some (take (colon_idx - 2) (drop 1 address), tcp_port)
                 else Some (take colon_idx address, tcp_port))"

text \<open>The size of \<open>sun_path\<close> less one, on Linux.\<close>

definition nr_agent_desired_uds_max :: nat where "nr_agent_desired_uds_max = 107"

definition nr_conn_params_init :: "string \<Rightarrow> nr_conn_params" where
  "nr_conn_params_init daemon_address =
     (if daemon_address \<noteq> [] \<and> hd daemon_address = CHR ''@''
      then if length daemon_address = 1 then NR_AGENT_CONN_UNKNOWN
           else NR_AGENT_CONN_ABSTRACT_SOCKET daemon_address
      else if CHR '':'' \<in> set daemon_address
      then (case nr_parse_address_port daemon_address of
              None \<Rightarrow> NR_AGENT_CONN_UNKNOWN
            | Some (host, port) \<Rightarrow> NR_AGENT_CONN_TCP_HOST_PORT host port)
      else if CHR ''/'' \<in> set daemon_address
      then if hd daemon_address \<noteq> CHR ''/'' then NR_AGENT_CONN_UNKNOWN
           else if length daemon_address > nr_agent_desired_uds_max then NR_AGENT_CONN_UNKNOWN
           else NR_AGENT_CONN_UNIX_DOMAIN_SOCKET daemon_address
      else let tcp_port = nr_parse_port daemon_address
           in if tcp_port = -1 then NR_AGENT_CONN_UNKNOWN else NR_AGENT_CONN_TCP_LOOPBACK tcp_port)"

section \<open>Process-wide state\<close>

datatype nr_agent_connection_state_t =
  NR_AGENT_CONNECTION_STATE_START | NR_AGENT_CONNECTION_STATE_IN_PROGRESS | NR_AGENT_CONNECTION_STATE_CONNECTED

datatype connect_result = Connect_ok | Connect_in_progress | Connect_failed

record os_env =
  os_build_version :: string
  os_open_log :: "string \<Rightarrow> bool"
  os_resolve :: "string \<Rightarrow> int \<Rightarrow> bool"
  os_socket :: bool
  os_connect :: connect_result
  os_connect_again :: connect_result

text \<open>\<open>'app\<close> is the type of the applications in the list.\<close>

record 'app nr_global =
  g_log_configured :: bool
  g_logfile :: "string option"
  g_log_level :: string
  g_applist :: "'app list option"
  g_daemon_mutex :: bool
  g_daemon_params :: "nr_conn_params option"
  g_daemon_fd :: bool
  g_connection_state :: nr_agent_connection_state_t

section \<open>Logging\<close>

definition level_names :: "string list" where
  "level_names = [''always'', ''error'', ''warning'', ''info'', ''verbose'', ''debug'', ''verbosedebug'']"

definition nrl_set_log_file :: "os_env \<Rightarrow> string option \<Rightarrow> 'app nr_global \<Rightarrow> nr_status_t \<times> 'app nr_global" where
  "nrl_set_log_file os filename g =
     (case filename of None \<Rightarrow> (NR_FAILURE, g)
      | Some f \<Rightarrow>
          if f = [] then (NR_FAILURE, g)
          else if os_open_log os f then (NR_SUCCESS, g\<lparr>g_logfile := Some f\<rparr>)
          else (NR_FAILURE, g\<lparr>g_logfile := None\<rparr>))"

text \<open>A level given as one name, which is how global.c calls it.\<close>

definition nrl_set_log_level :: "string \<Rightarrow> 'app nr_global \<Rightarrow> nr_status_t \<times> 'app nr_global" where
  "nrl_set_log_level level g =
     (if nr_string_to_lowercase level \<in> set (tl level_names) then (NR_SUCCESS, g\<lparr>g_log_level := level\<rparr>)
      else (NR_FAILURE, g))"

definition nrl_close_log_file :: "'app nr_global \<Rightarrow> 'app nr_global" where
  "nrl_close_log_file g = g\<lparr>g_logfile := None\<rparr>"

fun loglevel_number :: "newrelic_loglevel_t \<Rightarrow> nat" where
  "loglevel_number NEWRELIC_LOG_ERROR = 0"
| "loglevel_number NEWRELIC_LOG_WARNING = 1"
| "loglevel_number NEWRELIC_LOG_INFO = 2"
| "loglevel_number NEWRELIC_LOG_DEBUG = 3"
| "loglevel_number (NEWRELIC_LOG_OTHER n) = n + 4"

definition level_array :: "string list" where
  "level_array = [''error'', ''warning'', ''info'', ''verbosedebug'']"

definition newrelic_configure_log ::
  "os_env \<Rightarrow> string option \<Rightarrow> newrelic_loglevel_t \<Rightarrow> 'app nr_global \<Rightarrow> bool \<times> 'app nr_global" where
  "newrelic_configure_log os filename level g =
     (if filename = None then (False, g)
      else if loglevel_number level \<ge> length level_array then (False, g)
      else case nrl_set_log_file os filename g of
        (NR_FAILURE, g) \<Rightarrow> (False, g)
      | (NR_SUCCESS, g) \<Rightarrow>
          (case nrl_set_log_level (level_array ! loglevel_number level) g of
             (NR_FAILURE, g) \<Rightarrow> (False, g)
           | (NR_SUCCESS, g) \<Rightarrow> (True, g\<lparr>g_log_configured := True\<rparr>)))"

section \<open>The daemon connection\<close>

text \<open>
  \<open>nr_agent_initialize_daemon_connection_parameters\<close>.  The mutex is taken first; when the host does
  not resolve the function returns without releasing it.
\<close>

definition nr_agent_initialize_daemon_connection_parameters ::
  "os_env \<Rightarrow> nr_conn_params \<Rightarrow> 'app nr_global \<Rightarrow> (nr_status_t \<times> 'app nr_global) option" where
  "nr_agent_initialize_daemon_connection_parameters os params g =
     (if params = NR_AGENT_CONN_UNKNOWN then Some (NR_FAILURE, g)
      else if g_daemon_mutex g then None
      else case params of
        NR_AGENT_CONN_TCP_HOST_PORT host port \<Rightarrow>
          if os_resolve os host port then Some (NR_SUCCESS, g\<lparr>g_daemon_params := Some params\<rparr>)
          else Some (NR_FAILURE, g\<lparr>g_daemon_mutex := True\<rparr>)
      | _ \<Rightarrow> Some (NR_SUCCESS, g\<lparr>g_daemon_params := Some params\<rparr>))"

text \<open>\<open>nr_get_daemon_fd_internal\<close> with the result of its connect call.\<close>

definition nr_get_daemon_fd_internal ::
  "bool \<Rightarrow> connect_result \<Rightarrow> 'app nr_global \<Rightarrow> bool \<times> 'app nr_global" where
  "nr_get_daemon_fd_internal socket result g =
     (if g_connection_state g = NR_AGENT_CONNECTION_STATE_CONNECTED then (g_daemon_fd g, g)
      else if \<not> g_daemon_fd g \<and> \<not> socket then (False, g)
      else let g = g\<lparr>g_daemon_fd := True\<rparr>
           in case result of
             Connect_ok \<Rightarrow> (True, g\<lparr>g_connection_state := NR_AGENT_CONNECTION_STATE_CONNECTED\<rparr>)
           | Connect_in_progress \<Rightarrow> (False, g\<lparr>g_connection_state := NR_AGENT_CONNECTION_STATE_IN_PROGRESS\<rparr>)
           | Connect_failed \<Rightarrow>
               (False, g\<lparr>g_daemon_fd := False, g_connection_state := NR_AGENT_CONNECTION_STATE_START\<rparr>))"

definition nr_agent_try_daemon_connect :: "os_env \<Rightarrow> int \<Rightarrow> 'app nr_global \<Rightarrow> (bool \<times> 'app nr_global) option" where
  "nr_agent_try_daemon_connect os time_limit_ms g =
     (if g_daemon_mutex g then None
      else Some (case nr_get_daemon_fd_internal (os_socket os) (os_connect os) g of
        (True, g) \<Rightarrow> (True, g)
      | (False, g) \<Rightarrow>
          if g_connection_state g = NR_AGENT_CONNECTION_STATE_IN_PROGRESS
          then nr_get_daemon_fd_internal (os_socket os) (os_connect_again os) g
          else (False, g)))"

definition nr_set_daemon_fd :: "bool \<Rightarrow> 'app nr_global \<Rightarrow> 'app nr_global option" where
  "nr_set_daemon_fd fd g =
     (if g_daemon_mutex g then None
      else Some (g\<lparr>g_daemon_fd := fd,
        g_connection_state := if fd then NR_AGENT_CONNECTION_STATE_CONNECTED else NR_AGENT_CONNECTION_STATE_START\<rparr>))"

definition nr_agent_close_daemon_connection :: "'app nr_global \<Rightarrow> 'app nr_global option" where
  "nr_agent_close_daemon_connection g = nr_set_daemon_fd False g"

section \<open>global.c\<close>

definition default_daemon_socket :: string where
  "default_daemon_socket = ''/tmp/.newrelic.sock''"

definition newrelic_do_init ::
  "os_env \<Rightarrow> string option \<Rightarrow> int \<Rightarrow> 'app nr_global \<Rightarrow> (bool \<times> 'app nr_global) option" where
  "newrelic_do_init os daemon_socket time_limit_ms g =
     (let (ok, g) = (if \<not> g_log_configured g then newrelic_configure_log os (Some ''stderr'') NEWRELIC_LOG_INFO g
                     else (True, g))
      in if \<not> ok then Some (False, g)
         else do {
           let address = (case daemon_socket of Some s \<Rightarrow> s | None \<Rightarrow> default_daemon_socket);
           let params = nr_conn_params_init address;
           (ret, g) \<leftarrow> nr_agent_initialize_daemon_connection_parameters os params g;
           if ret \<noteq> NR_SUCCESS then Some (False, g)
           else do {
             (connected, g) \<leftarrow> nr_agent_try_daemon_connect os (if time_limit_ms \<noteq> 0 then time_limit_ms else 10) g;
             if \<not> connected then Some (False, g)
             else Some (True, g\<lparr>g_applist := Some []\<rparr>)
           }
         })"

definition newrelic_init ::
  "os_env \<Rightarrow> string option \<Rightarrow> int \<Rightarrow> 'app nr_global \<Rightarrow> (bool \<times> 'app nr_global) option" where
  "newrelic_init os daemon_socket time_limit_ms g =
     (if g_applist g \<noteq> None then Some (False, g) else newrelic_do_init os daemon_socket time_limit_ms g)"

definition newrelic_ensure_init :: "os_env \<Rightarrow> 'app nr_global \<Rightarrow> (bool \<times> 'app nr_global) option" where
  "newrelic_ensure_init os g =
     (if g_applist g \<noteq> None then Some (True, g) else newrelic_do_init os None 0 g)"

definition newrelic_shutdown :: "'app nr_global \<Rightarrow> 'app nr_global option" where
  "newrelic_shutdown g = do {
     g \<leftarrow> nr_agent_close_daemon_connection g;
     Some (nrl_close_log_file (g\<lparr>g_applist := None\<rparr>)\<lparr>g_log_configured := False\<rparr>)
   }"

section \<open>The initialisation state machine\<close>

text \<open>
  The state when the process starts, and the calls that change it: the functions of global.c, and
  what app.c and nr_app.c do to it (an application is added or changed, the daemon is contacted,
  \<open>newrelic_destroy_app\<close> closes the connection and the log file).
\<close>

definition g_start :: "'app nr_global" where
  "g_start = \<lparr>g_log_configured = False, g_logfile = None, g_log_level = ''info'', g_applist = None,
     g_daemon_mutex = False, g_daemon_params = None, g_daemon_fd = False,
     g_connection_state = NR_AGENT_CONNECTION_STATE_START\<rparr>"

inductive gstep :: "'app nr_global \<Rightarrow> 'app nr_global \<Rightarrow> bool" where
  gs_configure: "newrelic_configure_log os filename level g = (r, g') \<Longrightarrow> gstep g g'"
| gs_init: "newrelic_init os daemon_socket time_limit_ms g = Some (r, g') \<Longrightarrow> gstep g g'"
| gs_ensure: "newrelic_ensure_init os g = Some (r, g') \<Longrightarrow> gstep g g'"
| gs_shutdown: "newrelic_shutdown g = Some g' \<Longrightarrow> gstep g g'"
| gs_apps: "g_applist g = Some apps \<Longrightarrow> gstep g (g\<lparr>g_applist := Some apps'\<rparr>)"
| gs_fd: "\<not> g_daemon_mutex g \<Longrightarrow> nr_get_daemon_fd_internal socket result g = (r, g') \<Longrightarrow> gstep g g'"
| gs_close: "nr_agent_close_daemon_connection g = Some g' \<Longrightarrow> gstep g (nrl_close_log_file g')"

inductive greach :: "'app nr_global \<Rightarrow> bool" where
  gr_start: "greach g_start"
| gr_step: "greach g \<Longrightarrow> gstep g g' \<Longrightarrow> greach g'"

text \<open>
  An application list exists only once a log is configured and the daemon address is known; the
  daemon mutex is free as long as the list exists.
\<close>

definition ginv :: "'app nr_global \<Rightarrow> bool" where
  "ginv g \<longleftrightarrow>
     (g_applist g \<noteq> None \<longrightarrow>
        g_log_configured g \<and> g_daemon_params g \<noteq> None \<and> \<not> g_daemon_mutex g) \<and>
     (g_connection_state g = NR_AGENT_CONNECTION_STATE_CONNECTED \<longrightarrow> g_daemon_fd g)"

lemma configure_log_frame:
  assumes "newrelic_configure_log os filename level g = (r, g')"
  shows "g_applist g' = g_applist g" "g_daemon_mutex g' = g_daemon_mutex g" "g_daemon_params g' = g_daemon_params g"
    "g_daemon_fd g' = g_daemon_fd g" "g_connection_state g' = g_connection_state g"
    "g_log_configured g \<Longrightarrow> g_log_configured g'" "r \<Longrightarrow> g_log_configured g'"
  using assms
  by (auto simp: newrelic_configure_log_def nrl_set_log_file_def nrl_set_log_level_def
      split: if_splits option.splits prod.splits nr_status_t.splits)

lemma get_daemon_fd_frame:
  assumes "nr_get_daemon_fd_internal s c g = (r, g')"
  shows "g_applist g' = g_applist g" "g_daemon_mutex g' = g_daemon_mutex g" "g_daemon_params g' = g_daemon_params g"
    "g_log_configured g' = g_log_configured g" "ginv g \<Longrightarrow> r \<Longrightarrow> g_daemon_fd g'"
    "ginv g \<Longrightarrow> g_connection_state g' = NR_AGENT_CONNECTION_STATE_CONNECTED \<Longrightarrow> g_daemon_fd g'"
  using assms
  by (auto simp: nr_get_daemon_fd_internal_def Let_def ginv_def split: if_splits connect_result.splits)

lemma try_connect_frame:
  assumes "nr_agent_try_daemon_connect os t g = Some (r, g')" "ginv g" "g_applist g = None"
  shows "g_applist g' = None" "g_daemon_params g' = g_daemon_params g" "g_log_configured g' = g_log_configured g"
    "\<not> g_daemon_mutex g'" "r \<Longrightarrow> g_daemon_fd g'" "ginv g'"
proof -
  obtain r1 g1 where 1: "nr_get_daemon_fd_internal (os_socket os) (os_connect os) g = (r1, g1)" by force
  note f1 = get_daemon_fd_frame [OF 1]
  have inv1: "ginv g1" using f1 assms(2,3) by (simp add: ginv_def)
  obtain r2 g2 where 2: "nr_get_daemon_fd_internal (os_socket os) (os_connect_again os) g1 = (r2, g2)" by force
  note f2 = get_daemon_fd_frame [OF 2]
  have inv2: "ginv g2" using f1 f2 inv1 assms(3) by (simp add: ginv_def)
  have "\<not> g_daemon_mutex g" "(r, g') = (True, g1) \<and> r1 \<or> (r, g') = (r2, g2) \<or> (r, g') = (False, g1)"
    using assms(1) 1 2 by (auto simp: nr_agent_try_daemon_connect_def split: if_splits bool.splits)
  then show "g_applist g' = None" "g_daemon_params g' = g_daemon_params g" "g_log_configured g' = g_log_configured g"
    "\<not> g_daemon_mutex g'" "r \<Longrightarrow> g_daemon_fd g'" "ginv g'"
    using f1 f2 inv1 inv2 assms(2,3) by auto
qed

lemma do_init_inv:
  assumes "newrelic_do_init os s t g = Some (r, g')" "ginv g" "g_applist g = None"
  shows "ginv g'" "r \<longleftrightarrow> g_applist g' = Some []" "\<not> r \<longrightarrow> g_applist g' = None"
proof -
  obtain ok g1 where 1: "(if \<not> g_log_configured g then newrelic_configure_log os (Some ''stderr'') NEWRELIC_LOG_INFO g
      else (True, g)) = (ok, g1)" by force
  have f1: "g_applist g1 = None \<and> ginv g1 \<and> (ok \<longrightarrow> g_log_configured g1)"
  proof (cases "g_log_configured g")
    case True
    with 1 assms(2,3) show ?thesis by simp
  next
    case False
    with 1 have "newrelic_configure_log os (Some ''stderr'') NEWRELIC_LOG_INFO g = (ok, g1)" by simp
    from configure_log_frame [OF this] assms(2,3) show ?thesis by (simp add: ginv_def)
  qed
  let ?p = "nr_conn_params_init (case s of Some s \<Rightarrow> s | None \<Rightarrow> default_daemon_socket)"
  have "ginv g' \<and> (r \<longleftrightarrow> g_applist g' = Some []) \<and> (\<not> r \<longrightarrow> g_applist g' = None)"
  proof (cases ok)
    case False
    with assms(1) 1 f1 show ?thesis by (simp add: newrelic_do_init_def)
  next
    case True
    let ?init = "nr_agent_initialize_daemon_connection_parameters os ?p g1"
    have eq: "newrelic_do_init os s t g = Option.bind ?init (\<lambda>(ret, g).
        if ret \<noteq> NR_SUCCESS then Some (False, g)
        else Option.bind (nr_agent_try_daemon_connect os (if t \<noteq> 0 then t else 10) g) (\<lambda>(connected, g).
          if \<not> connected then Some (False, g) else Some (True, g\<lparr>g_applist := Some []\<rparr>)))"
      unfolding newrelic_do_init_def 1 Let_def using True by simp
    obtain ret g2 where 2: "?init = Some (ret, g2)" using assms(1) eq by (cases ?init) auto
    note eq = eq [unfolded 2, simplified]
    have f2: "g_applist g2 = None" "ginv g2" "g_log_configured g2" "ret = NR_SUCCESS \<Longrightarrow> g_daemon_params g2 \<noteq> None"
      using 2 f1 True
      by (auto simp: nr_agent_initialize_daemon_connection_parameters_def ginv_def split: if_splits nr_conn_params.splits)
    show ?thesis
    proof (cases "ret = NR_SUCCESS")
      case False
      with eq f2 assms(1) show ?thesis by simp
    next
      case True
      let ?t = "if t \<noteq> 0 then t else 10"
      obtain c g3 where 3: "nr_agent_try_daemon_connect os ?t g2 = Some (c, g3)"
        using assms(1) eq True by (cases "nr_agent_try_daemon_connect os ?t g2") auto
      have r: "(r, g') = (if \<not> c then (False, g3) else (True, g3\<lparr>g_applist := Some []\<rparr>))"
        using assms(1) eq True 3 by auto
      note f3 = try_connect_frame [OF 3 f2(2,1)]
      show ?thesis using r f2 f3 True by (cases c) (auto simp: ginv_def)
    qed
  qed
  then show "ginv g'" "r \<longleftrightarrow> g_applist g' = Some []" "\<not> r \<longrightarrow> g_applist g' = None" by auto
qed

lemma gstep_inv: "gstep g g' \<Longrightarrow> ginv g \<Longrightarrow> ginv g'"
proof (induction rule: gstep.induct)
  case (gs_configure os filename level g r g')
  then show ?case using configure_log_frame [of os filename level g r g'] by (auto simp: ginv_def)
next
  case (gs_init os s t g r g')
  then show ?case using do_init_inv(1) [of os s t g r g'] by (auto simp: newrelic_init_def split: if_splits)
next
  case (gs_ensure os g r g')
  then show ?case using do_init_inv(1) [of os None 0 g r g'] by (auto simp: newrelic_ensure_init_def split: if_splits)
next
  case (gs_shutdown g g')
  then show ?case
    by (auto simp: newrelic_shutdown_def nr_agent_close_daemon_connection_def nr_set_daemon_fd_def
        nrl_close_log_file_def ginv_def split: if_splits)
next
  case (gs_apps g apps apps')
  then show ?case by (auto simp: ginv_def)
next
  case (gs_fd g socket result r g')
  then show ?case using get_daemon_fd_frame [OF gs_fd.hyps(2)] by (auto simp: ginv_def)
next
  case (gs_close g g')
  then show ?case
    by (auto simp: nr_agent_close_daemon_connection_def nr_set_daemon_fd_def nrl_close_log_file_def ginv_def
        split: if_splits)
qed

lemma newrelic_global_invariant_aux: "greach g \<Longrightarrow> ginv g"
proof (induction rule: greach.induct)
  case gr_start
  show ?case by (simp add: ginv_def g_start_def)
next
  case (gr_step g g')
  then show ?case by (auto intro: gstep_inv)
qed



section \<open>Ports\<close>

lemma sint32_of_int: "sint (word_of_int v :: 32 word) = (let p = v mod 2 ^ 32 in if p < 2 ^ 31 then p else p - 2 ^ 32)"
proof -
  define p where "p = v mod 4294967296"
  have p: "0 \<le> p" "p < 4294967296" by (simp_all add: p_def)
  have m: "(v + 2147483648) mod 4294967296 = (p + 2147483648) mod 4294967296"
    by (simp add: p_def mod_add_left_eq)
  have "(p + 2147483648) mod 4294967296 = (if p < 2147483648 then p + 2147483648 else p - 2147483648)"
  proof (cases "p < 2147483648")
    case True
    with p show ?thesis by (simp add: mod_pos_pos_trivial)
  next
    case False
    have "(p + 2147483648) mod 4294967296 = (p - 2147483648) mod 4294967296"
      using mod_add_self2 [of "p - 2147483648" 4294967296] by (simp add: add.commute)
    with False p show ?thesis by (simp add: mod_pos_pos_trivial)
  qed
  moreover have "sint (word_of_int v :: 32 word) = signed_take_bit 31 v" by (simp add: signed_word_eqI signed_of_int)
  moreover have "signed_take_bit 31 v = (v + 2147483648) mod 4294967296 - 2147483648"
    by (simp add: signed_take_bit_eq_take_bit_shift take_bit_eq_mod)
  ultimately show ?thesis using m by (auto simp: Let_def p_def)
qed

lemma digit_facts:
  "is_digit c \<Longrightarrow> \<not> is_space c \<and> c \<noteq> CHR ''-'' \<and> c \<noteq> CHR ''+'' \<and> c \<noteq> CHR ''@'' \<and> c \<noteq> CHR '':'' \<and> c \<noteq> CHR ''/''"
  by (auto simp: is_digit_def is_space_def Let_def)

lemma strtol10_digits:
  assumes "ds \<noteq> []" "\<forall>c \<in> set ds. is_digit c"
  shows "strtol10 ds = (min LONG_MAX (digits_value ds), [])"
proof -
  have sp: "dropWhile is_space ds = ds" using assms digit_facts by (cases ds) auto
  have tw: "takeWhile is_digit ds = ds" "dropWhile is_digit ds = []" using assms(2) by auto
  have hd: "hd ds \<noteq> CHR ''-''" "hd ds \<noteq> CHR ''+''" using assms digit_facts by (auto simp: hd_in_set)
  show ?thesis using assms(1) hd by (simp add: strtol10_def sp tw Let_def)
qed



section \<open>Initialising once, and a failed initialisation\<close>

text \<open>
  C21 (functional).  After an initialisation that returned true, \<open>newrelic_init\<close> returns false and
  changes nothing, and the implicit initialisation of \<open>newrelic_create_app\<close> returns true and changes
  nothing, until \<open>newrelic_shutdown\<close>; shutting down then returns and leaves a state in which the SDK
  can be initialised again.
\<close>

theorem newrelic_init_once:
  assumes "greach g" "newrelic_init os daemon_socket time_limit_ms g = Some (True, g')"
  shows "newrelic_init os' daemon_socket' time_limit_ms' g' = Some (False, g') \<and>
    newrelic_ensure_init os' g' = Some (True, g') \<and>
    (\<exists>g''. newrelic_shutdown g' = Some g'' \<and> g_applist g'' = None \<and> \<not> g_log_configured g'' \<and> \<not> g_daemon_mutex g'')"
proof -
  have inv: "ginv g" by (rule newrelic_global_invariant_aux [OF assms(1)])
  have "g_applist g = None" "newrelic_do_init os daemon_socket time_limit_ms g = Some (True, g')"
    using assms(2) by (auto simp: newrelic_init_def split: if_splits)
  note d = do_init_inv [OF this(2) inv this(1)]
  then have "\<not> g_daemon_mutex g'" by (auto simp: ginv_def)
  then show ?thesis
    using d by (simp add: newrelic_init_def newrelic_ensure_init_def newrelic_shutdown_def
        nr_agent_close_daemon_connection_def nr_set_daemon_fd_def nrl_close_log_file_def)
qed

text \<open>An operating system on which everything works.\<close>

definition os_fine :: os_env where
  "os_fine = \<lparr>os_build_version = ''1.0'', os_open_log = (\<lambda>_. True), os_resolve = (\<lambda>_ _. True), os_socket = True,
     os_connect = Connect_ok, os_connect_again = Connect_ok\<rparr>"

theorem newrelic_init_once_witness:
  "\<exists>g'. newrelic_init os_fine None 0 (g_start :: nat nr_global) = Some (True, g') \<and>
     newrelic_init os_fine None 0 g' = Some (False, g')"
proof -
  have n: "nr_conn_params_init default_daemon_socket = NR_AGENT_CONN_UNIX_DOMAIN_SOCKET default_daemon_socket"
    by (simp add: nr_conn_params_init_def default_daemon_socket_def nr_agent_desired_uds_max_def)
  have low: "nr_string_to_lowercase ''info'' = ''info''"
    by (simp add: nr_string_to_lowercase_def nr_tolower_def)
  obtain g' where g': "newrelic_init os_fine None 0 (g_start :: nat nr_global) = Some (True, g')"
    by (simp add: newrelic_init_def newrelic_do_init_def g_start_def os_fine_def newrelic_configure_log_def
        nrl_set_log_file_def nrl_set_log_level_def level_array_def level_names_def low n
        nr_agent_initialize_daemon_connection_parameters_def nr_agent_try_daemon_connect_def
        nr_get_daemon_fd_internal_def Let_def)
  from newrelic_init_once [OF gr_start g'] g' show ?thesis by blast
qed



end
