(* ===== verification/App.thy ===== *)
theory App
  imports Global
begin

text \<open>
  app.c and app_internal.c, with the application list of nr_app.c.

  An application of the list is named by its position: applications leave the list only at
  shutdown.  What the daemon says about an application is an argument: \<open>polls\<close> lists, for each turn
  of the waiting loop of \<open>nr_agent_find_or_add_app\<close>, the state of the application after the query and
  the time that has passed; a result \<open>None\<close> says that the call has not returned after those turns
  (or blocks, or is undefined).  Memory that is freed is dropped from the state.
\<close>

section \<open>State\<close>

datatype nr_app_state = NR_APP_UNKNOWN | NR_APP_INVALID | NR_APP_OK

record nr_app_info =
  inf_high_security :: bool
  inf_license :: "string option"
  inf_environment :: "(string \<times> string) list option"
  inf_lang :: "string option"
  inf_version :: "string option"
  inf_appname :: "string option"
  inf_redirect_collector :: "string option"
  inf_security_policies_token :: "string option"

record nrapp =
  ap_info :: nr_app_info
  ap_state :: nr_app_state
  ap_locked :: bool

type_synonym agent = "nrapp nr_global"

text \<open>\<open>nr_app_and_info_t\<close>, the struct behind \<open>newrelic_app_t\<close>.\<close>

record newrelic_app =
  na_app :: "nat option"
  na_app_info :: "nr_app_info option"
  na_config :: "newrelic_app_config option"
  na_lock_ready :: bool

definition NR_APP_LIMIT :: nat where "NR_APP_LIMIT = 250"

section \<open>The application list (nr_app.c)\<close>

definition nr_app_info_valid :: "nr_app_info \<Rightarrow> bool" where
  "nr_app_info_valid info \<longleftrightarrow>
     inf_appname info \<noteq> None \<and> inf_license info \<noteq> None \<and> inf_environment info \<noteq> None \<and>
     inf_lang info \<noteq> None \<and> inf_version info \<noteq> None \<and> inf_redirect_collector info \<noteq> None"

definition nr_app_match :: "nrapp \<Rightarrow> nr_app_info \<Rightarrow> bool" where
  "nr_app_match app info \<longleftrightarrow>
     inf_license info \<noteq> None \<and> inf_appname info \<noteq> None \<and>
     inf_license info = inf_license (ap_info app) \<and> inf_appname info = inf_appname (ap_info app)"

text \<open>The search loop: the position of the first application that matches.\<close>

fun find_app :: "nrapp list \<Rightarrow> nr_app_info \<Rightarrow> nat \<Rightarrow> nat option" where
  "find_app [] info i = None"
| "find_app (a # as) info i = (if nr_app_match a info then Some i else find_app as info (Suc i))"

definition create_new_app :: "nr_app_info \<Rightarrow> nrapp" where
  "create_new_app info =
     \<lparr>ap_info = info\<lparr>
        inf_license := Some (nr_strdup (inf_license info)),
        inf_appname := Some (nr_strdup (inf_appname info)),
        inf_lang := Some (nr_strdup (inf_lang info)),
        inf_version := Some (nr_strdup (inf_version info)),
        inf_redirect_collector := Some (nr_strdup (inf_redirect_collector info)),
        inf_security_policies_token := Some (nr_strdup (inf_security_policies_token info))\<rparr>,
      ap_state = NR_APP_UNKNOWN, ap_locked = True\<rparr>"

text \<open>The application found or added, which is returned locked, and the new list.\<close>

definition nr_app_find_or_add_app :: "nrapp list \<Rightarrow> nr_app_info \<Rightarrow> nat option \<times> nrapp list" where
  "nr_app_find_or_add_app applist info =
     (if \<not> nr_app_info_valid info then (None, applist)
      else case find_app applist info 0 of
        Some i \<Rightarrow>
          if inf_high_security info \<noteq> inf_high_security (ap_info (applist ! i)) then (None, applist)
          else (Some i, applist[i := (applist ! i)\<lparr>ap_locked := True\<rparr>])
      | None \<Rightarrow>
          if length applist \<ge> NR_APP_LIMIT then (None, applist)
          else (Some (length applist), applist @ [create_new_app info]))"

text \<open>The waiting loop: whether the daemon gave a final answer before the time ran out.\<close>

fun wait_for_app :: "nrtime_t \<Rightarrow> (nr_app_state \<times> nrtime_t) list \<Rightarrow> (bool \<times> nr_app_state) option" where
  "wait_for_app timeout [] = None"
| "wait_for_app timeout ((st, delta) # polls) =
     (if st = NR_APP_OK \<or> st = NR_APP_INVALID then Some (True, st)
      else if delta \<ge> timeout then Some (False, st)
      else wait_for_app timeout polls)"

definition nr_agent_find_or_add_app ::
  "(nr_app_state \<times> nrtime_t) list \<Rightarrow> nrapp list \<Rightarrow> nr_app_info \<Rightarrow> nrtime_t \<Rightarrow> (nat option \<times> nrapp list) option" where
  "nr_agent_find_or_add_app polls applist info timeout =
     (if \<not> nr_app_info_valid info then Some (None, applist)
      else if inf_high_security info \<and> \<not> nr_strempty (inf_security_policies_token info) then Some (None, applist)
      else case nr_app_find_or_add_app applist info of
        (None, apps) \<Rightarrow> Some (None, apps)
      | (Some i, apps) \<Rightarrow>
          map_option
            (\<lambda>(answered, st).
               if answered then (Some i, apps[i := (apps ! i)\<lparr>ap_state := st\<rparr>])
               else (None, apps[i := (apps ! i)\<lparr>ap_state := st, ap_locked := False\<rparr>]))
            (wait_for_app timeout polls))"

section \<open>app_internal.c\<close>

definition newrelic_connect_app ::
  "(nr_app_state \<times> nrtime_t) list \<Rightarrow> newrelic_app option \<Rightarrow> 16 word \<Rightarrow> agent \<Rightarrow>
    (nr_status_t \<times> newrelic_app option \<times> agent) option" where
  "newrelic_connect_app polls app timeout_ms g =
     (let timeout_time = ucast timeout_ms * NR_TIME_DIVISOR_MS
      in case app of None \<Rightarrow> Some (NR_FAILURE, None, g)
      | Some a \<Rightarrow>
          (case na_app_info a of
             None \<Rightarrow> Some (NR_FAILURE, app, g)
           | Some info \<Rightarrow>
               (case g_applist g of
                  None \<Rightarrow> Some (NR_FAILURE, app, g)
                | Some apps \<Rightarrow> do {
                    (nrapp, apps) \<leftarrow> nr_agent_find_or_add_app polls apps info timeout_time;
                    case nrapp of
                      None \<Rightarrow> Some (NR_FAILURE, app, g\<lparr>g_applist := Some apps\<rparr>)
                    | Some i \<Rightarrow>
                        Some (NR_SUCCESS, Some (a\<lparr>na_app := Some i, na_lock_ready := True\<rparr>),
                          g\<lparr>g_applist := Some (apps[i := (apps ! i)\<lparr>ap_locked := False\<rparr>])\<rparr>)
                  })))"

section \<open>app.c\<close>

text \<open>The build's version string.\<close>

definition newrelic_version :: "os_env \<Rightarrow> string" where
  "newrelic_version os = os_build_version os"

text \<open>
  The text arrays of the configuration given to \<open>newrelic_create_app\<close> are read as terminated strings.

  \<open>newrelic_destroy_app\<close> on the address of a pointer: the result, the pointer afterwards and the
  process state.  The two \<open>nr_free\<close> and the destruction of the config and of the app drop the record.
\<close>

definition newrelic_destroy_app ::
  "newrelic_app option option \<Rightarrow> agent \<Rightarrow> (bool \<times> newrelic_app option option \<times> agent) option" where
  "newrelic_destroy_app app g =
     (case app of None \<Rightarrow> Some (False, None, g)
      | Some None \<Rightarrow> Some (False, Some None, g)
      | Some (Some a) \<Rightarrow> do {
          g \<leftarrow> nr_agent_close_daemon_connection g;
          Some (True, Some None, nrl_close_log_file g)
        })"

definition zero_app_info :: nr_app_info where
  "zero_app_info = \<lparr>inf_high_security = False, inf_license = None, inf_environment = None, inf_lang = None,
     inf_version = None, inf_appname = None, inf_redirect_collector = None, inf_security_policies_token = None\<rparr>"

text \<open>The \<open>app_info\<close> that \<open>newrelic_create_app\<close> fills from the given configuration.\<close>

definition app_info_of :: "os_env \<Rightarrow> newrelic_app_config \<Rightarrow> nr_app_info" where
  "app_info_of os given = zero_app_info\<lparr>
     inf_redirect_collector :=
       (if 0 < length (cstr (cfg_redirect_collector given)) then Some (cstr (cfg_redirect_collector given)) else Some []),
     inf_appname := Some (cstr (cfg_app_name given)),
     inf_license := Some (cstr (cfg_license_key given)),
     inf_lang := Some ''c'',
     inf_environment := Some [],
     inf_version := Some (newrelic_version os)\<rparr>"

definition newrelic_create_app ::
  "os_env \<Rightarrow> (nr_app_state \<times> nrtime_t) list \<Rightarrow> newrelic_app_config option \<Rightarrow> 16 word \<Rightarrow> agent \<Rightarrow>
    (newrelic_app option \<times> agent) option" where
  "newrelic_create_app os polls given_config timeout_ms g =
     (case given_config of None \<Rightarrow> Some (None, g)
      | Some given \<Rightarrow>
          if nr_strempty (Some (cstr (cfg_app_name given))) then Some (None, g)
          else if NR_LICENSE_SIZE \<noteq> nr_strlen (Some (cstr (cfg_license_key given))) then Some (None, g)
          else do {
            (ok, g) \<leftarrow> newrelic_ensure_init os g;
            if \<not> ok then Some (None, g)
            else do {
              created \<leftarrow> newrelic_create_app_config (Some (cstr (cfg_app_name given))) (Some (cstr (cfg_license_key given)));
              config \<leftarrow> created;
              let config = config\<lparr>
                cfg_transaction_tracer := cfg_transaction_tracer given,
                cfg_distributed_tracing := \<lparr>dtc_enabled = dtc_enabled (cfg_distributed_tracing given)\<rparr>,
                cfg_span_events := \<lparr>sec_enabled = sec_enabled (cfg_span_events given)\<rparr>\<rparr>;
              let app = \<lparr>na_app = None, na_app_info = Some (app_info_of os given), na_config = Some config,
                na_lock_ready = False\<rparr>;
              (ret, app, g) \<leftarrow> newrelic_connect_app polls (Some app) timeout_ms g;
              if ret = NR_FAILURE
              then do {
                (_, _, g) \<leftarrow> newrelic_destroy_app (Some app) (nrl_close_log_file g);
                Some (None, g)
              }
              else Some (app, g)
            }
          })"

section \<open>The application list stays well formed\<close>

definition app_key :: "nrapp \<Rightarrow> string option \<times> string option" where
  "app_key a = (inf_license (ap_info a), inf_appname (ap_info a))"

text \<open>At most \<open>NR_APP_LIMIT\<close> applications, one per license and name, none left locked.\<close>

definition apps_ok :: "nrapp list \<Rightarrow> bool" where
  "apps_ok apps \<longleftrightarrow> length apps \<le> NR_APP_LIMIT \<and> distinct (map app_key apps) \<and> (\<forall>a \<in> set apps. \<not> ap_locked a)"

lemma find_app_Some:
  "find_app apps info i = Some j \<Longrightarrow> i \<le> j \<and> j - i < length apps \<and> nr_app_match (apps ! (j - i)) info"
proof (induction apps info i rule: find_app.induct)
  case (2 a as info i)
  then show ?case by (cases "nr_app_match a info") (auto simp: nth_Cons' Suc_le_eq split: if_splits)
qed simp

lemma find_app_None: "find_app apps info i = None \<Longrightarrow> a \<in> set apps \<Longrightarrow> \<not> nr_app_match a info"
  by (induction apps info i rule: find_app.induct) (auto split: if_splits)

lemma match_key:
  "nr_app_info_valid info \<Longrightarrow> nr_app_match a info \<longleftrightarrow> app_key a = (inf_license info, inf_appname info)"
  by (auto simp: nr_app_match_def app_key_def nr_app_info_valid_def)

lemma create_new_app_key:
  "nr_app_info_valid info \<Longrightarrow> app_key (create_new_app info) = (inf_license info, inf_appname info)"
  by (auto simp: app_key_def create_new_app_def nr_app_info_valid_def nr_strdup_def)

text \<open>The list as \<open>nr_app_find_or_add_app\<close> leaves it: well formed but for the lock on the result.\<close>

lemma nr_app_find_or_add_app_ok:
  assumes "apps_ok apps" "nr_app_find_or_add_app apps info = (r, apps')"
  shows "length apps' \<le> NR_APP_LIMIT" "distinct (map app_key apps')"
    "r = None \<Longrightarrow> apps' = apps"
    "r = Some i \<Longrightarrow> i < length apps' \<and> app_key (apps' ! i) = (inf_license info, inf_appname info) \<and>
      (\<forall>j < length apps'. j \<noteq> i \<longrightarrow> \<not> ap_locked (apps' ! j))"
proof -
  consider (same) "r = None" "apps' = apps"
    | (found) i where "nr_app_info_valid info" "find_app apps info 0 = Some i" "r = Some i"
        "apps' = apps[i := (apps ! i)\<lparr>ap_locked := True\<rparr>]"
    | (new) "nr_app_info_valid info" "find_app apps info 0 = None" "length apps < NR_APP_LIMIT"
        "r = Some (length apps)" "apps' = apps @ [create_new_app info]"
    using assms(2) by (auto simp: nr_app_find_or_add_app_def split: if_splits option.splits)
  then have "length apps' \<le> NR_APP_LIMIT \<and> distinct (map app_key apps') \<and> (r = None \<longrightarrow> apps' = apps) \<and>
    (\<forall>i. r = Some i \<longrightarrow> i < length apps' \<and> app_key (apps' ! i) = (inf_license info, inf_appname info) \<and>
      (\<forall>j < length apps'. j \<noteq> i \<longrightarrow> \<not> ap_locked (apps' ! j)))"
  proof cases
    case same
    with assms(1) show ?thesis by (simp add: apps_ok_def)
  next
    case (found i)
    note f = find_app_Some [OF found(2)]
    have "app_key ((apps ! i)\<lparr>ap_locked := True\<rparr>) = app_key (apps ! i)" by (simp add: app_key_def)
    then have "map app_key apps' = map app_key apps"
      using f found(4) by (simp add: map_update list_update_same_conv)
    moreover have "app_key (apps ! i) = (inf_license info, inf_appname info)"
      using f match_key [OF found(1)] by simp
    ultimately show ?thesis
      using assms(1) f found(3,4) \<open>app_key ((apps ! i)\<lparr>ap_locked := True\<rparr>) = app_key (apps ! i)\<close>
      by (auto simp: apps_ok_def nth_list_update)
  next
    case new
    have "app_key (create_new_app info) \<notin> app_key ` set apps"
      using find_app_None [OF new(2)] match_key [OF new(1)] create_new_app_key [OF new(1)] by fastforce
    then show ?thesis
      using assms(1) new create_new_app_key [OF new(1)]
      by (auto simp: apps_ok_def nth_append less_Suc_eq)
  qed
  then show "length apps' \<le> NR_APP_LIMIT" "distinct (map app_key apps')" "r = None \<Longrightarrow> apps' = apps"
    "r = Some i \<Longrightarrow> i < length apps' \<and> app_key (apps' ! i) = (inf_license info, inf_appname info) \<and>
      (\<forall>j < length apps'. j \<noteq> i \<longrightarrow> \<not> ap_locked (apps' ! j))" by auto
qed

text \<open>Giving back the lock on one application and recording the daemon's answer.\<close>

lemma apps_ok_release:
  assumes "length apps \<le> NR_APP_LIMIT" "distinct (map app_key apps)" "i < length apps"
    and "\<forall>j < length apps. j \<noteq> i \<longrightarrow> \<not> ap_locked (apps ! j)" "app_key a = app_key (apps ! i)" "\<not> ap_locked a"
  shows "apps_ok (apps[i := a])"
proof -
  have "map app_key (apps[i := a]) = map app_key apps" using assms(3,5) by (simp add: map_update list_update_same_conv)
  moreover have "\<not> ap_locked (apps[i := a] ! j)" if "j < length apps" for j
    using assms(4,6) that by (cases "j = i") auto
  ultimately show ?thesis using assms(1,2) by (auto simp: apps_ok_def in_set_conv_nth)
qed

lemma app_key_simps [simp]:
  "app_key (a\<lparr>ap_state := s\<rparr>) = app_key a" "app_key (a\<lparr>ap_locked := l\<rparr>) = app_key a"
  by (simp_all add: app_key_def)

lemma newrelic_connect_app_ok:
  assumes "newrelic_connect_app polls (Some app) timeout_ms g = Some (ret, app', g')"
    and "na_app_info app = Some info" "g_applist g = Some apps" "apps_ok apps"
  shows "\<exists>apps'. g' = g\<lparr>g_applist := Some apps'\<rparr> \<and> apps_ok apps' \<and>
    (ret = NR_SUCCESS \<longrightarrow> (\<exists>i < length apps'. app' = Some (app\<lparr>na_app := Some i, na_lock_ready := True\<rparr>) \<and>
      app_key (apps' ! i) = (inf_license info, inf_appname info) \<and> ap_state (apps' ! i) \<noteq> NR_APP_UNKNOWN))"
proof -
  let ?t = "ucast timeout_ms * NR_TIME_DIVISOR_MS"
  obtain r apps1 where 1: "nr_agent_find_or_add_app polls apps info ?t = Some (r, apps1)"
    using assms(1-3) by (auto simp: newrelic_connect_app_def Let_def split: Option.bind_splits)
  obtain q apps0 where 0: "nr_app_find_or_add_app apps info = (q, apps0)" by force
  note ok = nr_app_find_or_add_app_ok [OF assms(4) 0]
  consider (unchanged) "r = None" "apps1 = apps" | (timed_out) i st where "q = Some i" "r = None"
      "apps1 = apps0[i := (apps0 ! i)\<lparr>ap_state := st, ap_locked := False\<rparr>]"
    | (answered) i st where "q = Some i" "r = Some i" "wait_for_app ?t polls = Some (True, st)"
      "apps1 = apps0[i := (apps0 ! i)\<lparr>ap_state := st\<rparr>]"
    using 0 1 ok(3) by (auto simp: nr_agent_find_or_add_app_def split: if_splits option.splits)
  then show ?thesis
  proof cases
    case unchanged
    with assms 1 show ?thesis
      by (auto simp: newrelic_connect_app_def Let_def intro!: exI [of _ apps])
  next
    case timed_out
    have "apps_ok apps1" using ok(1,2) ok(4) [OF timed_out(1)] timed_out(3) by (auto intro!: apps_ok_release)
    with timed_out assms 1 show ?thesis
      by (auto simp: newrelic_connect_app_def Let_def intro!: exI [of _ apps1])
  next
    case answered
    note o = ok(4) [OF answered(1)]
    let ?apps = "apps1[i := (apps1 ! i)\<lparr>ap_locked := False\<rparr>]"
    have st: "st \<noteq> NR_APP_UNKNOWN"
      using answered(3) by (induction ?t polls rule: wait_for_app.induct) (auto split: if_splits)
    have eq: "?apps = apps0[i := (apps0 ! i)\<lparr>ap_state := st, ap_locked := False\<rparr>]"
      using answered(4) o by simp
    have "apps_ok ?apps" unfolding eq using ok(1,2) o by (auto intro!: apps_ok_release)
    moreover have "i < length ?apps" "app_key (?apps ! i) = (inf_license info, inf_appname info)"
      "ap_state (?apps ! i) = st" using o answered(4) by auto
    ultimately show ?thesis
      using answered assms 1 st by (auto simp: newrelic_connect_app_def Let_def intro!: exI [of _ ?apps] exI [of _ i])
  qed
qed

section \<open>newrelic_create_app\<close>

definition applist_ok :: "agent \<Rightarrow> bool" where
  "applist_ok g \<longleftrightarrow> ginv g \<and> (\<forall>apps. g_applist g = Some apps \<longrightarrow> apps_ok apps)"

lemma ensure_init_ok:
  assumes "newrelic_ensure_init os g = Some (ok, g')" "applist_ok g"
  shows "applist_ok g'" "ok \<Longrightarrow> \<exists>apps. g_applist g' = Some apps"
proof -
  have "applist_ok g' \<and> (ok \<longrightarrow> (\<exists>apps. g_applist g' = Some apps))"
  proof (cases "g_applist g")
    case None
    then have "newrelic_do_init os None 0 g = Some (ok, g')" "ginv g"
      using assms by (simp_all add: newrelic_ensure_init_def applist_ok_def)
    from do_init_inv [OF this None] show ?thesis by (cases ok) (auto simp: applist_ok_def apps_ok_def)
  next
    case (Some apps)
    with assms show ?thesis by (simp add: newrelic_ensure_init_def)
  qed
  then show "applist_ok g'" "ok \<Longrightarrow> \<exists>apps. g_applist g' = Some apps" by auto
qed

text \<open>What \<open>newrelic_create_app\<close> does once its checks have passed and the SDK is initialised.\<close>

lemma create_app_body:
  assumes "newrelic_create_app os polls (Some given) timeout_ms g = Some (r, g')"
    and "cstr (cfg_app_name given) \<noteq> []" "length (cstr (cfg_license_key given)) = NR_LICENSE_SIZE"
    and "newrelic_ensure_init os g = Some (True, g1)"
  obtains config ret app' g2 where
    "cfg_transaction_tracer config = cfg_transaction_tracer given"
    "cfg_distributed_tracing config = cfg_distributed_tracing given"
    "cfg_span_events config = cfg_span_events given"
    "cfg_datastore_tracer config = \<lparr>dsc_instance_reporting = True, dsc_database_name_reporting = True\<rparr>"
    "newrelic_connect_app polls (Some \<lparr>na_app = None, na_app_info = Some (app_info_of os given),
       na_config = Some config, na_lock_ready = False\<rparr>) timeout_ms g1 = Some (ret, app', g2)"
    "ret = NR_SUCCESS \<Longrightarrow> r = app' \<and> g' = g2"
    "ret = NR_FAILURE \<Longrightarrow> app' \<noteq> None \<Longrightarrow> r = None \<and> g' = g2\<lparr>g_daemon_fd := False,
       g_connection_state := NR_AGENT_CONNECTION_STATE_START, g_logfile := None\<rparr>"
proof -
  let ?name = "Some (cstr (cfg_app_name given))" and ?key = "Some (cstr (cfg_license_key given))"
  have checks: "\<not> nr_strempty ?name" "NR_LICENSE_SIZE = nr_strlen ?key"
    using assms(2,3) by (simp_all add: nr_strempty_def nr_strlen_def)
  obtain c0 where c0: "newrelic_create_app_config ?name ?key = Some (Some (set_config_defaults c0))"
  proof -
    have "newrelic_create_app_config ?name ?key \<noteq> None"
      using assms(1) checks assms(4)
      by (cases "newrelic_create_app_config ?name ?key") (simp_all add: newrelic_create_app_def)
    with checks that show ?thesis
      by (auto simp: newrelic_create_app_config_def split: Option.bind_splits)
  qed
  let ?config = "(set_config_defaults c0)\<lparr>
    cfg_transaction_tracer := cfg_transaction_tracer given,
    cfg_distributed_tracing := \<lparr>dtc_enabled = dtc_enabled (cfg_distributed_tracing given)\<rparr>,
    cfg_span_events := \<lparr>sec_enabled = sec_enabled (cfg_span_events given)\<rparr>\<rparr>"
  let ?app = "\<lparr>na_app = None, na_app_info = Some (app_info_of os given), na_config = Some ?config, na_lock_ready = False\<rparr>"
  have eq: "Option.bind (newrelic_connect_app polls (Some ?app) timeout_ms g1)
      (\<lambda>(ret, app, g). if ret = NR_FAILURE
         then Option.bind (newrelic_destroy_app (Some app) (nrl_close_log_file g)) (\<lambda>(_, _, g). Some (None, g))
         else Some (app, g)) = Some (r, g')"
    using assms(1) checks assms(4) c0 by (simp add: newrelic_create_app_def Let_def)
  then obtain ret app' g2 where 2: "newrelic_connect_app polls (Some ?app) timeout_ms g1 = Some (ret, app', g2)"
    by (cases "newrelic_connect_app polls (Some ?app) timeout_ms g1") auto
  show thesis
    by (rule that [OF _ _ _ _ 2])
      (use eq 2 in \<open>auto simp: set_config_defaults_def newrelic_destroy_app_def nr_agent_close_daemon_connection_def
        nr_set_daemon_fd_def nrl_close_log_file_def split: if_splits\<close>)
qed

lemma create_app_checks:
  assumes "newrelic_create_app os polls given timeout_ms g = Some (r, g')"
  shows "r = None \<and> g' = g \<or> r = None \<and> newrelic_ensure_init os g = Some (False, g') \<or>
    (\<exists>c g1. given = Some c \<and> cstr (cfg_app_name c) \<noteq> [] \<and> length (cstr (cfg_license_key c)) = NR_LICENSE_SIZE \<and>
      newrelic_ensure_init os g = Some (True, g1))"
proof (cases given)
  case None
  with assms show ?thesis by (simp add: newrelic_create_app_def)
next
  case (Some c)
  show ?thesis
  proof (cases "cstr (cfg_app_name c) \<noteq> [] \<and> length (cstr (cfg_license_key c)) = NR_LICENSE_SIZE")
    case False
    with assms Some show ?thesis
      by (auto simp: newrelic_create_app_def nr_strempty_def nr_strlen_def split: if_splits)
  next
    case True
    then have "newrelic_ensure_init os g \<noteq> None" "newrelic_ensure_init os g = Some (False, g1) \<Longrightarrow> r = None \<and> g' = g1" for g1
      using assms Some by (cases "newrelic_ensure_init os g"; auto simp: newrelic_create_app_def nr_strempty_def nr_strlen_def)+
    with True Some show ?thesis by (cases "newrelic_ensure_init os g") auto
  qed
qed


definition config_demo :: newrelic_app_config where
  "config_demo = zero_app_config\<lparr>cfg_app_name := ''shop'' @ zero_array 251,
     cfg_license_key := replicate 40 (CHR ''a'') @ zero_array 215\<rparr>"

text \<open>The process state after an initialisation.\<close>

definition agent_demo :: agent where
  "agent_demo = g_start\<lparr>g_log_configured := True, g_logfile := Some ''stderr'', g_applist := Some [],
     g_daemon_params := Some (NR_AGENT_CONN_TCP_LOOPBACK 80), g_daemon_fd := True,
     g_connection_state := NR_AGENT_CONNECTION_STATE_CONNECTED\<rparr>"

lemma agent_demo_ok: "applist_ok agent_demo"
  by (simp add: agent_demo_def applist_ok_def ginv_def g_start_def apps_ok_def)

lemma config_demo_strings:
  "cstr (cfg_app_name config_demo) = ''shop''" "cstr (cfg_license_key config_demo) = replicate 40 (CHR ''a'')"
  "cstr (cfg_redirect_collector config_demo) = []"
  by (simp_all add: config_demo_def cstr_def zero_array_def zero_app_config_def numeral_eq_Suc)

lemmas create_app_eval = newrelic_create_app_def config_demo_strings nr_strempty_def nr_strlen_def NR_LICENSE_SIZE_def
  newrelic_ensure_init_def newrelic_create_app_config_def nr_strxcpy_def zero_app_config_def
  newrelic_connect_app_def app_info_of_def zero_app_info_def agent_demo_def g_start_def
  nr_agent_find_or_add_app_def nr_app_find_or_add_app_def nr_app_info_valid_def NR_APP_LIMIT_def
  newrelic_destroy_app_def nr_agent_close_daemon_connection_def nr_set_daemon_fd_def nrl_close_log_file_def




section \<open>The daemon answers in time\<close>

lemma find_app_key:
  assumes "nr_app_info_valid info"
  shows "find_app apps info i = None \<longleftrightarrow> (\<forall>a \<in> set apps. app_key a \<noteq> (inf_license info, inf_appname info))"
  by (induction apps arbitrary: i) (auto simp: match_key [OF assms])

lemma wait_for_app_answer:
  "\<forall>(s, d) \<in> set before. s = NR_APP_UNKNOWN \<and> d < timeout \<Longrightarrow> st \<noteq> NR_APP_UNKNOWN \<Longrightarrow>
    wait_for_app timeout (before @ (st, d) # rest) = Some (True, st)"
  by (induction before) (auto intro: nr_app_state.exhaust [of st])

lemma create_app_config_defined:
  assumes "length name \<le> 254" "length key = NR_LICENSE_SIZE"
  shows "\<exists>c. newrelic_create_app_config (Some name) (Some key) = Some (Some c)"
  using assms by (auto simp: newrelic_create_app_config_def nr_strlen_def nr_strxcpy_def zero_app_config_def zero_array_def NR_LICENSE_SIZE_def)

lemma connect_app_answered:
  assumes "g_applist g = Some apps" "\<forall>a \<in> set apps. \<not> inf_high_security (ap_info a)"
    and "(\<exists>a \<in> set apps. app_key a = (inf_license info, inf_appname info)) \<or> length apps < NR_APP_LIMIT"
    and "wait_for_app (ucast timeout_ms * NR_TIME_DIVISOR_MS) polls = Some (True, st)"
    and "na_app_info app = Some info" "nr_app_info_valid info" "\<not> inf_high_security info"
  shows "\<exists>i apps'. newrelic_connect_app polls (Some app) timeout_ms g =
      Some (NR_SUCCESS, Some (app\<lparr>na_app := Some i, na_lock_ready := True\<rparr>), g\<lparr>g_applist := Some apps'\<rparr>) \<and>
    i < length apps' \<and> ap_state (apps' ! i) = st"
proof (cases "find_app apps info 0")
  case None
  then have "length apps < NR_APP_LIMIT" using assms(3) find_app_key [OF assms(6), of apps 0] by auto
  with None assms show ?thesis
    by (intro exI [of _ "length apps"] exI [of _ "apps @ [(create_new_app info)\<lparr>ap_state := st, ap_locked := False\<rparr>]"])
      (simp add: newrelic_connect_app_def nr_agent_find_or_add_app_def nr_app_find_or_add_app_def Let_def)
next
  case (Some i)
  then have "i < length apps" using find_app_Some [OF Some] by simp
  with Some assms show ?thesis
    by (intro exI [of _ i] exI [of _ "apps[i := (apps ! i)\<lparr>ap_state := st, ap_locked := False\<rparr>]"])
      (simp add: newrelic_connect_app_def nr_agent_find_or_add_app_def nr_app_find_or_add_app_def Let_def)
qed

text \<open>
  C25 (liveness).  In an initialised process, with a configuration whose name has 1 to 254 characters and
  whose license key has 40, \<open>newrelic_create_app\<close> returns an application as soon as the daemon
  answers for it within the timeout, unless 250 other applications exist already.  The entry of the
  list that it refers to has the state the daemon answered, a refusal included.
\<close>

theorem newrelic_create_app_answered:
  assumes "g_applist g = Some apps" "\<forall>a \<in> set apps. \<not> inf_high_security (ap_info a)"
    and "cstr (cfg_app_name c) \<noteq> []" "length (cstr (cfg_app_name c)) \<le> 254"
    and "length (cstr (cfg_license_key c)) = NR_LICENSE_SIZE"
    and "(\<exists>a \<in> set apps. app_key a = (Some (cstr (cfg_license_key c)), Some (cstr (cfg_app_name c)))) \<or>
      length apps < 250"
    and "\<forall>(s, d) \<in> set before. s = NR_APP_UNKNOWN \<and> d < ucast timeout_ms * NR_TIME_DIVISOR_MS" "st \<noteq> NR_APP_UNKNOWN"
  shows "\<exists>app g' i apps'. newrelic_create_app os (before @ (st, d) # rest) (Some c) timeout_ms g = Some (Some app, g') \<and>
    na_app app = Some i \<and> na_lock_ready app \<and> g_applist g' = Some apps' \<and> i < length apps' \<and> ap_state (apps' ! i) = st"
proof -
  let ?name = "Some (cstr (cfg_app_name c))" and ?key = "Some (cstr (cfg_license_key c))"
  obtain c0 where c0: "newrelic_create_app_config ?name ?key = Some (Some c0)"
    using create_app_config_defined [OF assms(4,5)] by blast
  let ?config = "c0\<lparr>
    cfg_transaction_tracer := cfg_transaction_tracer c,
    cfg_distributed_tracing := \<lparr>dtc_enabled = dtc_enabled (cfg_distributed_tracing c)\<rparr>,
    cfg_span_events := \<lparr>sec_enabled = sec_enabled (cfg_span_events c)\<rparr>\<rparr>"
  let ?app = "\<lparr>na_app = None, na_app_info = Some (app_info_of os c), na_config = Some ?config, na_lock_ready = False\<rparr>"
  have info: "nr_app_info_valid (app_info_of os c)" "\<not> inf_high_security (app_info_of os c)"
    "inf_license (app_info_of os c) = ?key" "inf_appname (app_info_of os c) = ?name"
    by (simp_all add: app_info_of_def nr_app_info_valid_def zero_app_info_def nr_strdup_def)
  have room: "(\<exists>a \<in> set apps. app_key a = (inf_license (app_info_of os c), inf_appname (app_info_of os c))) \<or>
      length apps < NR_APP_LIMIT" using assms(6) by (simp add: info(3,4) NR_APP_LIMIT_def)
  obtain i apps' where conn: "newrelic_connect_app (before @ (st, d) # rest) (Some ?app) timeout_ms g =
      Some (NR_SUCCESS, Some (?app\<lparr>na_app := Some i, na_lock_ready := True\<rparr>), g\<lparr>g_applist := Some apps'\<rparr>)"
      "i < length apps'" "ap_state (apps' ! i) = st"
    using connect_app_answered [OF assms(1,2) room wait_for_app_answer [OF assms(7,8)] _ info(1,2), of ?app d rest] by auto
  have "newrelic_create_app os (before @ (st, d) # rest) (Some c) timeout_ms g =
      Some (Some (?app\<lparr>na_app := Some i, na_lock_ready := True\<rparr>), g\<lparr>g_applist := Some apps'\<rparr>)"
    using conn(1) c0 assms(1,3,5) by (simp add: newrelic_create_app_def newrelic_ensure_init_def nr_strempty_def nr_strlen_def Let_def)
  with conn(2,3) show ?thesis by simp
qed

theorem newrelic_create_app_answered_witness:
  "\<exists>app g' i apps'. newrelic_create_app os_fine [(NR_APP_UNKNOWN, 5), (NR_APP_INVALID, 7)] (Some config_demo) 100 agent_demo
     = Some (Some app, g') \<and> na_app app = Some i \<and> g_applist g' = Some apps' \<and> ap_state (apps' ! i) = NR_APP_INVALID"
proof -
  have "g_applist agent_demo = Some []" "\<forall>a \<in> set ([] :: nrapp list). \<not> inf_high_security (ap_info a)"
    "cstr (cfg_app_name config_demo) \<noteq> []" "length (cstr (cfg_app_name config_demo)) \<le> 254"
    "length (cstr (cfg_license_key config_demo)) = NR_LICENSE_SIZE"
    "(\<exists>a \<in> set []. app_key a = (Some (cstr (cfg_license_key config_demo)), Some (cstr (cfg_app_name config_demo)))) \<or>
      length ([] :: nrapp list) < 250"
    "\<forall>(s, d) \<in> set [(NR_APP_UNKNOWN, 5)]. s = NR_APP_UNKNOWN \<and> d < ucast (100 :: 16 word) * NR_TIME_DIVISOR_MS"
    "NR_APP_INVALID \<noteq> NR_APP_UNKNOWN"
    by (simp_all add: agent_demo_def config_demo_strings NR_LICENSE_SIZE_def NR_TIME_DIVISOR_MS_def)
  from newrelic_create_app_answered [OF this, of os_fine 7 "[]"] show ?thesis by auto
qed

end
