(* ===== verification/Txn.thy ===== *)
theory Txn
  imports Segment App
begin

text \<open>
  The functions of nr_txn.c that the SDK calls, with the reply getters of util_reply.c and nr_errors.c.

  What the code reads from its surroundings is the record \<open>sdk_env\<close>: the clock, random numbers and ids,
  the host name, the stack trace, the application's naming rules and the daemon's answer.  The clock is
  read at most once in each modelled call, up to the start of the root segment, which is overwritten.
  \<open>nr_segment_tree_finalise\<close> with its callback is the field \<open>env_finalise\<close>, JSON printing and parsing are
  \<open>env_to_json\<close> and \<open>env_from_json\<close>.
\<close>

section \<open>Surroundings\<close>

datatype nr_rules_result = NR_RULES_RESULT_IGNORE | NR_RULES_RESULT_UNCHANGED | NR_RULES_RESULT_CHANGED string

record app_rules =
  ar_url_rules :: "string \<Rightarrow> nr_rules_result"
  ar_txn_rules :: "string \<Rightarrow> nr_rules_result"
  ar_segment_terms :: "string \<Rightarrow> string option"

text \<open>What the connection to the daemon left in the application: \<open>connect_reply\<close>, \<open>security_policies\<close>, \<open>limits\<close>.\<close>

record app_reply =
  rp_connect_reply :: "nrobj option"
  rp_security_policies :: "nrobj option"
  rp_limit_analytics_events :: int
  rp_limit_custom_events :: int
  rp_limit_error_events :: int
  rp_limit_span_events :: int

record sdk_env =
  env_now :: nrtime_t
  env_mutex_init_ok :: bool
  env_version :: string
  env_hostname :: string
  env_guid :: "nat \<Rightarrow> string"
  env_sampled :: bool
  env_priority :: "bool \<Rightarrow> c_double"
  env_replace_idx :: nat
  env_backtrace :: "string list option"
  env_to_json :: "nrobj \<Rightarrow> string"
  env_from_json :: "string \<Rightarrow> nrobj option"
  env_app_rules :: "app_rules option"
  env_finalise :: "nrtxn \<Rightarrow> (nat \<Rightarrow> nr_segment option) \<Rightarrow> nrtxn"
  env_daemon_accepts :: "nrtxn \<Rightarrow> bool"
  env_sql_operation_and_table :: "string option \<Rightarrow> string option \<times> string option"

section \<open>Reading the connect reply (util_reply.c)\<close>

text \<open>\<open>nro_get_ival\<close>: an \<open>int\<close> keeps the low 32 bits of a long; \<open>Some None\<close> is its failure.\<close>

definition nro_get_ival :: "nrobj \<Rightarrow> int option option" where
  "nro_get_ival obj =
     (case obj of
        NR_OBJECT_INT n \<Rightarrow> Some (Some n)
      | NR_OBJECT_BOOLEAN b \<Rightarrow> Some (Some (if b then 1 else 0))
      | NR_OBJECT_LONG n \<Rightarrow> Some (Some (signed_take_bit 31 n))
      | NR_OBJECT_DOUBLE (Finite m e) \<Rightarrow>
          let v = (if e \<ge> 0 then \<bar>m\<bar> * 2 ^ nat e else \<bar>m\<bar> div 2 ^ nat (- e)); v = (if m < 0 then - v else v)
          in if - (2 ^ 31) \<le> v \<and> v < 2 ^ 31 then Some (Some v) else None
      | NR_OBJECT_DOUBLE _ \<Rightarrow> None
      | _ \<Rightarrow> Some None)"

definition nr_reply_get_bool :: "nrobj option \<Rightarrow> string \<Rightarrow> int \<Rightarrow> int option" where
  "nr_reply_get_bool reply name dflt =
     (case nro_get_hash_value reply (Some name) of None \<Rightarrow> Some dflt
      | Some rp \<Rightarrow> do {
          ret \<leftarrow> nro_get_ival rp;
          case ret of Some n \<Rightarrow> Some n
          | None \<Rightarrow>
              Some (case rp of
                NR_OBJECT_STRING str \<Rightarrow>
                  if str \<noteq> [] \<and> hd str \<in> set ''1yYtT'' \<or> nr_string_to_lowercase str = ''on'' then 1
                  else if str \<noteq> [] \<and> hd str \<in> set ''0nNfF'' \<or> nr_string_to_lowercase str = ''off'' then 0
                  else dflt
              | _ \<Rightarrow> dflt)
        })"

definition double_of_int :: "int \<Rightarrow> c_double" where
  "double_of_int n = (case double_of_ratio (nat \<bar>n\<bar>) 1 of Finite m e \<Rightarrow> Finite (if n < 0 then - m else m) e | x \<Rightarrow> x)"

definition nr_reply_get_double :: "nrobj option \<Rightarrow> string \<Rightarrow> c_double \<Rightarrow> c_double" where
  "nr_reply_get_double reply name dflt =
     (if name = [] then dflt
      else case nro_get_hash_value reply (Some name) of
        Some (NR_OBJECT_INT n) \<Rightarrow> double_of_int n
      | Some (NR_OBJECT_LONG n) \<Rightarrow> double_of_int n
      | Some (NR_OBJECT_DOUBLE d) \<Rightarrow> d
      | _ \<Rightarrow> dflt)"

text \<open>\<open>(nrtime_t) (x * NR_TIME_DIVISOR)\<close>: seconds to microseconds.\<close>

definition us_of_seconds :: "c_double \<Rightarrow> nrtime_t option" where
  "us_of_seconds x =
     (case x of
        Finite m e \<Rightarrow>
          (case double_of_ratio (1000000 * nat \<bar>m\<bar>) 1 of
             Finite m' e' \<Rightarrow> double_to_u64 (Finite (if m < 0 then - m' else m') (e + e'))
           | y \<Rightarrow> double_to_u64 y)
      | _ \<Rightarrow> None)"

section \<open>Starting a transaction\<close>

definition nr_txn_enforce_security_settings :: "nrtxnopt \<Rightarrow> nrobj option \<Rightarrow> nrobj option \<Rightarrow> nrtxnopt option" where
  "nr_txn_enforce_security_settings opts connect_reply sec_policies = do {
     record_sql \<leftarrow> nr_reply_get_bool sec_policies ''record_sql'' 2;
     let opts = (if record_sql = 0 then opts\<lparr>opt_tt_recordsql := NR_SQL_NONE\<rparr>
                 else if record_sql = 1 \<and> opt_tt_recordsql opts = NR_SQL_RAW then opts\<lparr>opt_tt_recordsql := NR_SQL_OBFUSCATED\<rparr>
                 else opts);
     raw_messages \<leftarrow> nr_reply_get_bool sec_policies ''allow_raw_exception_messages'' 2;
     let opts = (if raw_messages = 0 then opts\<lparr>opt_allow_raw_exception_messages := False\<rparr> else opts);
     custom_events \<leftarrow> nr_reply_get_bool sec_policies ''custom_events'' 2;
     let opts = (if custom_events = 0 then opts\<lparr>opt_custom_events_enabled := False\<rparr> else opts);
     custom_parameters \<leftarrow> nr_reply_get_bool sec_policies ''custom_parameters'' 2;
     let opts = (if custom_parameters = 0 then opts\<lparr>opt_custom_parameters_enabled := False\<rparr> else opts);
     collect_analytics \<leftarrow> nr_reply_get_bool connect_reply ''collect_analytics_events'' 1;
     let opts = (if collect_analytics = 0 then opts\<lparr>opt_analytics_events_enabled := False\<rparr> else opts);
     collect_custom \<leftarrow> nr_reply_get_bool connect_reply ''collect_custom_events'' 1;
     let opts = (if collect_custom = 0 then opts\<lparr>opt_custom_events_enabled := False\<rparr> else opts);
     collect_traces \<leftarrow> nr_reply_get_bool connect_reply ''collect_traces'' 0;
     let opts = (if collect_traces = 0
                 then opts\<lparr>opt_tt_enabled := False, opt_ep_enabled := False, opt_tt_slowsql := False\<rparr> else opts);
     collect_errors \<leftarrow> nr_reply_get_bool connect_reply ''collect_errors'' 0;
     let opts = (if collect_errors = 0 then opts\<lparr>opt_err_enabled := False\<rparr> else opts);
     collect_error_events \<leftarrow> nr_reply_get_bool connect_reply ''collect_error_events'' 1;
     Some (if collect_error_events = 0 then opts\<lparr>opt_error_events_enabled := False\<rparr> else opts)
   }"

text \<open>The options of a transaction, from those of the application and the replies of the daemon.\<close>

definition txn_options :: "nrtxnopt \<Rightarrow> app_reply \<Rightarrow> nrtxnopt option" where
  "txn_options opts reply = do {
     apdex_t \<leftarrow> us_of_seconds (nr_reply_get_double (rp_connect_reply reply) ''apdex_t'' (Finite 1 (-1)));
     let opts = opts\<lparr>opt_apdex_t := apdex_t\<rparr>;
     let opts = (if opt_tt_is_apdex_f opts then opts\<lparr>opt_tt_threshold := 4 * apdex_t\<rparr> else opts);
     let opts = opts\<lparr>
       opt_analytics_events_enabled := opt_analytics_events_enabled opts \<and> rp_limit_analytics_events reply \<noteq> 0,
       opt_custom_events_enabled := opt_custom_events_enabled opts \<and> rp_limit_custom_events reply \<noteq> 0,
       opt_error_events_enabled := opt_error_events_enabled opts \<and> rp_limit_error_events reply \<noteq> 0,
       opt_span_events_enabled := opt_span_events_enabled opts \<and> rp_limit_span_events reply \<noteq> 0\<rparr>;
     nr_txn_enforce_security_settings opts (rp_connect_reply reply) (rp_security_policies reply)
   }"

definition nr_guid_create :: "sdk_env \<Rightarrow> world \<Rightarrow> string \<times> world" where
  "nr_guid_create e w = (env_guid e (w_guid_count w), w\<lparr>w_guid_count := Suc (w_guid_count w)\<rparr>)"

text \<open>The new transaction before its root segment is started.\<close>

definition new_txn :: "nrtime_t \<Rightarrow> nrtxnopt \<Rightarrow> nr_attribute_config option \<Rightarrow> app_reply \<Rightarrow> nrtxn" where
  "new_txn now opts attribute_config reply =
     \<lparr>tx_high_security = False, tx_lasp = False, tx_options = opts,
      tx_status = \<lparr>st_path_is_frozen = False, st_path_type = NR_PATH_TYPE_UNKNOWN, st_ignore = False,
        st_background = False, st_recording = True, st_complete = False\<rparr>,
      tx_default_parent_stack = [], tx_parent_stacks = (\<lambda>_. None), tx_segment_count = 0, tx_segment_root = None,
      tx_abs_start_time = now, tx_error = None, tx_slowsqls = [],
      tx_datastore_products = nr_string_pool_create, tx_trace_strings = nr_string_pool_create,
      tx_scoped_metrics = nrm_table_create NR_METRIC_DEFAULT_LIMIT,
      tx_unscoped_metrics = nrm_table_create NR_METRIC_DEFAULT_LIMIT,
      tx_attributes = nr_attributes_create attribute_config,
      tx_custom_events = nr_analytics_events_create (rp_limit_custom_events reply),
      tx_path = None, tx_name = None, tx_type = 0, tx_app_connect_reply = None,
      tx_distributed_trace = nr_distributed_trace_create\<rparr>"

definition nr_txn_begin ::
  "sdk_env \<Rightarrow> nrapp option \<Rightarrow> app_reply \<Rightarrow> nrtxnopt option \<Rightarrow> nr_attribute_config option \<Rightarrow> world \<Rightarrow>
    (nat option \<times> world) option" where
  "nr_txn_begin e app reply opts attribute_config w =
     (case (app, opts) of
        (Some a, Some opts) \<Rightarrow>
          if ap_state a \<noteq> NR_APP_OK then Some (None, w)
          else do {
            opts \<leftarrow> txn_options opts reply;
            let t = w_next w;
            let w = w\<lparr>w_next := Suc t, w_txns := (w_txns w)(t \<mapsto> new_txn (env_now e) opts attribute_config reply)\<rparr>;
            (root, w) \<leftarrow> nr_segment_start (Some t) None None (env_now e) w;
            r \<leftarrow> root;
            w \<leftarrow> upd_txn t (\<lambda>x. x\<lparr>tx_segment_root := Some r\<rparr>) w;
            w \<leftarrow> upd_seg r (\<lambda>s. s\<lparr>seg_start_time := 0\<rparr>) w;
            w \<leftarrow> nr_segment_set_priority_flag (Some r) NR_SEGMENT_PRIORITY_ROOT w;
            w \<leftarrow> upd_txn t (\<lambda>x. x\<lparr>tx_app_connect_reply := rp_connect_reply reply\<rparr>) w;
            w \<leftarrow> (if inf_high_security (ap_info a) then upd_txn t (\<lambda>x. x\<lparr>tx_high_security := True\<rparr>) w else Some w);
            w \<leftarrow> (if \<not> nr_strempty (inf_security_policies_token (ap_info a))
                  then upd_txn t (\<lambda>x. x\<lparr>tx_lasp := True, tx_options := (tx_options x)\<lparr>opt_request_params_enabled := False\<rparr>\<rparr>) w
                  else Some w);
            let (guid, w) = nr_guid_create e w;
            let dt = nr_distributed_trace_create\<lparr>
              dt_txn_id := Some guid, dt_trace_id := Some guid,
              dt_trusted_key := nro_get_hash_string (rp_connect_reply reply) ''trusted_account_key'',
              dt_account_id := nro_get_hash_string (rp_connect_reply reply) ''account_id'',
              dt_app_id := nro_get_hash_string (rp_connect_reply reply) ''primary_application_id'',
              dt_sampled := env_sampled e, dt_priority := env_priority e (env_sampled e)\<rparr>;
            w \<leftarrow> upd_txn t (\<lambda>x. x\<lparr>tx_distributed_trace := dt\<rparr>) w;
            Some (Some t, w)
          }
      | _ \<Rightarrow> Some (None, w))"

section \<open>Naming\<close>

definition nr_txn_set_path ::
  "nat option \<Rightarrow> string option \<Rightarrow> nr_path_type_t \<Rightarrow> nr_txn_assignment_t \<Rightarrow> world \<Rightarrow> (nr_status_t \<times> world) option" where
  "nr_txn_set_path txn name ptype ok_to_override w =
     (case (txn, name) of
        (Some t, Some p) \<Rightarrow>
          if p = [] then Some (NR_FAILURE, w)
          else do {
            x \<leftarrow> w_txns w t;
            if st_path_is_frozen (tx_status x) then Some (NR_FAILURE, w)
            else if path_type_number ptype < path_type_number (st_path_type (tx_status x)) then Some (NR_FAILURE, w)
            else if ok_to_override = NR_NOT_OK_TO_OVERWRITE \<and> ptype = st_path_type (tx_status x) then Some (NR_FAILURE, w)
            else do {
              w \<leftarrow> upd_txn t (\<lambda>x. x\<lparr>tx_status := (tx_status x)\<lparr>st_path_type := ptype\<rparr>, tx_path := Some p\<rparr>) w;
              Some (NR_SUCCESS, w)
            }
          }
      | _ \<Rightarrow> Some (NR_FAILURE, w))"

definition nr_txn_change_background_status :: "nat option \<Rightarrow> bool \<Rightarrow> world \<Rightarrow> world option" where
  "nr_txn_change_background_status txn is_background w =
     (case txn of None \<Rightarrow> Some w
      | Some t \<Rightarrow> do {
          x \<leftarrow> w_txns w t;
          if st_path_is_frozen (tx_status x)
          then force_add_unscoped t ''Supportability/background_status_change_prevented'' 0 w
          else upd_txn t (\<lambda>x. x\<lparr>tx_status := (tx_status x)\<lparr>st_background := is_background\<rparr>\<rparr>) w
        })"

definition nr_txn_set_as_background_job :: "nat option \<Rightarrow> world \<Rightarrow> world option" where
  "nr_txn_set_as_background_job txn w = nr_txn_change_background_status txn True w"

definition nr_txn_set_as_web_transaction :: "nat option \<Rightarrow> world \<Rightarrow> world option" where
  "nr_txn_set_as_web_transaction txn w = nr_txn_change_background_status txn False w"

definition nr_txn_apply_url_rules :: "app_rules \<Rightarrow> nrtxn \<Rightarrow> nr_status_t \<times> nrtxn" where
  "nr_txn_apply_url_rules rules x =
     (case tx_path x of None \<Rightarrow> (NR_SUCCESS, x)
      | Some p \<Rightarrow>
          let before = take 511 ((if p \<noteq> [] \<and> hd p = CHR ''/'' then [] else ''/'') @ p)
          in case ar_url_rules rules before of
               NR_RULES_RESULT_IGNORE \<Rightarrow> (NR_FAILURE, x\<lparr>tx_status := (tx_status x)\<lparr>st_ignore := True\<rparr>\<rparr>)
             | NR_RULES_RESULT_CHANGED output \<Rightarrow> (NR_SUCCESS, x\<lparr>tx_path := Some output\<rparr>)
             | NR_RULES_RESULT_UNCHANGED \<Rightarrow> (NR_SUCCESS, x))"

definition nr_txn_apply_txn_rules :: "app_rules \<Rightarrow> nrtxn \<Rightarrow> nr_status_t \<times> nrtxn" where
  "nr_txn_apply_txn_rules rules x =
     (case tx_name x of None \<Rightarrow> (NR_SUCCESS, x)
      | Some n \<Rightarrow>
          (case ar_txn_rules rules (take 511 n) of
             NR_RULES_RESULT_IGNORE \<Rightarrow> (NR_FAILURE, x\<lparr>tx_status := (tx_status x)\<lparr>st_ignore := True\<rparr>\<rparr>)
           | NR_RULES_RESULT_UNCHANGED \<Rightarrow> (NR_SUCCESS, x)
           | NR_RULES_RESULT_CHANGED output \<Rightarrow> (NR_SUCCESS, x\<lparr>tx_name := Some output\<rparr>)))"

definition nr_txn_apply_segment_terms :: "app_rules \<Rightarrow> nrtxn \<Rightarrow> nrtxn" where
  "nr_txn_apply_segment_terms rules x =
     (case tx_name x of None \<Rightarrow> x
      | Some n \<Rightarrow> (case ar_segment_terms rules n of None \<Rightarrow> x | Some n' \<Rightarrow> x\<lparr>tx_name := Some n'\<rparr>))"

definition nr_txn_should_do_url_rules :: "nr_path_type_t \<Rightarrow> bool \<Rightarrow> bool" where
  "nr_txn_should_do_url_rules path_type is_background \<longleftrightarrow>
     \<not> is_background \<and> (path_type = NR_PATH_TYPE_CUSTOM \<or> path_type = NR_PATH_TYPE_URI)"

text \<open>The sign of a double; a comparison with NaN is false.\<close>

definition is_negative :: "c_double \<Rightarrow> bool" where
  "is_negative x = (case x of Finite m e \<Rightarrow> m < 0 | Infinity s \<Rightarrow> s | NaN \<Rightarrow> False)"

definition nr_txn_update_apdex_if_key_txn :: "nrtxn \<Rightarrow> nrtxn option" where
  "nr_txn_update_apdex_if_key_txn x =
     (case nro_get_hash_hash (tx_app_connect_reply x) ''web_transactions_apdex'' of None \<Rightarrow> Some x
      | Some key_txns \<Rightarrow>
          let db = nr_reply_get_double (Some key_txns) (nr_strdup (tx_name x)) (Finite (-1) 0)
          in if is_negative db then Some x
             else do {
               apdex_t \<leftarrow> us_of_seconds db;
               let opts = (tx_options x)\<lparr>opt_apdex_t := apdex_t\<rparr>;
               Some (x\<lparr>tx_options := (if opt_tt_is_apdex_f opts then opts\<lparr>opt_tt_threshold := 4 * apdex_t\<rparr> else opts)\<rparr>)
             })"

fun name_prefix :: "nr_path_type_t \<Rightarrow> bool \<Rightarrow> string option" where
  "name_prefix NR_PATH_TYPE_URI bg = Some (if bg then ''OtherTransaction/php/'' else ''WebTransaction/Uri/'')"
| "name_prefix NR_PATH_TYPE_STATUS_CODE bg = Some (if bg then ''OtherTransaction/StatusCode/'' else ''WebTransaction/StatusCode/'')"
| "name_prefix NR_PATH_TYPE_ACTION bg = Some (if bg then ''OtherTransaction/Action/'' else ''WebTransaction/Action/'')"
| "name_prefix NR_PATH_TYPE_FUNCTION bg = Some (if bg then ''OtherTransaction/Function/'' else ''WebTransaction/Function/'')"
| "name_prefix NR_PATH_TYPE_CUSTOM bg = Some (if bg then ''OtherTransaction/Custom/'' else ''WebTransaction/Custom/'')"
| "name_prefix NR_PATH_TYPE_UNKNOWN bg = None"

text \<open>The rest of \<open>nr_txn_freeze_name_update_apdex\<close> once the application is found.\<close>

definition freeze_with_app :: "app_rules \<Rightarrow> nrtxn \<Rightarrow> (nr_status_t \<times> nrtxn) option" where
  "freeze_with_app rules x =
     (let st = tx_status x;
          (ret, x) = (if tx_path x \<noteq> None \<and> nr_txn_should_do_url_rules (st_path_type st) (st_background st)
                      then nr_txn_apply_url_rules rules x else (NR_SUCCESS, x))
      in if ret = NR_FAILURE then Some (NR_FAILURE, x)
         else
           let x = (case tx_path x of Some (c # p) \<Rightarrow> if c = CHR ''/'' then x\<lparr>tx_path := Some p\<rparr> else x | _ \<Rightarrow> x);
               name = (case name_prefix (st_path_type st) (st_background st) of
                 Some prefix \<Rightarrow> prefix @ (case tx_path x of Some p \<Rightarrow> p | None \<Rightarrow> ''unknown'')
               | None \<Rightarrow> if st_background st then ''OtherTransaction/php/<unknown>'' else ''WebTransaction/Uri/<unknown>'');
               (ret, x) = nr_txn_apply_txn_rules rules (x\<lparr>tx_name := Some name\<rparr>)
           in if ret = NR_FAILURE then Some (NR_FAILURE, x)
              else map_option (Pair NR_SUCCESS) (nr_txn_update_apdex_if_key_txn (nr_txn_apply_segment_terms rules x)))"

definition nr_txn_freeze_name_update_apdex :: "sdk_env \<Rightarrow> nrtxn \<Rightarrow> (nr_status_t \<times> nrtxn) option" where
  "nr_txn_freeze_name_update_apdex e x =
     (if st_ignore (tx_status x) then Some (NR_FAILURE, x)
      else if st_path_is_frozen (tx_status x) then Some (NR_SUCCESS, x)
      else
        let x = x\<lparr>tx_status := (tx_status x)\<lparr>st_path_is_frozen := True\<rparr>\<rparr>
        in case env_app_rules e of None \<Rightarrow> Some (NR_FAILURE, x) | Some rules \<Rightarrow> freeze_with_app rules x)"

section \<open>Ending a transaction\<close>

definition nr_txn_duration :: "nat option \<Rightarrow> world \<Rightarrow> nrtime_t option" where
  "nr_txn_duration txn w =
     (case txn of None \<Rightarrow> Some 0
      | Some t \<Rightarrow> do {
          x \<leftarrow> w_txns w t;
          case tx_segment_root x of None \<Rightarrow> Some 0
          | Some r \<Rightarrow> do { s \<leftarrow> w_segs w r; Some (nr_time_duration (seg_start_time s) (seg_stop_time s)) }
        })"

definition nr_txn_end :: "sdk_env \<Rightarrow> nat option \<Rightarrow> world \<Rightarrow> world option" where
  "nr_txn_end e txn w =
     (case txn of None \<Rightarrow> Some w
      | Some t \<Rightarrow> do {
          x \<leftarrow> w_txns w t;
          if st_complete (tx_status x) then Some w
          else do {
            w \<leftarrow> upd_txn t (\<lambda>x. x\<lparr>tx_status := (tx_status x)\<lparr>st_complete := True, st_recording := False\<rparr>\<rparr>) w;
            x \<leftarrow> w_txns w t;
            if st_ignore (tx_status x) then Some w
            else do {
              (ret, x) \<leftarrow> nr_txn_freeze_name_update_apdex e x;
              w \<leftarrow> upd_txn t (\<lambda>_. x) w;
              if ret \<noteq> NR_SUCCESS then Some w
              else do {
                (_, w) \<leftarrow> nr_segment_set_name (tx_segment_root x) (tx_name x) w;
                (_, w) \<leftarrow> nr_segment_end (tx_segment_root x) (env_now e) w;
                upd_txn t (\<lambda>x. env_finalise e x (w_segs w)) w
              }
            }
          }
        })"

text \<open>\<open>nr_txn_destroy\<close> frees the transaction with the slab that holds all its segments.\<close>

definition nr_txn_destroy :: "nat \<Rightarrow> world \<Rightarrow> world" where
  "nr_txn_destroy t w =
     w\<lparr>w_txns := (w_txns w)(t := None),
       w_segs := (\<lambda>s. case w_segs w s of None \<Rightarrow> None | Some seg \<Rightarrow> if seg_txn seg = Some t then None else Some seg)\<rparr>"

definition nr_txn_set_timing :: "nat option \<Rightarrow> nrtime_t \<Rightarrow> nrtime_t \<Rightarrow> world \<Rightarrow> (bool \<times> world) option" where
  "nr_txn_set_timing txn start duration w =
     (case txn of None \<Rightarrow> Some (False, w)
      | Some t \<Rightarrow> do {
          x \<leftarrow> w_txns w t;
          case tx_segment_root x of None \<Rightarrow> Some (False, w)
          | Some r \<Rightarrow> do {
              w \<leftarrow> upd_txn t (\<lambda>x. x\<lparr>tx_abs_start_time := start\<rparr>) w;
              w \<leftarrow> upd_seg r (\<lambda>s. s\<lparr>seg_stop_time := duration\<rparr>) w;
              Some (True, w)
            }
        })"

definition nr_txn_ignore :: "nat option \<Rightarrow> world \<Rightarrow> (bool \<times> world) option" where
  "nr_txn_ignore txn w =
     (case txn of None \<Rightarrow> Some (False, w)
      | Some t \<Rightarrow> do {
          w \<leftarrow> upd_txn t (\<lambda>x. x\<lparr>tx_status := (tx_status x)\<lparr>st_ignore := True, st_recording := False\<rparr>\<rparr>) w;
          Some (True, w)
        })"

section \<open>Errors (nr_errors.c)\<close>

definition nr_error_create :: "int \<Rightarrow> string option \<Rightarrow> string option \<Rightarrow> string option \<Rightarrow> nrtime_t \<Rightarrow> nr_error option" where
  "nr_error_create priority message klass stacktrace_json when =
     (case (message, klass, stacktrace_json) of
        (Some m, Some k, Some j) \<Rightarrow>
          Some \<lparr>err_priority = priority, err_when = when, err_message = m, err_klass = k, err_stacktrace_json = j\<rparr>
      | _ \<Rightarrow> None)"

definition nr_error_priority :: "nr_error option \<Rightarrow> int" where
  "nr_error_priority error = (case error of None \<Rightarrow> 0 | Some r \<Rightarrow> err_priority r)"

definition nr_txn_record_error_worthy :: "nrtxn \<Rightarrow> int \<Rightarrow> nr_status_t" where
  "nr_txn_record_error_worthy x priority =
     (if \<not> opt_err_enabled (tx_options x) \<or> \<not> st_recording (tx_status x) then NR_FAILURE
      else if tx_error x = None then NR_SUCCESS
      else if priority < nr_error_priority (tx_error x) then NR_FAILURE
      else NR_SUCCESS)"

definition NR_TXN_HIGH_SECURITY_ERROR_MESSAGE :: string where
  "NR_TXN_HIGH_SECURITY_ERROR_MESSAGE = ''Message removed by New Relic high_security setting''"
definition NR_TXN_ALLOW_RAW_EXCEPTION_MESSAGE :: string where
  "NR_TXN_ALLOW_RAW_EXCEPTION_MESSAGE = ''Message removed by New Relic security settings''"

definition nr_txn_record_error :: "nrtime_t \<Rightarrow> nrtxn \<Rightarrow> int \<Rightarrow> string option \<Rightarrow> string option \<Rightarrow> string option \<Rightarrow> nrtxn" where
  "nr_txn_record_error now x priority errmsg errclass stacktrace_json =
     (if \<not> opt_err_enabled (tx_options x) \<or> errmsg = None \<or> errclass = None \<or> \<not> st_recording (tx_status x) \<or>
         errmsg = Some [] \<or> errclass = Some [] \<or> stacktrace_json = None then x
      else if tx_error x \<noteq> None \<and> priority < nr_error_priority (tx_error x) then x
      else
        let errmsg = (if tx_high_security x then Some NR_TXN_HIGH_SECURITY_ERROR_MESSAGE else errmsg);
            errmsg = (if \<not> opt_allow_raw_exception_messages (tx_options x) then Some NR_TXN_ALLOW_RAW_EXCEPTION_MESSAGE else errmsg)
        in x\<lparr>tx_error := nr_error_create priority errmsg errclass stacktrace_json now\<rparr>)"

section \<open>Attributes, events and metrics of the user\<close>

definition nr_txn_add_user_custom_parameter :: "nrtxn \<Rightarrow> string option \<Rightarrow> nrobj option \<Rightarrow> nr_status_t \<times> nrtxn" where
  "nr_txn_add_user_custom_parameter x key value =
     (if tx_high_security x then (NR_FAILURE, x)
      else if \<not> opt_custom_parameters_enabled (tx_options x) then (NR_FAILURE, x)
      else
        let (ret, ats) = nr_attributes_user_add (Some (tx_attributes x)) NR_ATTRIBUTE_DESTINATION_ALL key value
        in (ret, case ats of None \<Rightarrow> x | Some a \<Rightarrow> x\<lparr>tx_attributes := a\<rparr>))"

definition nr_txn_record_custom_event_internal :: "nat \<Rightarrow> nrtxn \<Rightarrow> string option \<Rightarrow> nrobj option \<Rightarrow> nrtime_t \<Rightarrow> nrtxn" where
  "nr_txn_record_custom_event_internal replace_idx x type params now =
     (if \<not> st_recording (tx_status x) \<or> tx_high_security x \<or> \<not> opt_custom_events_enabled (tx_options x) then x
      else x\<lparr>tx_custom_events := nr_custom_events_add_event (tx_custom_events x) type params now replace_idx\<rparr>)"

definition nr_txn_record_custom_event :: "sdk_env \<Rightarrow> nrtxn \<Rightarrow> string option \<Rightarrow> nrobj option \<Rightarrow> nrtxn" where
  "nr_txn_record_custom_event e x type params =
     nr_txn_record_custom_event_internal (env_replace_idx e) x type params (env_now e)"

text \<open>The value is in milliseconds; \<open>None\<close> is a conversion outside the range of \<open>nrtime_t\<close>.\<close>

definition nr_txn_add_custom_metric :: "nrtxn \<Rightarrow> string option \<Rightarrow> c_double \<Rightarrow> (nr_status_t \<times> nrtxn) option" where
  "nr_txn_add_custom_metric x name value_ms =
     (if name = None \<or> \<not> st_recording (tx_status x) then Some (NR_FAILURE, x)
      else case value_ms of
        Finite m e \<Rightarrow> do {
          duration \<leftarrow> double_to_u64 (times_1000 m e);
          table \<leftarrow> nrm_add (tx_unscoped_metrics x) name duration;
          Some (NR_SUCCESS, x\<lparr>tx_unscoped_metrics := table\<rparr>)
        }
      | _ \<Rightarrow> Some (NR_FAILURE, x))"

definition nr_txn_sql_recording_level :: "nrtxn \<Rightarrow> nr_tt_recordsql_t" where
  "nr_txn_sql_recording_level x =
     (case opt_tt_recordsql (tx_options x) of
        NR_SQL_RAW \<Rightarrow> if tx_high_security x then NR_SQL_OBFUSCATED else NR_SQL_RAW
      | NR_SQL_OBFUSCATED \<Rightarrow> NR_SQL_OBFUSCATED
      | NR_SQL_NONE \<Rightarrow> NR_SQL_NONE)"

section \<open>Distributed traces\<close>

definition nr_txn_should_create_span_events :: "nrtxn \<Rightarrow> bool" where
  "nr_txn_should_create_span_events x \<longleftrightarrow>
     dt_sampled (tx_distributed_trace x) \<and> opt_distributed_tracing_enabled (tx_options x) \<and> opt_span_events_enabled (tx_options x)"

definition nr_segment_ensure_id :: "sdk_env \<Rightarrow> nat \<Rightarrow> nat \<Rightarrow> world \<Rightarrow> (string option \<times> world) option" where
  "nr_segment_ensure_id e s t w = do {
     seg \<leftarrow> w_segs w s;
     x \<leftarrow> w_txns w t;
     if seg_id seg = None \<and> nr_txn_should_create_span_events x
     then let (guid, w) = nr_guid_create e w
          in map_option (Pair (Some guid)) (upd_seg s (\<lambda>seg. seg\<lparr>seg_id := Some guid\<rparr>) w)
     else Some (seg_id seg, w)
   }"

text \<open>The payload, up to the label \<open>end\<close> of \<open>nr_txn_create_distributed_trace_payload\<close>.\<close>

definition make_dt_payload :: "sdk_env \<Rightarrow> nat option \<Rightarrow> nat option \<Rightarrow> world \<Rightarrow> (string option \<times> world) option" where
  "make_dt_payload e txn segment w =
     (case (txn, segment) of
        (Some t, Some s) \<Rightarrow> do {
          x \<leftarrow> w_txns w t;
          if \<not> opt_distributed_tracing_enabled (tx_options x) then Some (None, w)
          else if \<not> opt_span_events_enabled (tx_options x) \<and> \<not> opt_analytics_events_enabled (tx_options x) then Some (None, w)
          else do {
            seg \<leftarrow> w_segs w s;
            if seg_txn seg \<noteq> Some t then Some (None, w)
            else do {
              (parent_id, w) \<leftarrow> nr_segment_ensure_id e s t w;
              let text = nr_distributed_trace_payload_as_text (env_to_json e) (tx_distributed_trace x) parent_id (env_now e);
              w \<leftarrow> nr_segment_set_priority_flag (Some s) NR_SEGMENT_PRIORITY_DT w;
              Some (text, w)
            }
          }
        }
      | _ \<Rightarrow> Some (None, w))"

definition nr_txn_create_distributed_trace_payload ::
  "sdk_env \<Rightarrow> nat option \<Rightarrow> nat option \<Rightarrow> world \<Rightarrow> (string option \<times> world) option" where
  "nr_txn_create_distributed_trace_payload e txn segment w = do {
     (payload, w) \<leftarrow> make_dt_payload e txn segment w;
     w \<leftarrow> nr_txn_force_single_count txn
       (Some (if payload \<noteq> None then NR_DISTRIBUTED_TRACE_CREATE_SUCCESS else NR_DISTRIBUTED_TRACE_CREATE_EXCEPTION)) w;
     Some (payload, w)
   }"

definition nr_txn_is_account_trusted_dt :: "nrtxn \<Rightarrow> string option \<Rightarrow> bool" where
  "nr_txn_is_account_trusted_dt x trusted_key \<longleftrightarrow>
     trusted_key \<noteq> None \<and> trusted_key = nro_get_hash_string (tx_app_connect_reply x) ''trusted_account_key''"

text \<open>\<open>%s\<close> prints a NULL pointer as \<open>(null)\<close>.\<close>

definition fmt_s :: "string option \<Rightarrow> string" where
  "fmt_s s = (case s of None \<Rightarrow> ''(null)'' | Some s \<Rightarrow> s)"

definition NR_TXN_TYPE_DT_INBOUND :: uint32 where "NR_TXN_TYPE_DT_INBOUND = 16"

definition nr_txn_create_dt_metrics :: "nat \<Rightarrow> string \<Rightarrow> nrtime_t \<Rightarrow> world \<Rightarrow> world option" where
  "nr_txn_create_dt_metrics t metric_prefix value w = do {
     x \<leftarrow> w_txns w t;
     let postfix = (if st_background (tx_status x) then ''allOther'' else ''allWeb'');
     let inb = dt_inbound (tx_distributed_trace x);
     let name = (if in_set inb
                 then fmt_s (in_type inb) @ ''/'' @ fmt_s (in_account_id inb) @ ''/'' @ fmt_s (in_app_id inb) @ ''/'' @
                      fmt_s (in_transport_type inb)
                 else ''Unknown/Unknown/Unknown/Unknown'');
     w \<leftarrow> force_add_unscoped t (metric_prefix @ ''/'' @ name @ ''/all'') value w;
     force_add_unscoped t (metric_prefix @ ''/'' @ name @ ''/'' @ postfix) value w
   }"

definition dt_transport_type :: "string option \<Rightarrow> bool \<Rightarrow> string option" where
  "dt_transport_type transport_type background =
     (case transport_type of None \<Rightarrow> if background then Some ''Unknown'' else Some ''HTTP'' | Some v \<Rightarrow> Some v)"

definition nr_txn_accept_distributed_trace_payload ::
  "sdk_env \<Rightarrow> nat option \<Rightarrow> string option \<Rightarrow> string option \<Rightarrow> world \<Rightarrow> (bool \<times> world) option" where
  "nr_txn_accept_distributed_trace_payload e txn str_payload transport_type w =
     (case txn of None \<Rightarrow> Some (False, w)
      | Some t \<Rightarrow> do {
          x \<leftarrow> w_txns w t;
          let refuse = (\<lambda>metric. map_option (Pair False) (force_add_unscoped t metric 0 w));
          if \<not> opt_distributed_tracing_enabled (tx_options x) then refuse NR_DISTRIBUTED_TRACE_ACCEPT_EXCEPTION
          else do {
            found \<leftarrow> nrm_find (tx_unscoped_metrics x) (Some NR_DISTRIBUTED_TRACE_CREATE_SUCCESS);
            if in_set (dt_inbound (tx_distributed_trace x)) then refuse NR_DISTRIBUTED_TRACE_ACCEPT_MULTIPLE
            else if found \<noteq> None then refuse NR_DISTRIBUTED_TRACE_ACCEPT_CREATE_BEFORE_ACCEPT
            else (case nr_distributed_trace_convert_payload_to_object (env_from_json e) str_payload of
                Inl error \<Rightarrow> refuse error
              | Inr obj \<Rightarrow>
                  let trusted_key = (case nr_distributed_trace_object_get_trusted_key obj of
                        Some k \<Rightarrow> Some k | None \<Rightarrow> nr_distributed_trace_object_get_account_id obj)
                  in if \<not> nr_txn_is_account_trusted_dt x trusted_key then refuse NR_DISTRIBUTED_TRACE_ACCEPT_UNTRUSTED_ACCOUNT
                     else (case nr_distributed_trace_accept_inbound_payload (tx_distributed_trace x) (Some obj) transport_type of
                         Inl error \<Rightarrow> refuse error
                       | Inr dt \<Rightarrow>
                           let dt = nr_distributed_trace_inbound_set_transport_type
                                 (dt_transport_type transport_type (st_background (tx_status x))) dt
                           in do {
                             w \<leftarrow> upd_txn t (\<lambda>x. x\<lparr>tx_distributed_trace := dt\<rparr>) w;
                             w \<leftarrow> force_add_unscoped t NR_DISTRIBUTED_TRACE_ACCEPT_SUCCESS 0 w;
                             w \<leftarrow> nr_txn_create_dt_metrics t ''TransportDuration''
                               (scast (ucast (nr_distributed_trace_inbound_get_timestamp_delta dt (tx_abs_start_time x) div 1000000) :: uint32)) w;
                             w \<leftarrow> upd_txn t (\<lambda>x. x\<lparr>tx_type := tx_type x OR NR_TXN_TYPE_DT_INBOUND\<rparr>) w;
                             Some (True, w)
                           }))
          }
        })"

definition nr_txn_accept_distributed_trace_payload_httpsafe ::
  "sdk_env \<Rightarrow> nat option \<Rightarrow> string option \<Rightarrow> string option \<Rightarrow> world \<Rightarrow> (bool \<times> world) option" where
  "nr_txn_accept_distributed_trace_payload_httpsafe e txn payload transport_type w =
     (case nr_b64_decode payload of
        None \<Rightarrow> do {
          w \<leftarrow> nr_txn_force_single_count txn (Some NR_DISTRIBUTED_TRACE_ACCEPT_PARSE_EXCEPTION) w;
          Some (False, w)
        }
      | Some decoded \<Rightarrow> nr_txn_accept_distributed_trace_payload e txn (Some (cstr decoded)) transport_type w)"

end
