(* ===== verification/Sql_Obfuscation.thy ===== *)
theory Sql_Obfuscation
  imports C_Strings
begin

text \<open>
  \<open>nr_sql_obfuscate\<close> of util_sql.c: literals and numbers of a query become \<open>?\<close> and comments go away.

  \<open>obfuscate\<close> follows the scanner's states; its result is what the loop writes.  \<open>None\<close> is the undefined
  behaviour of a scanner that has stepped over the terminating zero and reads on behind the string.
\<close>

datatype obf_state = Normal | In_double_quotes | In_single_quotes | In_digits

definition is_sql_digit :: "char \<Rightarrow> bool" where
  "is_sql_digit c \<longleftrightarrow> 48 \<le> (of_char c :: nat) \<and> (of_char c :: nat) \<le> 57"

text \<open>The text behind the first \<open>*/\<close>, as \<open>nr_strstr\<close> finds it.\<close>

fun after_comment :: "string \<Rightarrow> string option" where
  "after_comment (c # d # s) = (if c = CHR ''*'' \<and> d = CHR ''/'' then Some s else after_comment (d # s))"
| "after_comment _ = None"

lemma after_comment_shorter: "after_comment s = Some t \<Longrightarrow> length t < length s"
  by (induction s rule: after_comment.induct) (auto split: if_splits)

text \<open>The text behind the first end of line, as \<open>nr_strchr\<close> finds it.\<close>

fun after_line :: "string \<Rightarrow> string option" where
  "after_line [] = None"
| "after_line (c # s) = (if c = CHR 0x0A then Some s else after_line s)"

lemma after_line_shorter: "after_line s = Some t \<Longrightarrow> length t < length s"
  by (induction s rule: after_line.induct) (auto split: if_splits)

text \<open>The scanner inside a literal with the given quote character: the text behind its end.\<close>

fun skip_literal :: "char \<Rightarrow> string \<Rightarrow> string option" where
  "skip_literal q [] = Some []"
| "skip_literal q (c # s) =
     (if c = CHR 0x5C then (case s of [] \<Rightarrow> None | _ # s' \<Rightarrow> skip_literal q s')
      else if c = q then (case s of d # s' \<Rightarrow> if d = q then skip_literal q s' else Some s | [] \<Rightarrow> Some [])
      else skip_literal q s)"

lemma skip_literal_shorter: "skip_literal q s = Some t \<Longrightarrow> length t \<le> length s"
  by (induction q s rule: skip_literal.induct) (fastforce split: if_splits list.splits)+

function obfuscate :: "obf_state \<Rightarrow> string \<Rightarrow> string option" where
  "obfuscate st [] = Some []"
| "obfuscate Normal (c # p) =
     (if c = CHR 0x22 then map_option (Cons CHR ''?'') (obfuscate In_double_quotes p)
      else if c = CHR 0x27 then map_option (Cons CHR ''?'') (obfuscate In_single_quotes p)
      else if c = CHR ''-'' then
        (if p \<noteq> [] \<and> hd p = CHR ''-''
         then (case after_line (c # p) of None \<Rightarrow> Some [] | Some p' \<Rightarrow> obfuscate Normal p')
         else map_option (Cons c) (obfuscate Normal p))
      else if c = CHR ''/'' then
        (if p \<noteq> [] \<and> hd p = CHR ''*''
         then (case after_comment (c # p) of None \<Rightarrow> Some [] | Some p' \<Rightarrow> obfuscate Normal p')
         else map_option (Cons c) (obfuscate Normal p))
      else if is_sql_digit c then map_option (Cons CHR ''?'') (obfuscate In_digits p)
      else map_option (Cons c) (obfuscate Normal p))"
| "obfuscate In_double_quotes (c # p) =
     (case skip_literal CHR 0x22 (c # p) of None \<Rightarrow> None | Some p' \<Rightarrow> obfuscate Normal p')"
| "obfuscate In_single_quotes (c # p) =
     (case skip_literal CHR 0x27 (c # p) of None \<Rightarrow> None | Some p' \<Rightarrow> obfuscate Normal p')"
| "obfuscate In_digits (c # p) = (if is_sql_digit c then obfuscate In_digits p else obfuscate Normal (c # p))"
  by pat_completeness auto
termination
  by (relation "measure (\<lambda>(st, s). 2 * length s + (if st = Normal then 0 else 1))")
     (auto simp del: skip_literal.simps after_line.simps after_comment.simps
       dest: after_line_shorter after_comment_shorter skip_literal_shorter split: if_splits)

definition nr_sql_obfuscate :: "string option \<Rightarrow> string option option" where
  "nr_sql_obfuscate raw = (case raw of None \<Rightarrow> Some None | Some s \<Rightarrow> map_option Some (obfuscate Normal s))"

section \<open>What is written\<close>

definition is_secret :: "char \<Rightarrow> bool" where
  "is_secret c \<longleftrightarrow> is_sql_digit c \<or> c = CHR 0x22 \<or> c = CHR 0x27"

lemma question_mark [simp]: "\<not> is_secret CHR ''?''" by (simp add: is_secret_def is_sql_digit_def)

definition clean_upto :: "nat \<Rightarrow> string option \<Rightarrow> bool" where
  "clean_upto n r \<longleftrightarrow> (\<forall>out. r = Some out \<longrightarrow> length out \<le> n \<and> (\<forall>c \<in> set out. \<not> is_secret c))"

lemma clean_upto_Cons: "\<not> is_secret c \<Longrightarrow> clean_upto n r \<Longrightarrow> clean_upto (Suc n) (map_option (Cons c) r)"
  by (auto simp: clean_upto_def)

lemma clean_upto_case:
  "(\<And>p. r = Some p \<Longrightarrow> clean_upto (length p) (f p) \<and> length p \<le> n) \<Longrightarrow> d = None \<or> d = Some [] \<Longrightarrow>
    clean_upto n (case r of None \<Rightarrow> d | Some p \<Rightarrow> f p)"
  by (cases r) (fastforce simp: clean_upto_def)+

lemma obfuscate_clean: "clean_upto (length s) (obfuscate st s)"
proof (induction st s rule: obfuscate.induct)
  case (2 c p)
  have line: "length q \<le> Suc (length p)" if "after_line (c # p) = Some q" for q using after_line_shorter [OF that] by simp
  have comment: "length q \<le> Suc (length p)" if "after_comment (c # p) = Some q" for q using after_comment_shorter [OF that] by simp
  show ?case
  proof (cases "is_secret c \<or> c = CHR ''-'' \<or> c = CHR ''/''")
    case True
    then consider "c = CHR 0x22" | "c = CHR 0x27" | "c = CHR ''-''" | "c = CHR ''/''" | "is_sql_digit c"
      by (auto simp: is_secret_def)
    then show ?thesis
    proof cases
      case 1
      then show ?thesis using "2.IH"(1) clean_upto_Cons [OF question_mark] by simp
    next
      case 2
      then show ?thesis using "2.IH"(2) clean_upto_Cons [OF question_mark] by simp
    next
      case 3
      have "\<not> is_secret c" using 3 by (simp add: is_secret_def is_sql_digit_def)
      then show ?thesis
        using 3 "2.IH"(3,4) line clean_upto_Cons [of c] clean_upto_case [of "after_line (c # p)" "obfuscate Normal"]
        by (cases "p \<noteq> [] \<and> hd p = CHR ''-''") (simp_all del: after_line.simps, blast)
    next
      case 4
      have "\<not> is_secret c" using 4 by (simp add: is_secret_def is_sql_digit_def)
      then show ?thesis
        using 4 "2.IH"(5,6) comment clean_upto_Cons [of c] clean_upto_case [of "after_comment (c # p)" "obfuscate Normal"]
        by (cases "p \<noteq> [] \<and> hd p = CHR ''*''") (simp_all del: after_comment.simps, blast)
    next
      case 5
      then have "c \<noteq> CHR 0x22" "c \<noteq> CHR 0x27" "c \<noteq> CHR ''-''" "c \<noteq> CHR ''/''" by (auto simp: is_sql_digit_def)
      with 5 show ?thesis using "2.IH"(7) clean_upto_Cons [OF question_mark] by simp
    qed
  next
    case False
    then show ?thesis using "2.IH"(8) clean_upto_Cons [of c] by (simp add: is_secret_def)
  qed
next
  case (3 c p)
  then show ?case using skip_literal_shorter [of "CHR 0x22" "c # p"]
    by (auto simp del: skip_literal.simps intro!: clean_upto_case)
next
  case (4 c p)
  then show ?case using skip_literal_shorter [of "CHR 0x27" "c # p"]
    by (auto simp del: skip_literal.simps intro!: clean_upto_case)
next
  case (5 c p)
  then show ?case by (cases "is_sql_digit c") (auto simp: clean_upto_def)
qed (simp add: clean_upto_def)

section \<open>When the scanner stays inside the string\<close>

definition ends_in_backslash :: "string \<Rightarrow> bool" where
  "ends_in_backslash s \<longleftrightarrow> s \<noteq> [] \<and> last s = CHR 0x5C"

lemma skip_literal_defined:
  "\<not> ends_in_backslash s \<Longrightarrow> \<exists>t. skip_literal q s = Some t \<and> \<not> ends_in_backslash t"
proof (induction q s rule: skip_literal.induct)
  case (2 q c s)
  then show ?case
    by (cases s) (auto simp: ends_in_backslash_def split: if_splits)
qed (simp add: ends_in_backslash_def)

lemma after_line_end: "after_line s = Some t \<Longrightarrow> \<not> ends_in_backslash s \<Longrightarrow> \<not> ends_in_backslash t"
  by (induction s rule: after_line.induct) (auto simp: ends_in_backslash_def split: if_splits)

lemma after_comment_end: "after_comment s = Some t \<Longrightarrow> \<not> ends_in_backslash s \<Longrightarrow> \<not> ends_in_backslash t"
  by (induction s rule: after_comment.induct) (auto simp: ends_in_backslash_def split: if_splits)

lemma ends_in_backslash_Cons: "\<not> ends_in_backslash (c # p) \<Longrightarrow> \<not> ends_in_backslash p"
  by (auto simp: ends_in_backslash_def)

lemma obfuscate_defined: "\<not> ends_in_backslash s \<Longrightarrow> obfuscate st s \<noteq> None"
proof (induction st s rule: obfuscate.induct)
  case (2 c p)
  have p: "\<not> ends_in_backslash p" by (rule ends_in_backslash_Cons [OF "2.prems"])
  note line = after_line_end [OF _ "2.prems"] and comment = after_comment_end [OF _ "2.prems"]
  show ?case
    using "2.IH" p line comment by (simp del: after_line.simps after_comment.simps split: option.split)
next
  case (3 c p)
  then show ?case using skip_literal_defined [of "c # p" "CHR 0x22"] by (auto simp del: skip_literal.simps)
next
  case (4 c p)
  then show ?case using skip_literal_defined [of "c # p" "CHR 0x27"] by (auto simp del: skip_literal.simps)
next
  case (5 c p)
  then show ?case using ends_in_backslash_Cons [of c p] by simp
qed simp

lemma skip_literal_plain:
  "\<forall>c \<in> set s. c \<noteq> q \<and> c \<noteq> CHR 0x5C \<Longrightarrow> skip_literal q (s @ t) = skip_literal q t"
  by (induction s) auto

section \<open>Queries as sequences of tokens\<close>

text \<open>
  The specification: a query is a sequence of characters, literals, numbers and comments, each ending
  where the scanner takes it to end.
\<close>

datatype sql_token = Text char | Literal char string | Number string | Line_comment string | Block_comment string

fun token_text :: "sql_token \<Rightarrow> string" where
  "token_text (Text c) = [c]"
| "token_text (Literal q b) = q # b @ [q]"
| "token_text (Number ds) = ds"
| "token_text (Line_comment b) = ''--'' @ b @ [CHR 0x0A]"
| "token_text (Block_comment b) = ''/*'' @ b @ ''*/''"

fun token_image :: "sql_token \<Rightarrow> string" where
  "token_image (Text c) = [c]"
| "token_image (Literal q b) = ''?''"
| "token_image (Number ds) = ''?''"
| "token_image _ = []"

definition closes_early :: "string \<Rightarrow> bool" where
  "closes_early s \<longleftrightarrow> (\<exists>i < length s. take 2 (drop i s) = ''*/'')"

text \<open>Whether the token is one, in front of the text \<open>f\<close>.\<close>

fun token_fits :: "sql_token \<Rightarrow> string \<Rightarrow> bool" where
  "token_fits (Text c) f \<longleftrightarrow> \<not> is_secret c \<and> (c = CHR ''-'' \<longrightarrow> f = [] \<or> hd f \<noteq> CHR ''-'') \<and>
     (c = CHR ''/'' \<longrightarrow> f = [] \<or> hd f \<noteq> CHR ''*'')"
| "token_fits (Literal q b) f \<longleftrightarrow> (q = CHR 0x22 \<or> q = CHR 0x27) \<and> (\<forall>c \<in> set b. c \<noteq> q \<and> c \<noteq> CHR 0x5C) \<and> (f = [] \<or> hd f \<noteq> q)"
| "token_fits (Number ds) f \<longleftrightarrow> ds \<noteq> [] \<and> (\<forall>c \<in> set ds. is_sql_digit c) \<and> (f = [] \<or> \<not> is_sql_digit (hd f))"
| "token_fits (Line_comment b) f \<longleftrightarrow> CHR 0x0A \<notin> set b"
| "token_fits (Block_comment b) f \<longleftrightarrow> \<not> closes_early (CHR ''*'' # b @ ''*'')"

fun tokens_ok :: "sql_token list \<Rightarrow> bool" where
  "tokens_ok [] = True"
| "tokens_ok (t # ts) \<longleftrightarrow> token_fits t (concat (map token_text ts)) \<and> tokens_ok ts"

lemma closes_early_Cons: "closes_early (c # s) \<longleftrightarrow> take 2 (c # s) = ''*/'' \<or> closes_early s"
proof
  assume "closes_early (c # s)"
  then obtain i where i: "i < Suc (length s)" "take 2 (drop i (c # s)) = ''*/''" by (auto simp: closes_early_def)
  then show "take 2 (c # s) = ''*/'' \<or> closes_early s" by (cases i) (auto simp: closes_early_def)
next
  assume "take 2 (c # s) = ''*/'' \<or> closes_early s"
  then show "closes_early (c # s)"
  proof
    assume "take 2 (c # s) = ''*/''"
    then show ?thesis unfolding closes_early_def by (intro exI [of _ 0]) simp
  next
    assume "closes_early s"
    then obtain i where "i < length s" "take 2 (drop i s) = ''*/''" by (auto simp: closes_early_def)
    then show ?thesis unfolding closes_early_def by (intro exI [of _ "Suc i"]) simp
  qed
qed

lemma after_comment_first: "\<not> closes_early (b @ ''*'') \<Longrightarrow> after_comment (b @ ''*/'' @ t) = Some t"
proof (induction b)
  case (Cons c b)
  then have "after_comment (b @ ''*/'' @ t) = Some t" by (simp add: closes_early_Cons)
  moreover obtain d s where "b @ ''*/'' @ t = d # s" by (cases b) auto
  moreover have "\<not> (c = CHR ''*'' \<and> d = CHR ''/'')" if "b @ ''*/'' @ t = d # s"
    using Cons.prems that by (cases b) (auto simp: closes_early_Cons)
  ultimately show ?case by auto
qed simp

lemma after_line_first: "CHR 0x0A \<notin> set b \<Longrightarrow> after_line (b @ CHR 0x0A # t) = Some t"
  by (induction b) auto

lemma obfuscate_digits:
  "\<forall>c \<in> set ds. is_sql_digit c \<Longrightarrow> f = [] \<or> \<not> is_sql_digit (hd f) \<Longrightarrow> obfuscate In_digits (ds @ f) = obfuscate Normal f"
proof (induction ds)
  case Nil
  then show ?case by (cases f) simp_all
qed simp

lemma skip_literal_body:
  assumes "\<forall>c \<in> set b. c \<noteq> q \<and> c \<noteq> CHR 0x5C" "f = [] \<or> hd f \<noteq> q" "q \<noteq> CHR 0x5C"
  shows "skip_literal q (b @ q # f) = Some f"
  using assms by (cases f) (simp_all add: skip_literal_plain)

lemma map_append_Nil: "map_option ((@) []) r = r" by (cases r) simp_all

lemma append_single: "(@) [c] = (#) c" by (rule ext) simp

lemma obfuscate_token:
  assumes "token_fits t f"
  shows "obfuscate Normal (token_text t @ f) = map_option ((@) (token_image t)) (obfuscate Normal f)"
proof (cases t)
  case (Text c)
  then show ?thesis using assms
    by (cases "c = CHR ''-''"; cases "c = CHR ''/''") (simp_all add: is_secret_def append_single, blast+)
next
  case (Literal q b)
  have skip: "skip_literal q (b @ q # f) = Some f" using assms Literal by (intro skip_literal_body) auto
  obtain d s where ds: "b @ q # f = d # s" by (cases b) auto
  have "obfuscate In_double_quotes (b @ q # f) = obfuscate Normal f" if "q = CHR 0x22"
    using skip that unfolding ds by simp
  moreover have "obfuscate In_single_quotes (b @ q # f) = obfuscate Normal f" if "q = CHR 0x27"
    using skip that unfolding ds by simp
  moreover have "q = CHR 0x22 \<or> q = CHR 0x27" using assms Literal by simp
  ultimately show ?thesis using Literal by (elim disjE) (simp_all add: append_single)
next
  case (Number ds)
  then obtain d ds' where d: "ds = d # ds'" "is_sql_digit d" "\<forall>c \<in> set ds'. is_sql_digit c" using assms by (cases ds) auto
  then have "d \<noteq> CHR 0x22" "d \<noteq> CHR 0x27" "d \<noteq> CHR ''-''" "d \<noteq> CHR ''/''" by (auto simp: is_sql_digit_def)
  moreover have "obfuscate In_digits (ds' @ f) = obfuscate Normal f" using obfuscate_digits [OF d(3)] assms Number by simp
  ultimately show ?thesis using Number d by (simp add: append_single)
next
  case (Line_comment b)
  then have "after_line (''--'' @ b @ CHR 0x0A # f) = Some f" using assms after_line_first [of "''--'' @ b" f] by simp
  then show ?thesis using Line_comment by (simp del: after_line.simps add: map_append_Nil)
next
  case (Block_comment b)
  then have "after_comment ((''/*'' @ b) @ ''*/'' @ f) = Some f"
    using assms by (intro after_comment_first) (simp add: closes_early_Cons)
  then show ?thesis using Block_comment by (simp del: after_comment.simps add: map_append_Nil)
qed

lemma obfuscate_tokens:
  "tokens_ok ts \<Longrightarrow> obfuscate Normal (concat (map token_text ts)) = Some (concat (map token_image ts))"
  by (induction ts) (simp_all add: obfuscate_token)



end
