(* ===== verification/Url.thy ===== *)
theory Url
  imports C_Strings
begin

text \<open>
  util_url.c: removing credentials and parameters from a URL, and finding its domain.

  The lengths that the callers give are \<open>nr_strlen\<close> of the URL, so the URL is a string without zeros and its
  length.  \<open>clean_loop\<close> keeps the part of the buffer before the write position; \<open>None\<close> is a write behind
  the end of the buffer.
\<close>

definition NR_URL_QUERY_CHARS :: string where "NR_URL_QUERY_CHARS = ''#?;''"
definition NR_PROXY_CREDS_MASK :: string where "NR_PROXY_CREDS_MASK = ''****''"

section \<open>Cleaning\<close>

text \<open>
  Backing up over the credentials, from the write position to the last slash or the start: what stays, and
  whether a colon was passed.
\<close>

definition back_up :: "string \<Rightarrow> bool \<times> string" where
  "back_up clean =
     (let dropped = takeWhile (\<lambda>c. c \<noteq> CHR ''/'') (rev clean)
      in (CHR '':'' \<in> set dropped, rev (drop (length dropped) (rev clean))))"

fun clean_loop :: "nat \<Rightarrow> bool \<Rightarrow> string \<Rightarrow> string \<Rightarrow> string option" where
  "clean_loop sz mask_creds clean [] = (if length clean < sz then Some clean else None)"
| "clean_loop sz mask_creds clean (c # url) =
     (let next = (if c = CHR ''@''
                  then let (has_password, clean) = back_up clean
                       in if mask_creds
                          then clean @ NR_PROXY_CREDS_MASK @ (if has_password then '':'' @ NR_PROXY_CREDS_MASK else []) @ ''@''
                          else clean
                  else clean @ [c])
      in if length next \<le> sz then clean_loop sz mask_creds next url else None)"

text \<open>\<open>Some None\<close> is the result NULL.\<close>

definition nr_url_clean_internal :: "string option \<Rightarrow> bool \<Rightarrow> string option option" where
  "nr_url_clean_internal url mask_creds =
     (case url of None \<Rightarrow> Some None
      | Some u \<Rightarrow>
          let len = length (takeWhile (\<lambda>c. c \<notin> set NR_URL_QUERY_CHARS) u)
          in if len = 0 then Some None
             else map_option Some (clean_loop (len + 2 * length NR_PROXY_CREDS_MASK + 1) mask_creds [] (take len u)))"

definition nr_url_clean :: "string option \<Rightarrow> string option option" where
  "nr_url_clean url = nr_url_clean_internal url False"

definition nr_url_proxy_clean :: "string option \<Rightarrow> string option option" where
  "nr_url_proxy_clean url = nr_url_clean_internal url True"

section \<open>The domain\<close>

record domain_scan =
  ds_start :: nat
  ds_stop :: "nat option"
  ds_after_at :: nat
  ds_after_colon_slash_slash :: nat

text \<open>The loop from position \<open>i\<close>: NULL, or where the loop ended and what it found.\<close>

function domain_loop :: "string \<Rightarrow> nat \<Rightarrow> domain_scan \<Rightarrow> (nat \<times> domain_scan) option" where
  "domain_loop url i d =
     (if i \<ge> length url then Some (i, d)
      else if url ! i = CHR ''@'' then
        (if ds_after_at d \<noteq> 0 then None
         else domain_loop url (i + 1) (d\<lparr>ds_after_at := i + 1, ds_start := i + 1, ds_stop := None\<rparr>))
      else if url ! i = CHR '':'' then
        (if i + 2 < length url \<and> url ! (i + 1) = CHR ''/'' \<and> url ! (i + 2) = CHR ''/''
         then (if ds_after_at d \<noteq> 0 \<or> ds_after_colon_slash_slash d \<noteq> 0 then None
               else domain_loop url (i + 3) (d\<lparr>ds_after_colon_slash_slash := i + 3, ds_start := i + 3, ds_stop := None\<rparr>))
         else domain_loop url (i + 1) (if ds_stop d = None then d\<lparr>ds_stop := Some i\<rparr> else d))
      else if url ! i \<in> set (CHR ''/'' # NR_URL_QUERY_CHARS) then Some (i, d)
      else domain_loop url (i + 1) d)"
  by pat_completeness auto
termination by (relation "measure (\<lambda>(url, i, d). length url - i)") auto

declare domain_loop.simps [simp del]

text \<open>The domain and its length, as the position and the length inside the URL.\<close>

definition nr_url_extract_domain :: "string option \<Rightarrow> (nat \<times> nat) option" where
  "nr_url_extract_domain url =
     (case url of None \<Rightarrow> None
      | Some u \<Rightarrow>
          (case domain_loop u 0 \<lparr>ds_start = 0, ds_stop = None, ds_after_at = 0, ds_after_colon_slash_slash = 0\<rparr> of
             None \<Rightarrow> None
           | Some (i, d) \<Rightarrow>
               let stop = (case ds_stop d of None \<Rightarrow> i | Some s \<Rightarrow> s)
               in if ds_start d \<ge> length u \<or> ds_start d \<ge> stop then None else Some (ds_start d, stop - ds_start d)))"

section \<open>What cleaning leaves\<close>

lemma back_up_prefix: "back_up clean = (p, c) \<Longrightarrow> length c \<le> length clean \<and> set c \<subseteq> set clean"
  using set_drop_subset [of "length (takeWhile (\<lambda>c. c \<noteq> CHR ''/'') (rev clean))" "rev clean"]
  by (auto simp: back_up_def Let_def)

lemma clean_loop_plain:
  assumes "length clean + length url < sz"
  shows "\<exists>r. clean_loop sz False clean url = Some r \<and> length r \<le> length clean + length url \<and>
    set r \<subseteq> set clean \<union> (set url - {CHR ''@''})"
  using assms
proof (induction url arbitrary: clean)
  case (Cons c url)
  show ?case
  proof (cases "c = CHR ''@''")
    case True
    obtain p cl where b: "back_up clean = (p, cl)" by fastforce
    note pre = back_up_prefix [OF b]
    have "\<exists>r. clean_loop sz False cl url = Some r \<and> length r \<le> length cl + length url \<and>
      set r \<subseteq> set cl \<union> (set url - {CHR ''@''})"
      using Cons.IH [of cl] Cons.prems pre by simp
    then show ?thesis using pre Cons.prems True b by (fastforce simp: Let_def)
  next
    case False
    have "\<exists>r. clean_loop sz False (clean @ [c]) url = Some r \<and> length r \<le> length (clean @ [c]) + length url \<and>
      set r \<subseteq> set (clean @ [c]) \<union> (set url - {CHR ''@''})"
      using Cons.IH [of "clean @ [c]"] Cons.prems by simp
    then show ?thesis using Cons.prems False by (fastforce simp: Let_def)
  qed
qed simp

lemma clean_loop_text:
  "CHR ''@'' \<notin> set url \<Longrightarrow> length clean + length url < sz \<Longrightarrow>
    clean_loop sz m clean (url @ tail) = clean_loop sz m (clean @ url) tail"
  by (induction url arbitrary: clean) (auto simp: Let_def)

lemma back_up_credentials:
  assumes "CHR ''/'' \<notin> set creds" "pre = [] \<or> last pre = CHR ''/''"
  shows "back_up (pre @ creds) = (CHR '':'' \<in> set creds, pre)"
proof -
  have *: "\<And>c. c \<in> set (rev creds) \<Longrightarrow> c \<noteq> CHR ''/''" using assms(1) by auto
  have "takeWhile (\<lambda>c. c \<noteq> CHR ''/'') (rev (pre @ creds)) = rev creds @ takeWhile (\<lambda>c. c \<noteq> CHR ''/'') (rev pre)"
    using takeWhile_append2 [of "rev creds" "\<lambda>c. c \<noteq> CHR ''/''" "rev pre"] * by auto
  moreover have "takeWhile (\<lambda>c. c \<noteq> CHR ''/'') (rev pre) = []"
    using assms(2) by (cases pre rule: rev_cases) auto
  ultimately show ?thesis by (simp add: back_up_def Let_def)
qed

text \<open>The part of the URL that is looked at ends before \<open>query\<close>.\<close>

lemma nr_url_clean_cut:
  assumes "\<forall>c \<in> set u. c \<notin> set ''?#;''" "query = [] \<or> hd query \<in> set ''?#;''"
  shows "nr_url_clean (Some (u @ query)) =
    (if u = [] then Some None else map_option Some (clean_loop (length u + 9) False [] u))"
proof -
  have "takeWhile (\<lambda>c. c \<notin> set NR_URL_QUERY_CHARS) (u @ query) = u @ takeWhile (\<lambda>c. c \<notin> set NR_URL_QUERY_CHARS) query"
    using assms(1) by (intro takeWhile_append2) (auto simp: NR_URL_QUERY_CHARS_def)
  moreover have "takeWhile (\<lambda>c. c \<notin> set NR_URL_QUERY_CHARS) query = []"
    using assms(2) by (cases query) (auto simp: NR_URL_QUERY_CHARS_def)
  moreover have "length u + 2 * length NR_PROXY_CREDS_MASK + 1 = length u + 9" by (simp add: NR_PROXY_CREDS_MASK_def)
  ultimately show ?thesis
    unfolding nr_url_clean_def nr_url_clean_internal_def Let_def option.case by (simp only: append_Nil2) simp
qed



section \<open>The domain lies inside the URL\<close>

definition scan_ok :: "nat \<Rightarrow> domain_scan \<Rightarrow> bool" where
  "scan_ok i d \<longleftrightarrow> ds_start d \<le> i \<and> (\<forall>s. ds_stop d = Some s \<longrightarrow> s < i)"

lemma domain_loop_ok:
  assumes "domain_loop url i d = Some (j, d')" "scan_ok i d" "i \<le> length url"
  shows "scan_ok j d' \<and> j \<le> length url"
  using assms
proof (induction url i d rule: domain_loop.induct)
  case (1 url i d)
  show ?case
  proof (cases "i \<ge> length url")
    case True
    then show ?thesis using "1.prems" by (simp add: domain_loop.simps [of url i])
  next
    case False
    consider (at) "url ! i = CHR ''@''" | (scheme) "url ! i = CHR '':''"
        "i + 2 < length url \<and> url ! (i + 1) = CHR ''/'' \<and> url ! (i + 2) = CHR ''/''"
      | (colon) "url ! i = CHR '':''" "\<not> (i + 2 < length url \<and> url ! (i + 1) = CHR ''/'' \<and> url ! (i + 2) = CHR ''/'')"
      | (stop) "url ! i \<in> set (CHR ''/'' # NR_URL_QUERY_CHARS)" "url ! i \<noteq> CHR ''@''" "url ! i \<noteq> CHR '':''"
      | (other) "url ! i \<notin> set (CHR ''/'' # NR_URL_QUERY_CHARS)" "url ! i \<noteq> CHR ''@''" "url ! i \<noteq> CHR '':''"
      by blast
    then show ?thesis
    proof cases
      case at
      then show ?thesis
        using "1.prems"(1) "1.IH"(1) [OF _ at] False
        by (simp add: domain_loop.simps [of url i] scan_ok_def split: if_splits)
    next
      case scheme
      then have "url ! i \<noteq> CHR ''@''" by simp
      with scheme show ?thesis
        using "1.prems"(1) "1.IH"(2) False
        by (simp add: domain_loop.simps [of url i] scan_ok_def split: if_splits)
    next
      case colon
      then have n: "url ! i \<noteq> CHR ''@''" by simp
      have "domain_loop url (i + 1) (if ds_stop d = None then d\<lparr>ds_stop := Some i\<rparr> else d) = Some (j, d')"
        using "1.prems"(1) n False unfolding domain_loop.simps [of url i] by (simp only: colon if_True if_False not_False_eq_True simp_thms)
      moreover have "scan_ok (i + 1) (if ds_stop d = None then d\<lparr>ds_stop := Some i\<rparr> else d)"
        using "1.prems"(2) by (auto simp: scan_ok_def split: option.splits)
      ultimately show ?thesis using "1.IH"(3) [OF _ n colon] False by simp
    next
      case stop
      then show ?thesis using "1.prems" False by (simp add: domain_loop.simps [of url i])
    next
      case other
      have "domain_loop url (i + 1) d = Some (j, d')"
        using "1.prems"(1) other False by (simp add: domain_loop.simps [of url i])
      moreover have "scan_ok (i + 1) d" using "1.prems"(2) by (auto simp: scan_ok_def)
      ultimately show ?thesis using "1.IH"(4) [OF _ other(2,3,1)] False by simp
    qed
  qed
qed

lemma nr_url_extract_domain_inside:
  assumes "nr_url_extract_domain (Some u) = Some (start, len)"
  shows "len > 0 \<and> start + len \<le> length u"
  using assms domain_loop_ok [of u 0]
  by (fastforce simp: nr_url_extract_domain_def Let_def scan_ok_def split: option.splits if_splits)

end
