(* ===== verification/Typed_Segments.thy ===== *)
theory Typed_Segments
  imports Txn Sql_Obfuscation Url
begin

text \<open>
  Datastore and external segments: nr_datastore.c, nr_datastore_instance.c, nr_segment_datastore.c and
  nr_segment_external.c.

  The parameters have the fields that the SDK fills in; the others are zero in every call (backtrace and
  table-name callbacks, explain plan, input query; response header and rollup of an external segment),
  and what the code does for them is left out.  A slow query is recorded with the arguments of
  \<open>nr_slowsqls_add\<close>.
\<close>

section \<open>Products (nr_datastore.c)\<close>

record nr_datastore_mapping =
  dm_datastore :: nr_datastore_t
  dm_str :: "string option"
  dm_lowercase :: "string option"
  dm_is_sql :: bool

definition datastore_mapping :: "nr_datastore_t \<Rightarrow> string \<Rightarrow> string \<Rightarrow> bool \<Rightarrow> nr_datastore_mapping" where
  "datastore_mapping ds str lowercase sql = \<lparr>dm_datastore = ds, dm_str = Some str, dm_lowercase = Some lowercase, dm_is_sql = sql\<rparr>"

definition datastore_mappings :: "nr_datastore_mapping list" where
  "datastore_mappings =
    [\<lparr>dm_datastore = NR_DATASTORE_OTHER, dm_str = None, dm_lowercase = None, dm_is_sql = False\<rparr>,
     datastore_mapping NR_DATASTORE_MONGODB ''MongoDB'' ''mongodb'' False,
     datastore_mapping NR_DATASTORE_MEMCACHE ''Memcached'' ''memcached'' False,
     datastore_mapping NR_DATASTORE_MYSQL ''MySQL'' ''mysql'' True,
     datastore_mapping NR_DATASTORE_REDIS ''Redis'' ''redis'' False,
     datastore_mapping NR_DATASTORE_MSSQL ''MSSQL'' ''mssql'' True,
     datastore_mapping NR_DATASTORE_ORACLE ''Oracle'' ''oracle'' True,
     datastore_mapping NR_DATASTORE_POSTGRES ''Postgres'' ''postgres'' True,
     datastore_mapping NR_DATASTORE_SQLITE ''SQLite'' ''sqlite'' True,
     datastore_mapping NR_DATASTORE_FIREBIRD ''Firebird'' ''firebird'' True,
     datastore_mapping NR_DATASTORE_ODBC ''ODBC'' ''odbc'' False,
     datastore_mapping NR_DATASTORE_SYBASE ''Sybase'' ''sybase'' True,
     datastore_mapping NR_DATASTORE_INFORMIX ''Informix'' ''informix'' True,
     datastore_mapping NR_DATASTORE_PDO ''PDO'' ''pdo'' False,
     \<lparr>dm_datastore = NR_DATASTORE_MUST_BE_LAST, dm_str = None, dm_lowercase = None, dm_is_sql = False\<rparr>]"

definition nr_datastore_as_string :: "nr_datastore_t \<Rightarrow> string option" where
  "nr_datastore_as_string ds =
     (case find (\<lambda>m. dm_datastore m = ds) datastore_mappings of None \<Rightarrow> None | Some m \<Rightarrow> dm_str m)"

definition nr_datastore_from_string :: "string option \<Rightarrow> nr_datastore_t" where
  "nr_datastore_from_string str =
     (case str of None \<Rightarrow> NR_DATASTORE_OTHER
      | Some s \<Rightarrow>
          (case find (\<lambda>m. dm_lowercase m = Some (nr_string_to_lowercase s)) datastore_mappings of
             None \<Rightarrow> NR_DATASTORE_OTHER | Some m \<Rightarrow> dm_datastore m))"

definition nr_datastore_is_sql :: "nr_datastore_t \<Rightarrow> bool" where
  "nr_datastore_is_sql ds =
     (case find (\<lambda>m. dm_datastore m = ds) datastore_mappings of None \<Rightarrow> False | Some m \<Rightarrow> dm_is_sql m)"

section \<open>Instances (nr_datastore_instance.c)\<close>

definition nr_datastore_instance_is_localhost :: "string option \<Rightarrow> bool" where
  "nr_datastore_instance_is_localhost host =
     (case host of None \<Rightarrow> False
      | Some h \<Rightarrow> h \<in> set [''localhost'', ''127.0.0.1'', ''0.0.0.0'', ''0:0:0:0:0:0:0:1'', ''::1'', ''0:0:0:0:0:0:0:0'', ''::''])"

definition nr_datastore_instance_set_host :: "sdk_env \<Rightarrow> string option \<Rightarrow> nr_datastore_instance \<Rightarrow> nr_datastore_instance" where
  "nr_datastore_instance_set_host e host i =
     i\<lparr>ins_host := Some (if nr_datastore_instance_is_localhost host then env_hostname e
       else if nr_strempty host then ''unknown'' else nr_strdup host)\<rparr>"

definition nr_datastore_instance_set_port_path_or_id :: "string option \<Rightarrow> nr_datastore_instance \<Rightarrow> nr_datastore_instance" where
  "nr_datastore_instance_set_port_path_or_id port_path_or_id i =
     i\<lparr>ins_port_path_or_id := Some (if nr_strempty port_path_or_id then ''unknown'' else nr_strdup port_path_or_id)\<rparr>"

definition nr_datastore_instance_set_database_name :: "string option \<Rightarrow> nr_datastore_instance \<Rightarrow> nr_datastore_instance" where
  "nr_datastore_instance_set_database_name database_name i =
     i\<lparr>ins_database_name := Some (if nr_strempty database_name then ''unknown'' else nr_strdup database_name)\<rparr>"

definition zero_instance :: nr_datastore_instance where
  "zero_instance = \<lparr>ins_host = None, ins_port_path_or_id = None, ins_database_name = None\<rparr>"

section \<open>Datastore segments (nr_segment_datastore.c)\<close>

record nr_segment_datastore_params =
  dp_collection :: "string option"
  dp_operation :: "string option"
  dp_instance :: "nr_datastore_instance option"
  dp_type :: nr_datastore_t
  dp_string :: "string option"
  dp_sql :: "string option"

text \<open>The operation and statement metrics of the segment: the name of the scoped one.\<close>

definition statement_metric :: "nat \<Rightarrow> string \<Rightarrow> string option \<Rightarrow> string \<Rightarrow> world \<Rightarrow> (string \<times> world) option" where
  "statement_metric s product collection operation w =
     (let operation_metric = ''Datastore/operation/'' @ product @ ''/'' @ operation
      in case collection of
           Some c \<Rightarrow> do {
             (_, w) \<leftarrow> nr_segment_add_metric (Some s) (Some operation_metric) False w;
             Some (''Datastore/statement/'' @ product @ ''/'' @ c @ ''/'' @ operation, w)
           }
         | None \<Rightarrow> Some (operation_metric, w))"

text \<open>The instance metric and the instance to report on the segment.\<close>

definition instance_metric ::
  "sdk_env \<Rightarrow> nat \<Rightarrow> nrtxnopt \<Rightarrow> string \<Rightarrow> nr_datastore_instance option \<Rightarrow> world \<Rightarrow> (nr_datastore_instance \<times> world) option" where
  "instance_metric e s opts product inst w =
     (case inst of
        None \<Rightarrow> Some (zero_instance, w)
      | Some i \<Rightarrow>
          if \<not> opt_instance_reporting_enabled opts then Some (zero_instance, w)
          else do {
            let out = (if opt_database_name_reporting_enabled opts
                       then nr_datastore_instance_set_database_name (ins_database_name i) zero_instance else zero_instance);
            (_, w) \<leftarrow> nr_segment_add_metric (Some s)
              (Some (''Datastore/instance/'' @ product @ ''/'' @ fmt_s (ins_host i) @ ''/'' @ fmt_s (ins_port_path_or_id i))) False w;
            Some (nr_datastore_instance_set_port_path_or_id (ins_port_path_or_id i)
              (nr_datastore_instance_set_host e (ins_host i) out), w)
          })"

text \<open>The metrics of the segment; the result is the name of the scoped metric and the instance to report.\<close>

definition create_metrics ::
  "sdk_env \<Rightarrow> nat \<Rightarrow> nat \<Rightarrow> nrtime_t \<Rightarrow> string \<Rightarrow> string option \<Rightarrow> string \<Rightarrow> nr_datastore_instance option \<Rightarrow> world \<Rightarrow>
    (string \<times> nr_datastore_instance \<times> world) option" where
  "create_metrics e t s duration product collection operation inst w = do {
     w \<leftarrow> force_add_unscoped t ''Datastore/all'' duration w;
     w \<leftarrow> force_add_unscoped t (''Datastore/'' @ product @ ''/all'') duration w;
     (scoped, w) \<leftarrow> statement_metric s product collection operation w;
     (_, w) \<leftarrow> nr_segment_add_metric (Some s) (Some scoped) True w;
     x \<leftarrow> w_txns w t;
     (reported, w) \<leftarrow> instance_metric e s (tx_options x) product inst w;
     Some (scoped, reported, w)
   }"

definition nr_segment_potential_slowsql :: "nrtxn \<Rightarrow> nrtime_t \<Rightarrow> bool" where
  "nr_segment_potential_slowsql x duration \<longleftrightarrow>
     opt_tt_recordsql (tx_options x) \<noteq> NR_SQL_NONE \<and> opt_tt_slowsql (tx_options x) \<and> duration \<ge> opt_ep_threshold (tx_options x)"

definition nr_slowsqls_add :: "nat \<Rightarrow> nr_slowsqls_params \<Rightarrow> world \<Rightarrow> world option" where
  "nr_slowsqls_add t params w = upd_txn t (\<lambda>x. x\<lparr>tx_slowsqls := tx_slowsqls x @ [params]\<rparr>) w"

text \<open>The end of the function: the query as the security settings allow it, the slow query, the attributes.\<close>

definition store_datastore ::
  "nat \<Rightarrow> nat \<Rightarrow> bool \<Rightarrow> nrtime_t \<Rightarrow> string \<Rightarrow> string \<Rightarrow> nr_datastore_instance \<Rightarrow> nr_segment_datastore_params \<Rightarrow> world \<Rightarrow> world option" where
  "store_datastore t s is_sql duration datastore_string scoped reported params w = do {
     x \<leftarrow> w_txns w t;
     let level = (if is_sql then nr_txn_sql_recording_level x else NR_SQL_NONE);
     let sql = (if level = NR_SQL_RAW then dp_sql params else None);
     obfuscated \<leftarrow> (if level = NR_SQL_OBFUSCATED then nr_sql_obfuscate (dp_sql params) else Some None);
     w \<leftarrow> (if is_sql \<and> nr_segment_potential_slowsql x duration
           then nr_slowsqls_add t
             \<lparr>sq_sql = (if obfuscated \<noteq> None then obfuscated else sql), sq_duration = duration, sq_metric_name = scoped,
              sq_instance = (case dp_instance params of None \<Rightarrow> zero_instance | Some i \<Rightarrow> i),
              sq_instance_reporting_enabled = opt_instance_reporting_enabled (tx_options x),
              sq_database_name_reporting_enabled = opt_database_name_reporting_enabled (tx_options x)\<rparr> w
           else Some w);
     (_, w) \<leftarrow> nr_segment_set_datastore (Some s)
       (Some \<lparr>sd_component = Some datastore_string, sd_sql = sql, sd_sql_obfuscated = obfuscated, sd_input_query_json = None,
         sd_backtrace_json = None, sd_explain_plan_json = None, sd_instance = reported\<rparr>) w;
     Some w
   }"

definition nr_segment_datastore_end ::
  "sdk_env \<Rightarrow> nat option \<Rightarrow> nr_segment_datastore_params option \<Rightarrow> world \<Rightarrow> world option" where
  "nr_segment_datastore_end e segment params w =
     (case (segment, params) of
        (Some s, Some params) \<Rightarrow> do {
          seg \<leftarrow> w_segs w s;
          case seg_txn seg of None \<Rightarrow> Some w
          | Some t \<Rightarrow> do {
              let is_sql = nr_datastore_is_sql (dp_type params);
              let parsed =
                (if is_sql \<and> (dp_collection params = None \<or> dp_operation params = None)
                 then env_sql_operation_and_table e (dp_sql params) else (None, None));
              case (if dp_type params = NR_DATASTORE_OTHER then dp_string params else nr_datastore_as_string (dp_type params)) of
                None \<Rightarrow> Some w
              | Some datastore_string \<Rightarrow> do {
                  x \<leftarrow> w_txns w t;
                  (_, pool) \<leftarrow> nr_string_add (tx_datastore_products x) (Some datastore_string);
                  w \<leftarrow> upd_txn t (\<lambda>x. x\<lparr>tx_datastore_products := pool\<rparr>) w;
                  let collection = (if dp_collection params \<noteq> None then dp_collection params else snd parsed);
                  let operation = (case dp_operation params of Some p \<Rightarrow> p
                    | None \<Rightarrow> (case fst parsed of Some p \<Rightarrow> p | None \<Rightarrow> ''other''));
                  (_, w) \<leftarrow> nr_segment_end (Some s) (env_now e) w;
                  seg \<leftarrow> w_segs w s;
                  let duration = nr_time_duration (seg_start_time seg) (seg_stop_time seg);
                  (scoped, reported, w) \<leftarrow> create_metrics e t s duration datastore_string collection operation (dp_instance params) w;
                  (_, w) \<leftarrow> nr_segment_set_name (Some s) (Some scoped) w;
                  store_datastore t s is_sql duration datastore_string scoped reported params w
                }
            }
        }
      | _ \<Rightarrow> Some w)"

section \<open>External segments (nr_segment_external.c)\<close>

record nr_segment_external_params =
  xp_library :: "string option"
  xp_procedure :: "string option"
  xp_uri :: "string option"

definition nr_segment_external_set_attrs :: "nat \<Rightarrow> nr_segment_external_params \<Rightarrow> world \<Rightarrow> world option" where
  "nr_segment_external_set_attrs s params w = do {
     uri \<leftarrow> nr_url_clean (xp_uri params);
     (_, w) \<leftarrow> nr_segment_set_external (Some s)
       (Some \<lparr>sx_transaction_guid = None, sx_uri = uri, sx_library = xp_library params, sx_procedure = xp_procedure params\<rparr>) w;
     Some w
   }"

text \<open>The domain for the metric name; one of 768 characters or more does not fit.\<close>

definition metric_domain :: "string option \<Rightarrow> string" where
  "metric_domain uri =
     (case (uri, nr_url_extract_domain uri) of
        (Some u, Some (start, domainlen)) \<Rightarrow> if domainlen \<ge> 1024 - 256 then ''<unknown>'' else take domainlen (drop start u)
      | _ \<Rightarrow> ''<unknown>'')"

definition nr_segment_external_create_metrics :: "nat \<Rightarrow> nat \<Rightarrow> string option \<Rightarrow> world \<Rightarrow> world option" where
  "nr_segment_external_create_metrics t s uri w = do {
     seg \<leftarrow> w_segs w s;
     w \<leftarrow> force_add_unscoped t ''External/all'' (nr_time_duration (seg_start_time seg) (seg_stop_time seg)) w;
     let buf = ''External/'' @ metric_domain uri @ ''/all'';
     (_, w) \<leftarrow> nr_segment_add_metric (Some s) (Some buf) True w;
     (idx, w) \<leftarrow> intern_trace_string t (Some buf) w;
     upd_seg s (\<lambda>seg. seg\<lparr>seg_name := idx\<rparr>) w
   }"

definition nr_segment_external_end ::
  "sdk_env \<Rightarrow> nat option \<Rightarrow> nr_segment_external_params option \<Rightarrow> world \<Rightarrow> (bool \<times> world) option" where
  "nr_segment_external_end e segment params w =
     (case (segment, params) of
        (Some s, Some params) \<Rightarrow> do {
          seg \<leftarrow> w_segs w s;
          case seg_txn seg of None \<Rightarrow> Some (False, w)
          | Some t \<Rightarrow> do {
              w \<leftarrow> nr_segment_external_set_attrs s params w;
              (rv, w) \<leftarrow> nr_segment_end (Some s) (env_now e) w;
              w \<leftarrow> nr_segment_external_create_metrics t s (xp_uri params) w;
              Some (rv, w)
            }
        }
      | _ \<Rightarrow> Some (False, w))"

end
