(* ===== verification/Api_Segment.thy ===== *)
theory Api_Segment
  imports Typed_Segments
begin

text \<open>
  segment.c, datastore.c and external.c: the segments of the API.

  A \<open>newrelic_txn_t*\<close> and a \<open>newrelic_segment_t*\<close> is an optional address in \<open>w_handles\<close> and \<open>w_wsegs\<close>; a
  pointer to such a pointer is an optional optional address, and the functions that clear it return its
  new value.  The static mutex of segment.c only guards an allocation and is left out.
\<close>

section \<open>segment.c: creating and destroying\<close>

definition newrelic_segment_create :: "sdk_env \<Rightarrow> nat option \<Rightarrow> world \<Rightarrow> (nat option \<times> world) option" where
  "newrelic_segment_create e txn w = do {
     (txn_seg, w) \<leftarrow> nr_segment_start txn None None (env_now e) w;
     case txn_seg of None \<Rightarrow> Some (None, w)
     | Some s \<Rightarrow>
         let a = w_next w
         in Some (Some a, w\<lparr>w_next := Suc a, w_wsegs := (w_wsegs w)(a \<mapsto>
              \<lparr>ns_segment = Some s, ns_transaction = txn, ns_txn_lock = None, ns_type = No_fields\<rparr>)\<rparr>)
   }"

definition newrelic_destroy_datastore_segment_fields :: "nat \<Rightarrow> world \<Rightarrow> world option" where
  "newrelic_destroy_datastore_segment_fields a w = upd_wseg a (\<lambda>s. s\<lparr>ns_type := No_fields\<rparr>) w"

definition newrelic_destroy_external_segment_fields :: "nat \<Rightarrow> world \<Rightarrow> world option" where
  "newrelic_destroy_external_segment_fields a w = upd_wseg a (\<lambda>s. s\<lparr>ns_type := No_fields\<rparr>) w"

definition newrelic_segment_destroy :: "nat option option \<Rightarrow> world \<Rightarrow> (nat option option \<times> world) option" where
  "newrelic_segment_destroy segment_ptr w =
     (case segment_ptr of
        Some (Some a) \<Rightarrow> do {
          segment \<leftarrow> w_wsegs w a;
          w \<leftarrow> (case ns_segment segment of None \<Rightarrow> Some w
            | Some s \<Rightarrow> do {
                seg \<leftarrow> w_segs w s;
                case seg_type seg of
                  NR_SEGMENT_DATASTORE \<Rightarrow> newrelic_destroy_datastore_segment_fields a w
                | NR_SEGMENT_EXTERNAL \<Rightarrow> newrelic_destroy_external_segment_fields a w
                | NR_SEGMENT_CUSTOM \<Rightarrow> Some w
              });
          Some (Some None, w\<lparr>w_wsegs := (w_wsegs w)(a := None)\<rparr>)
        }
      | p \<Rightarrow> Some (p, w))"

definition newrelic_validate_segment_param :: "string option \<Rightarrow> bool" where
  "newrelic_validate_segment_param str \<longleftrightarrow> \<not> nr_strchr str CHR ''/''"

definition newrelic_start_segment ::
  "sdk_env \<Rightarrow> nat option \<Rightarrow> string option \<Rightarrow> string option \<Rightarrow> world \<Rightarrow> (nat option \<times> world) option" where
  "newrelic_start_segment e transaction name category w =
     (case transaction of None \<Rightarrow> Some (None, w)
      | Some h \<Rightarrow> do {
          let name = (if name = None \<or> \<not> newrelic_validate_segment_param name then Some ''Unnamed Segment'' else name);
          let category = (if category = None \<or> \<not> newrelic_validate_segment_param category then Some ''Custom'' else category);
          handle \<leftarrow> w_handles w h;
          w \<leftarrow> nrt_mutex_lock (Some h) w;
          (segment, w) \<leftarrow> newrelic_segment_create e (Some (nt_txn handle)) w;
          w \<leftarrow> (case segment of None \<Rightarrow> Some w
            | Some a \<Rightarrow> do {
                s \<leftarrow> w_wsegs w a;
                (_, w) \<leftarrow> nr_segment_set_name (ns_segment s) (Some (nr_strdup category @ ''/'' @ nr_strdup name)) w;
                Some w
              });
          w \<leftarrow> nrt_mutex_unlock (Some h) w;
          a \<leftarrow> segment;
          w \<leftarrow> upd_wseg a (\<lambda>s. s\<lparr>ns_txn_lock := Some h\<rparr>) w;
          Some (segment, w)
        })"

section \<open>segment.c: parents and timing\<close>

definition newrelic_set_segment_parent :: "nat option \<Rightarrow> nat option \<Rightarrow> world \<Rightarrow> (bool \<times> world) option" where
  "newrelic_set_segment_parent segment parent w =
     (case (segment, parent) of
        (Some a, Some b) \<Rightarrow>
          if a = b then Some (False, w)
          else do {
            s \<leftarrow> w_wsegs w a;
            w \<leftarrow> nrt_mutex_lock (ns_txn_lock s) w;
            w \<leftarrow> newrelic_add_api_supportability_metric (ns_transaction s) (Some ''set_segment_parent'') w;
            p \<leftarrow> w_wsegs w b;
            (ret, w) \<leftarrow> nr_segment_set_parent (ns_segment s) (ns_segment p) w;
            w \<leftarrow> nrt_mutex_unlock (ns_txn_lock s) w;
            Some (ret, w)
          }
      | _ \<Rightarrow> Some (False, w))"

definition newrelic_set_segment_parent_root :: "nat option \<Rightarrow> world \<Rightarrow> (bool \<times> world) option" where
  "newrelic_set_segment_parent_root segment w =
     (case segment of None \<Rightarrow> Some (False, w)
      | Some a \<Rightarrow> do {
          s \<leftarrow> w_wsegs w a;
          case ns_transaction s of None \<Rightarrow> Some (False, w)
          | Some t \<Rightarrow> do {
              x \<leftarrow> w_txns w t;
              case tx_segment_root x of None \<Rightarrow> Some (False, w)
              | Some root \<Rightarrow> do {
                  w \<leftarrow> nrt_mutex_lock (ns_txn_lock s) w;
                  w \<leftarrow> newrelic_add_api_supportability_metric (Some t) (Some ''set_segment_parent_root'') w;
                  (ret, w) \<leftarrow> nr_segment_set_parent (ns_segment s) (Some root) w;
                  w \<leftarrow> nrt_mutex_unlock (ns_txn_lock s) w;
                  Some (ret, w)
                }
            }
        })"

definition newrelic_set_segment_timing ::
  "nat option \<Rightarrow> newrelic_time_us_t \<Rightarrow> newrelic_time_us_t \<Rightarrow> world \<Rightarrow> (bool \<times> world) option" where
  "newrelic_set_segment_timing segment start_time duration w =
     (case segment of None \<Rightarrow> Some (False, w)
      | Some a \<Rightarrow> do {
          s \<leftarrow> w_wsegs w a;
          w \<leftarrow> nrt_mutex_lock (ns_txn_lock s) w;
          (ret, w) \<leftarrow> nr_segment_set_timing (ns_segment s) start_time duration w;
          w \<leftarrow> nrt_mutex_unlock (ns_txn_lock s) w;
          Some (ret, w)
        })"

section \<open>datastore.c\<close>

record newrelic_datastore_segment_params =
  dsp_product :: "string option"
  dsp_collection :: "string option"
  dsp_operation :: "string option"
  dsp_host :: "string option"
  dsp_port_path_or_id :: "string option"
  dsp_database_name :: "string option"
  dsp_query :: "string option"

definition NEWRELIC_DATASTORE_OTHER :: string where "NEWRELIC_DATASTORE_OTHER = ''Other''"

text \<open>The fields that \<open>newrelic_start_datastore_segment\<close> keeps until the segment ends.\<close>

definition datastore_fields_of :: "sdk_env \<Rightarrow> newrelic_datastore_segment_params \<Rightarrow> datastore_fields" where
  "datastore_fields_of e params =
     \<lparr>df_collection = Some (nr_strdup_or (dsp_collection params) (Some ''other'')),
      df_operation = Some (nr_strdup_or (dsp_operation params) (Some ''other'')),
      df_instance = nr_datastore_instance_set_database_name (dsp_database_name params)
        (nr_datastore_instance_set_port_path_or_id (dsp_port_path_or_id params)
          (nr_datastore_instance_set_host e (dsp_host params) zero_instance)),
      df_type = nr_datastore_from_string (dsp_product params),
      df_string = Some (if nr_strempty (dsp_product params) then NEWRELIC_DATASTORE_OTHER else nr_strdup (dsp_product params)),
      df_sql = dsp_query params\<rparr>"

definition newrelic_start_datastore_segment ::
  "sdk_env \<Rightarrow> nat option \<Rightarrow> newrelic_datastore_segment_params option \<Rightarrow> world \<Rightarrow> (nat option \<times> world) option" where
  "newrelic_start_datastore_segment e transaction params w =
     (case (transaction, params) of
        (Some h, Some params) \<Rightarrow>
          if dsp_product params = None then Some (None, w)
          else if \<not> newrelic_validate_segment_param (dsp_product params) then Some (None, w)
          else if \<not> newrelic_validate_segment_param (dsp_collection params) then Some (None, w)
          else if \<not> newrelic_validate_segment_param (dsp_operation params) then Some (None, w)
          else if \<not> newrelic_validate_segment_param (dsp_host params) then Some (None, w)
          else do {
            handle \<leftarrow> w_handles w h;
            w \<leftarrow> nrt_mutex_lock (Some h) w;
            (segment, w) \<leftarrow> newrelic_segment_create e (Some (nt_txn handle)) w;
            w \<leftarrow> (case segment of None \<Rightarrow> Some w
              | Some a \<Rightarrow> do {
                  s \<leftarrow> w_wsegs w a;
                  seg \<leftarrow> ns_segment s;
                  w \<leftarrow> upd_seg seg (\<lambda>s. s\<lparr>seg_type := NR_SEGMENT_DATASTORE\<rparr>) w;
                  upd_wseg a (\<lambda>s. s\<lparr>ns_type := Datastore_fields (datastore_fields_of e params)\<rparr>) w
                });
            w \<leftarrow> nrt_mutex_unlock (Some h) w;
            Some (segment, w)
          }
      | _ \<Rightarrow> Some (None, w))"

text \<open>The datastore part of the union; memory that was never written is zero.\<close>

fun datastore_part :: "segment_fields \<Rightarrow> datastore_fields option" where
  "datastore_part (Datastore_fields d) = Some d"
| "datastore_part No_fields = Some \<lparr>df_collection = None, df_operation = None, df_instance = zero_instance,
     df_type = NR_DATASTORE_OTHER, df_string = None, df_sql = None\<rparr>"
| "datastore_part (External_fields _) = None"

definition newrelic_end_datastore_segment :: "sdk_env \<Rightarrow> nat \<Rightarrow> world \<Rightarrow> (bool \<times> world) option" where
  "newrelic_end_datastore_segment e a w = do {
     s \<leftarrow> w_wsegs w a;
     seg \<leftarrow> deref (w_segs w) (ns_segment s);
     if seg_type seg = NR_SEGMENT_DATASTORE
     then do {
       d \<leftarrow> datastore_part (ns_type s);
       let params = \<lparr>dp_collection = df_collection d, dp_operation = df_operation d, dp_instance = Some (df_instance d),
         dp_type = df_type d, dp_string = df_string d, dp_sql = df_sql d\<rparr>;
       w \<leftarrow> nr_segment_datastore_end e (ns_segment s) (Some params) w;
       w \<leftarrow> newrelic_destroy_datastore_segment_fields a w;
       Some (True, w)
     }
     else Some (False, w)
   }"

section \<open>external.c\<close>

record newrelic_external_segment_params =
  esp_uri :: "string option"
  esp_procedure :: "string option"
  esp_library :: "string option"

definition newrelic_start_external_segment ::
  "sdk_env \<Rightarrow> nat option \<Rightarrow> newrelic_external_segment_params option \<Rightarrow> world \<Rightarrow> (nat option \<times> world) option" where
  "newrelic_start_external_segment e transaction params w =
     (case (transaction, params) of
        (Some h, Some params) \<Rightarrow>
          if \<not> newrelic_validate_segment_param (esp_library params) then Some (None, w)
          else if \<not> newrelic_validate_segment_param (esp_procedure params) then Some (None, w)
          else if esp_uri params = None then Some (None, w)
          else do {
            handle \<leftarrow> w_handles w h;
            w \<leftarrow> nrt_mutex_lock (Some h) w;
            (segment, w) \<leftarrow> newrelic_segment_create e (Some (nt_txn handle)) w;
            w \<leftarrow> (case segment of None \<Rightarrow> Some w
              | Some a \<Rightarrow> do {
                  s \<leftarrow> w_wsegs w a;
                  seg \<leftarrow> ns_segment s;
                  w \<leftarrow> upd_seg seg (\<lambda>s. s\<lparr>seg_type := NR_SEGMENT_EXTERNAL\<rparr>) w;
                  upd_wseg a (\<lambda>s. s\<lparr>ns_type := External_fields
                    \<lparr>xf_uri = esp_uri params, xf_library = esp_library params, xf_procedure = esp_procedure params\<rparr>\<rparr>) w
                });
            w \<leftarrow> nrt_mutex_unlock (Some h) w;
            Some (segment, w)
          }
      | _ \<Rightarrow> Some (None, w))"

fun external_part :: "segment_fields \<Rightarrow> external_fields option" where
  "external_part (External_fields x) = Some x"
| "external_part No_fields = Some \<lparr>xf_uri = None, xf_library = None, xf_procedure = None\<rparr>"
| "external_part (Datastore_fields _) = None"

definition newrelic_end_external_segment :: "sdk_env \<Rightarrow> nat \<Rightarrow> world \<Rightarrow> (bool \<times> world) option" where
  "newrelic_end_external_segment e a w = do {
     s \<leftarrow> w_wsegs w a;
     seg \<leftarrow> deref (w_segs w) (ns_segment s);
     if seg_type seg = NR_SEGMENT_EXTERNAL
     then do {
       x \<leftarrow> external_part (ns_type s);
       let params = \<lparr>xp_library = xf_library x, xp_procedure = xf_procedure x, xp_uri = xf_uri x\<rparr>;
       (_, w) \<leftarrow> nr_segment_external_end e (ns_segment s) (Some params) w;
       w \<leftarrow> newrelic_destroy_external_segment_fields a w;
       Some (True, w)
     }
     else Some (False, w)
   }"

section \<open>segment.c: ending\<close>

text \<open>The switch on the type of the segment, which \<open>newrelic_end_segment\<close> runs under the transaction's lock.\<close>

definition end_segment_switch :: "sdk_env \<Rightarrow> nat \<Rightarrow> newrelic_segment \<Rightarrow> nat \<Rightarrow> world \<Rightarrow> world option" where
  "end_segment_switch e a segment t w = do {
     seg \<leftarrow> deref (w_segs w) (ns_segment segment);
     case seg_type seg of
       NR_SEGMENT_CUSTOM \<Rightarrow> do {
         (_, w) \<leftarrow> nr_segment_end (ns_segment segment) (env_now e) w;
         x \<leftarrow> w_txns w t;
         seg \<leftarrow> deref (w_segs w) (ns_segment segment);
         (_, w) \<leftarrow> nr_segment_add_metric (ns_segment segment) (nr_string_get (tx_trace_strings x) (seg_name seg)) True w;
         Some w
       }
     | NR_SEGMENT_DATASTORE \<Rightarrow> do { (_, w) \<leftarrow> newrelic_end_datastore_segment e a w; Some w }
     | NR_SEGMENT_EXTERNAL \<Rightarrow> do { (_, w) \<leftarrow> newrelic_end_external_segment e a w; Some w }
   }"

text \<open>The function up to its label \<open>end\<close>: the status and the memory.\<close>

definition end_segment_status :: "sdk_env \<Rightarrow> nat option \<Rightarrow> nat \<Rightarrow> newrelic_segment \<Rightarrow> world \<Rightarrow> (bool \<times> world) option" where
  "end_segment_status e transaction a segment w =
     (case (ns_transaction segment, transaction) of
        (Some t, Some h) \<Rightarrow> do {
          handle \<leftarrow> w_handles w h;
          if nt_txn handle \<noteq> t then Some (False, w)
          else do {
            w \<leftarrow> nrt_mutex_lock (Some h) w;
            w \<leftarrow> end_segment_switch e a segment t w;
            w \<leftarrow> nrt_mutex_unlock (Some h) w;
            Some (True, w)
          }
        }
      | _ \<Rightarrow> Some (False, w))"

definition newrelic_end_segment ::
  "sdk_env \<Rightarrow> nat option \<Rightarrow> nat option option \<Rightarrow> world \<Rightarrow> (bool \<times> nat option option \<times> world) option" where
  "newrelic_end_segment e transaction segment_ptr w =
     (case segment_ptr of
        Some (Some a) \<Rightarrow> do {
          segment \<leftarrow> w_wsegs w a;
          (status, w) \<leftarrow> end_segment_status e transaction a segment w;
          (segment_ptr, w) \<leftarrow> newrelic_segment_destroy segment_ptr w;
          Some (status, segment_ptr, w)
        }
      | p \<Rightarrow> Some (False, p, w))"

end
