(* ===== verification/Api_Transaction.thy ===== *)
theory Api_Transaction
  imports Api_Segment
begin

text \<open>
  transaction.c, error.c, attribute.c, custom_event.c, custom_metric.c, distributed_trace.c and stack.c: the
  transactions of the API and what a program records on them.
\<close>

section \<open>stack.c\<close>

definition NUM_BACKTRACE_FRAMES :: nat where "NUM_BACKTRACE_FRAMES = 100"

text \<open>\<open>env_backtrace\<close> lists the frames of the caller, \<open>None\<close> on a platform without \<open>backtrace\<close>.\<close>

definition newrelic_get_stack_trace_as_json :: "sdk_env \<Rightarrow> string" where
  "newrelic_get_stack_trace_as_json e =
     (case env_backtrace e of
        Some lines \<Rightarrow>
          (case fold (\<lambda>line arr. snd (nro_set_array_string arr 0 (Some line))) (take NUM_BACKTRACE_FRAMES lines) (Some nro_new_array) of
             Some arr \<Rightarrow> env_to_json e arr
           | None \<Rightarrow> env_to_json e nro_new_array)
      | None \<Rightarrow> ''['' @ [CHR 0x22] @ ''No backtrace on this platform.'' @ [CHR 0x22] @ '']'')"

section \<open>transaction.c\<close>

text \<open>
  \<open>nr_app_consider_appinfo\<close> asks the daemon when a query is due; \<open>answer\<close> is the state that the answer
  leaves the application in.
\<close>

definition nr_app_consider_appinfo :: "nr_app_state option \<Rightarrow> nat option \<Rightarrow> agent \<Rightarrow> agent" where
  "nr_app_consider_appinfo answer app g =
     (case (app, answer, g_applist g) of
        (Some i, Some st, Some apps) \<Rightarrow> g\<lparr>g_applist := Some (apps[i := (apps ! i)\<lparr>ap_state := st\<rparr>])\<rparr>
      | _ \<Rightarrow> g)"

definition app_at :: "nat option \<Rightarrow> agent \<Rightarrow> nrapp option" where
  "app_at app g =
     (case (app, g_applist g) of (Some i, Some apps) \<Rightarrow> if i < length apps then Some (apps ! i) else None | _ \<Rightarrow> None)"

definition newrelic_start_transaction ::
  "sdk_env \<Rightarrow> app_reply \<Rightarrow> nr_app_state option \<Rightarrow> newrelic_app option \<Rightarrow> string option \<Rightarrow> bool \<Rightarrow> agent \<times> world \<Rightarrow>
    (nat option \<times> agent \<times> world) option" where
  "newrelic_start_transaction e reply answer app name is_web_transaction gw =
     (case (app, gw) of
        (None, (g, w)) \<Rightarrow> Some (None, g, w)
      | (Some app, (g, w)) \<Rightarrow> do {
          let g = nr_app_consider_appinfo answer (na_app app) g;
          if \<not> env_mutex_init_ok e then Some (None, g, w)
          else if \<not> na_lock_ready app then None
          else do {
            let options = newrelic_get_transaction_options (na_config app);
            (txn, w) \<leftarrow> nr_txn_begin e (app_at (na_app app) g) reply (Some options) None w;
            case txn of None \<Rightarrow> Some (None, g, w)
            | Some t \<Rightarrow> do {
                let h = w_next w;
                let w = w\<lparr>w_next := Suc h, w_handles := (w_handles w)(h \<mapsto> \<lparr>nt_txn = t, nt_locked = False\<rparr>)\<rparr>;
                let name = (if name = None then Some ''NULL'' else name);
                (_, w) \<leftarrow> nr_txn_set_path (Some t) name NR_PATH_TYPE_ACTION NR_OK_TO_OVERWRITE w;
                w \<leftarrow> (if is_web_transaction then nr_txn_set_as_web_transaction (Some t) w
                      else nr_txn_set_as_background_job (Some t) w);
                Some (Some h, g, w)
              }
          }
        })"

definition newrelic_start_web_transaction ::
  "sdk_env \<Rightarrow> app_reply \<Rightarrow> nr_app_state option \<Rightarrow> newrelic_app option \<Rightarrow> string option \<Rightarrow> agent \<times> world \<Rightarrow>
    (nat option \<times> agent \<times> world) option" where
  "newrelic_start_web_transaction e reply answer app name gw = newrelic_start_transaction e reply answer app name True gw"

definition newrelic_start_non_web_transaction ::
  "sdk_env \<Rightarrow> app_reply \<Rightarrow> nr_app_state option \<Rightarrow> newrelic_app option \<Rightarrow> string option \<Rightarrow> agent \<times> world \<Rightarrow>
    (nat option \<times> agent \<times> world) option" where
  "newrelic_start_non_web_transaction e reply answer app name gw = newrelic_start_transaction e reply answer app name False gw"

definition newrelic_set_transaction_timing ::
  "nat option \<Rightarrow> newrelic_time_us_t \<Rightarrow> newrelic_time_us_t \<Rightarrow> world \<Rightarrow> (bool \<times> world) option" where
  "newrelic_set_transaction_timing transaction start_time duration w =
     (case transaction of None \<Rightarrow> Some (False, w)
      | Some h \<Rightarrow> do {
          handle \<leftarrow> w_handles w h;
          w \<leftarrow> nrt_mutex_lock (Some h) w;
          w \<leftarrow> newrelic_add_api_supportability_metric (Some (nt_txn handle)) (Some ''set_transaction_timing'') w;
          (ret, w) \<leftarrow> nr_txn_set_timing (Some (nt_txn handle)) start_time duration w;
          w \<leftarrow> nrt_mutex_unlock (Some h) w;
          Some (ret, w)
        })"

definition newrelic_end_transaction ::
  "sdk_env \<Rightarrow> nat option option \<Rightarrow> world \<Rightarrow> (bool \<times> nat option option \<times> world) option" where
  "newrelic_end_transaction e transaction_ptr w =
     (case transaction_ptr of
        Some (Some h) \<Rightarrow> do {
          handle \<leftarrow> w_handles w h;
          w \<leftarrow> nrt_mutex_lock (Some h) w;
          let t = nt_txn handle;
          w \<leftarrow> nr_txn_force_single_count (Some t) (Some (''Supportability/C/NewrelicVersion/'' @ env_version e)) w;
          w \<leftarrow> nr_txn_end e (Some t) w;
          x \<leftarrow> w_txns w t;
          let (ret, w) = (if st_ignore (tx_status x) then (True, w)
                          else if env_daemon_accepts e x then (True, w\<lparr>w_sent := w_sent w @ [x]\<rparr>)
                          else (False, w));
          let w = nr_txn_destroy t w;
          w \<leftarrow> nrt_mutex_unlock (Some h) w;
          Some (ret, Some None, w\<lparr>w_handles := (w_handles w)(h := None)\<rparr>)
        }
      | p \<Rightarrow> Some (False, p, w))"

definition newrelic_ignore_transaction :: "nat option \<Rightarrow> world \<Rightarrow> (bool \<times> world) option" where
  "newrelic_ignore_transaction transaction w =
     (case transaction of None \<Rightarrow> Some (False, w)
      | Some h \<Rightarrow> do { handle \<leftarrow> w_handles w h; nr_txn_ignore (Some (nt_txn handle)) w })"

definition newrelic_set_transaction_name :: "nat option \<Rightarrow> string option \<Rightarrow> world \<Rightarrow> (bool \<times> world) option" where
  "newrelic_set_transaction_name transaction name w =
     (case transaction of None \<Rightarrow> Some (False, w)
      | Some h \<Rightarrow>
          if name = None then Some (False, w)
          else do {
            handle \<leftarrow> w_handles w h;
            (ret, w) \<leftarrow> nr_txn_set_path (Some (nt_txn handle)) name NR_PATH_TYPE_CUSTOM NR_OK_TO_OVERWRITE w;
            Some (ret = NR_SUCCESS, w)
          })"

section \<open>error.c\<close>

text \<open>The transaction of a handle, while its lock is held.\<close>

definition on_locked_txn :: "nat \<Rightarrow> (nrtxn \<Rightarrow> ('a \<times> nrtxn) option) \<Rightarrow> world \<Rightarrow> ('a \<times> world) option" where
  "on_locked_txn h f w = do {
     handle \<leftarrow> w_handles w h;
     w \<leftarrow> nrt_mutex_lock (Some h) w;
     x \<leftarrow> w_txns w (nt_txn handle);
     (ret, x) \<leftarrow> f x;
     w \<leftarrow> upd_txn (nt_txn handle) (\<lambda>_. x) w;
     w \<leftarrow> nrt_mutex_unlock (Some h) w;
     Some (ret, w)
   }"

definition notice_error_locked :: "sdk_env \<Rightarrow> int \<Rightarrow> string option \<Rightarrow> string option \<Rightarrow> nrtxn \<Rightarrow> nrtxn" where
  "notice_error_locked e priority errmsg errclass x =
     (if \<not> opt_err_enabled (tx_options x) then x
      else if \<not> st_recording (tx_status x) then x
      else if tx_error x \<noteq> None \<and> priority < nr_error_priority (tx_error x) then x
      else if nr_txn_record_error_worthy x priority = NR_FAILURE then x
      else nr_txn_record_error (env_now e) x priority errmsg errclass (Some (newrelic_get_stack_trace_as_json e)))"

definition newrelic_notice_error :: "sdk_env \<Rightarrow> nat option \<Rightarrow> int \<Rightarrow> string option \<Rightarrow> string option \<Rightarrow> world \<Rightarrow> world option" where
  "newrelic_notice_error e transaction priority errmsg errclass w =
     (case transaction of None \<Rightarrow> Some w
      | Some h \<Rightarrow>
          if errmsg = None \<or> errmsg = Some [] then Some w
          else if errclass = None \<or> errclass = Some [] then Some w
          else map_option snd (on_locked_txn h (\<lambda>x. Some ((), notice_error_locked e priority errmsg errclass x)) w))"

section \<open>attribute.c\<close>

definition newrelic_add_attribute :: "nat option \<Rightarrow> string option \<Rightarrow> nrobj option \<Rightarrow> world \<Rightarrow> (bool \<times> world) option" where
  "newrelic_add_attribute transaction key obj w =
     (case transaction of None \<Rightarrow> Some (False, w)
      | Some h \<Rightarrow> on_locked_txn h
          (\<lambda>x. if key = None then Some (False, x)
               else if obj = None then Some (False, x)
               else let (ret, x) = nr_txn_add_user_custom_parameter x key obj in Some (ret \<noteq> NR_FAILURE, x)) w)"

definition newrelic_add_attribute_int :: "nat option \<Rightarrow> string option \<Rightarrow> int \<Rightarrow> world \<Rightarrow> (bool \<times> world) option" where
  "newrelic_add_attribute_int transaction key value w = newrelic_add_attribute transaction key (Some (nro_new_int value)) w"

definition newrelic_add_attribute_long :: "nat option \<Rightarrow> string option \<Rightarrow> int \<Rightarrow> world \<Rightarrow> (bool \<times> world) option" where
  "newrelic_add_attribute_long transaction key value w = newrelic_add_attribute transaction key (Some (nro_new_long value)) w"

definition newrelic_add_attribute_double :: "nat option \<Rightarrow> string option \<Rightarrow> c_double \<Rightarrow> world \<Rightarrow> (bool \<times> world) option" where
  "newrelic_add_attribute_double transaction key value w = newrelic_add_attribute transaction key (Some (nro_new_double value)) w"

definition newrelic_add_attribute_string :: "nat option \<Rightarrow> string option \<Rightarrow> string option \<Rightarrow> world \<Rightarrow> (bool \<times> world) option" where
  "newrelic_add_attribute_string transaction key value w =
     (if value = None then Some (False, w)
      else newrelic_add_attribute transaction key (Some (nro_new_string value)) w)"

section \<open>custom_event.c\<close>

record newrelic_custom_event =
  ce_type :: string
  ce_attributes :: "nrobj option"

definition newrelic_create_custom_event :: "string option \<Rightarrow> newrelic_custom_event option" where
  "newrelic_create_custom_event event_type =
     (case event_type of None \<Rightarrow> None | Some t \<Rightarrow> Some \<lparr>ce_type = t, ce_attributes = Some nro_new_hash\<rparr>)"

text \<open>The pointer afterwards: the event it pointed to is freed.\<close>

definition newrelic_discard_custom_event :: "newrelic_custom_event option option \<Rightarrow> newrelic_custom_event option option" where
  "newrelic_discard_custom_event event = (case event of Some (Some _) \<Rightarrow> Some None | p \<Rightarrow> p)"

definition newrelic_record_custom_event ::
  "sdk_env \<Rightarrow> nat option \<Rightarrow> newrelic_custom_event option option \<Rightarrow> world \<Rightarrow>
    (newrelic_custom_event option option \<times> world) option" where
  "newrelic_record_custom_event e transaction event w =
     (case (transaction, event) of
        (Some h, Some (Some ev)) \<Rightarrow> do {
          (_, w) \<leftarrow> on_locked_txn h (\<lambda>x. Some ((), nr_txn_record_custom_event e x (Some (ce_type ev)) (ce_attributes ev))) w;
          Some (newrelic_discard_custom_event event, w)
        }
      | _ \<Rightarrow> Some (event, w))"

text \<open>The result of a setter of util_object.c, as a change of the event.\<close>

definition event_set ::
  "(nrobj option \<Rightarrow> nr_status_t \<times> nrobj option) \<Rightarrow> newrelic_custom_event option \<Rightarrow> bool \<times> newrelic_custom_event option" where
  "event_set f event =
     (case event of None \<Rightarrow> (False, None)
      | Some ev \<Rightarrow> let (ret, atts) = f (ce_attributes ev) in (ret = NR_SUCCESS, Some (ev\<lparr>ce_attributes := atts\<rparr>)))"

definition newrelic_custom_event_add_attribute_int ::
  "newrelic_custom_event option \<Rightarrow> string option \<Rightarrow> int \<Rightarrow> bool \<times> newrelic_custom_event option" where
  "newrelic_custom_event_add_attribute_int event key value = event_set (\<lambda>obj. nro_set_hash_int obj key value) event"

definition newrelic_custom_event_add_attribute_long ::
  "newrelic_custom_event option \<Rightarrow> string option \<Rightarrow> int \<Rightarrow> bool \<times> newrelic_custom_event option" where
  "newrelic_custom_event_add_attribute_long event key value = event_set (\<lambda>obj. nro_set_hash_long obj key value) event"

definition newrelic_custom_event_add_attribute_double ::
  "newrelic_custom_event option \<Rightarrow> string option \<Rightarrow> c_double \<Rightarrow> bool \<times> newrelic_custom_event option" where
  "newrelic_custom_event_add_attribute_double event key value = event_set (\<lambda>obj. nro_set_hash_double obj key value) event"

definition newrelic_custom_event_add_attribute_string ::
  "newrelic_custom_event option \<Rightarrow> string option \<Rightarrow> string option \<Rightarrow> bool \<times> newrelic_custom_event option" where
  "newrelic_custom_event_add_attribute_string event key value = event_set (\<lambda>obj. nro_set_hash_string obj key value) event"

section \<open>custom_metric.c\<close>

definition newrelic_record_custom_metric :: "nat option \<Rightarrow> string option \<Rightarrow> c_double \<Rightarrow> world \<Rightarrow> (bool \<times> world) option" where
  "newrelic_record_custom_metric transaction name milliseconds w =
     (case transaction of None \<Rightarrow> Some (False, w)
      | Some h \<Rightarrow>
          if name = None then Some (False, w)
          else do {
            (ret, w) \<leftarrow> on_locked_txn h (\<lambda>x. nr_txn_add_custom_metric x name milliseconds) w;
            Some (ret = NR_SUCCESS, w)
          })"

section \<open>distributed_trace.c\<close>

definition newrelic_create_distributed_trace_payload ::
  "sdk_env \<Rightarrow> nat option \<Rightarrow> nat option \<Rightarrow> world \<Rightarrow> (string option \<times> world) option" where
  "newrelic_create_distributed_trace_payload e transaction segment w =
     (case transaction of None \<Rightarrow> Some (None, w)
      | Some h \<Rightarrow> do {
          handle \<leftarrow> w_handles w h;
          w \<leftarrow> nrt_mutex_lock (Some h) w;
          s \<leftarrow> (case segment of
            None \<Rightarrow> do { x \<leftarrow> w_txns w (nt_txn handle); Some (tx_segment_root x) }
          | Some a \<Rightarrow> do { s \<leftarrow> w_wsegs w a; Some (ns_segment s) });
          (payload, w) \<leftarrow> nr_txn_create_distributed_trace_payload e (Some (nt_txn handle)) s w;
          w \<leftarrow> nrt_mutex_unlock (Some h) w;
          Some (payload, w)
        })"

definition newrelic_create_distributed_trace_payload_httpsafe ::
  "sdk_env \<Rightarrow> nat option \<Rightarrow> nat option \<Rightarrow> world \<Rightarrow> (string option \<times> world) option" where
  "newrelic_create_distributed_trace_payload_httpsafe e transaction segment w = do {
     (payload, w) \<leftarrow> newrelic_create_distributed_trace_payload e transaction segment w;
     Some (if payload = None then None else nr_b64_encode payload (int (nr_strlen payload)), w)
   }"

definition newrelic_accept_distributed_trace_payload ::
  "sdk_env \<Rightarrow> nat option \<Rightarrow> string option \<Rightarrow> string option \<Rightarrow> world \<Rightarrow> (bool \<times> world) option" where
  "newrelic_accept_distributed_trace_payload e transaction payload transport_type w =
     (case transaction of None \<Rightarrow> Some (False, w)
      | Some h \<Rightarrow> do {
          handle \<leftarrow> w_handles w h;
          w \<leftarrow> nrt_mutex_lock (Some h) w;
          (ret, w) \<leftarrow> nr_txn_accept_distributed_trace_payload e (Some (nt_txn handle)) payload transport_type w;
          w \<leftarrow> nrt_mutex_unlock (Some h) w;
          Some (ret, w)
        })"

definition newrelic_accept_distributed_trace_payload_httpsafe ::
  "sdk_env \<Rightarrow> nat option \<Rightarrow> string option \<Rightarrow> string option \<Rightarrow> world \<Rightarrow> (bool \<times> world) option" where
  "newrelic_accept_distributed_trace_payload_httpsafe e transaction payload transport_type w =
     (case transaction of None \<Rightarrow> Some (False, w)
      | Some h \<Rightarrow> do {
          handle \<leftarrow> w_handles w h;
          w \<leftarrow> nrt_mutex_lock (Some h) w;
          (ret, w) \<leftarrow> nr_txn_accept_distributed_trace_payload_httpsafe e (Some (nt_txn handle)) payload transport_type w;
          w \<leftarrow> nrt_mutex_unlock (Some h) w;
          Some (ret, w)
        })"

end
