(* ===== verification/Segment_Tree.thy ===== *)
theory Segment_Tree
  imports Segment
begin

text \<open>
  The segments of a process form trees: every segment belongs to a live transaction, parents and lists of
  children agree, no segment is its own ancestor, and the segments that a transaction keeps on its stacks
  are its own.  \<open>nr_segment_start\<close>, \<open>nr_segment_set_parent\<close> and \<open>nr_segment_end\<close> keep this, and the walk of
  \<open>nr_segment_set_parent\<close> to the root ends.
\<close>

section \<open>Invariant\<close>

definition parent_of :: "world \<Rightarrow> nat \<Rightarrow> nat option" where
  "parent_of w s = (case w_segs w s of None \<Rightarrow> None | Some seg \<Rightarrow> seg_parent seg)"

definition up :: "world \<Rightarrow> (nat \<times> nat) set" where
  "up w = {(s, p). parent_of w s = Some p}"

definition seg_of :: "world \<Rightarrow> nat \<Rightarrow> nat \<Rightarrow> bool" where
  "seg_of w t s \<longleftrightarrow> (\<exists>seg. w_segs w s = Some seg \<and> seg_txn seg = Some t)"

definition seg_ok :: "world \<Rightarrow> nat \<Rightarrow> nr_segment \<Rightarrow> bool" where
  "seg_ok w s seg \<longleftrightarrow>
     s < w_next w \<and> (\<exists>t. seg_txn seg = Some t \<and> w_txns w t \<noteq> None) \<and> distinct (seg_children seg) \<and>
     (\<forall>c \<in> set (seg_children seg). parent_of w c = Some s) \<and>
     (\<forall>p. seg_parent seg = Some p \<longrightarrow> (\<exists>ps. w_segs w p = Some ps \<and> s \<in> set (seg_children ps) \<and> seg_txn ps = seg_txn seg))"

definition txn_ok :: "world \<Rightarrow> nat \<Rightarrow> nrtxn \<Rightarrow> bool" where
  "txn_ok w t x \<longleftrightarrow>
     t < w_next w \<and> (\<forall>s \<in> set (tx_default_parent_stack x). seg_of w t s) \<and>
     (\<forall>ctx xs. tx_parent_stacks x ctx = Some xs \<longrightarrow> (\<forall>s \<in> set xs. seg_of w t s)) \<and>
     (\<forall>r. tx_segment_root x = Some r \<longrightarrow> seg_of w t r)"

definition segments_ok :: "world \<Rightarrow> bool" where
  "segments_ok w \<longleftrightarrow>
     (\<forall>s seg. w_segs w s = Some seg \<longrightarrow> seg_ok w s seg) \<and> acyclic (up w) \<and>
     (\<forall>t x. w_txns w t = Some x \<longrightarrow> txn_ok w t x)"

lemma segments_okD:
  assumes "segments_ok w"
  shows "w_segs w s = Some seg \<Longrightarrow> seg_ok w s seg" "acyclic (up w)" "w_txns w t = Some x \<Longrightarrow> txn_ok w t x"
  using assms unfolding segments_ok_def by blast+

lemma up_live: "(s, p) \<in> up w \<Longrightarrow> segments_ok w \<Longrightarrow> w_segs w s \<noteq> None \<and> w_segs w p \<noteq> None"
  unfolding up_def parent_of_def segments_ok_def seg_ok_def by (fastforce split: option.splits)

section \<open>Changes that keep the shape\<close>

definition seg_shape :: "nr_segment \<Rightarrow> nat option \<times> nat option \<times> nat list" where
  "seg_shape seg = (seg_txn seg, seg_parent seg, seg_children seg)"

definition txn_shape :: "nrtxn \<Rightarrow> nat list \<times> (nat \<Rightarrow> nat list option) \<times> nat option" where
  "txn_shape x = (tx_default_parent_stack x, tx_parent_stacks x, tx_segment_root x)"

definition same_shape :: "world \<Rightarrow> world \<Rightarrow> bool" where
  "same_shape w w' \<longleftrightarrow>
     w_next w' = w_next w \<and> (\<forall>s. map_option seg_shape (w_segs w' s) = map_option seg_shape (w_segs w s)) \<and>
     (\<forall>t. map_option txn_shape (w_txns w' t) = map_option txn_shape (w_txns w t))"

lemma same_shape_refl [simp]: "same_shape w w" by (simp add: same_shape_def)

lemma same_shape_trans: "same_shape w w' \<Longrightarrow> same_shape w' w'' \<Longrightarrow> same_shape w w''"
  by (simp add: same_shape_def)

lemma same_shape_sym: "same_shape w w' \<Longrightarrow> same_shape w' w" by (simp add: same_shape_def)

lemma same_shape_seg:
  "same_shape w w' \<Longrightarrow> w_segs w' s = Some seg' \<Longrightarrow> \<exists>seg. w_segs w s = Some seg \<and> seg_shape seg = seg_shape seg'"
  unfolding same_shape_def by (metis map_option_eq_Some)

lemma same_shape_txn:
  "same_shape w w' \<Longrightarrow> w_txns w' t = Some x' \<Longrightarrow> \<exists>x. w_txns w t = Some x \<and> txn_shape x = txn_shape x'"
  unfolding same_shape_def by (metis map_option_eq_Some)

lemma parent_of_shape: "same_shape w w' \<Longrightarrow> parent_of w' s = parent_of w s"
  using same_shape_seg [of w w' s] same_shape_seg [of w' w s] same_shape_sym [of w w']
  by (cases "w_segs w s"; cases "w_segs w' s") (fastforce simp: parent_of_def seg_shape_def)+

lemma seg_of_shape: "same_shape w w' \<Longrightarrow> seg_of w' t s = seg_of w t s"
  using same_shape_seg [of w w' s] same_shape_seg [of w' w s] same_shape_sym [of w w']
  by (fastforce simp: seg_of_def seg_shape_def)

lemma segments_ok_shape:
  assumes "same_shape w w'" "segments_ok w"
  shows "segments_ok w'"
proof -
  note sh = assms(1) and seg = same_shape_seg [OF assms(1)] and txn = same_shape_txn [OF assms(1)]
    and sback = same_shape_seg [OF same_shape_sym [OF assms(1)]] and tback = same_shape_txn [OF same_shape_sym [OF assms(1)]]
  have next_eq: "w_next w' = w_next w" using sh by (simp add: same_shape_def)
  have "seg_ok w' s sg" if "w_segs w' s = Some sg" for s sg
  proof -
    obtain sg0 where s0: "w_segs w s = Some sg0" "seg_shape sg0 = seg_shape sg" using seg [OF \<open>w_segs w' s = Some sg\<close>] by blast
    then have eq: "seg_txn sg0 = seg_txn sg" "seg_parent sg0 = seg_parent sg" "seg_children sg0 = seg_children sg"
      by (simp_all add: seg_shape_def)
    have ok: "seg_ok w s sg0" using s0(1) assms(2) by (simp add: segments_ok_def)
    show ?thesis unfolding seg_ok_def
    proof (intro conjI allI impI)
      show "s < w_next w'" using ok next_eq by (simp add: seg_ok_def)
      show "\<exists>t. seg_txn sg = Some t \<and> w_txns w' t \<noteq> None"
        using ok eq(1) tback by (fastforce simp: seg_ok_def)
      show "distinct (seg_children sg)" "\<forall>c \<in> set (seg_children sg). parent_of w' c = Some s"
        using ok eq(3) parent_of_shape [OF sh] by (simp_all add: seg_ok_def)
    next
      fix p assume "seg_parent sg = Some p"
      then obtain ps where "w_segs w p = Some ps" "s \<in> set (seg_children ps)" "seg_txn ps = seg_txn sg0"
        using ok eq(2) by (auto simp: seg_ok_def)
      then show "\<exists>ps. w_segs w' p = Some ps \<and> s \<in> set (seg_children ps) \<and> seg_txn ps = seg_txn sg"
        using sback [of p ps] eq(1) by (fastforce simp: seg_shape_def)
    qed
  qed
  moreover have "up w' = up w" by (simp add: up_def parent_of_shape [OF sh])
  moreover have "txn_ok w' t x" if "w_txns w' t = Some x" for t x
    using txn [OF that] assms(2) next_eq seg_of_shape [OF sh] unfolding segments_ok_def txn_ok_def txn_shape_def
    by fastforce
  ultimately show ?thesis using assms(2) by (simp add: segments_ok_def)
qed

lemma same_shape_upd_seg:
  "upd_seg s f w = Some w' \<Longrightarrow> (\<And>seg. seg_shape (f seg) = seg_shape seg) \<Longrightarrow> same_shape w w'"
  by (auto simp: upd_seg_def same_shape_def)

lemma same_shape_upd_txn:
  "upd_txn t f w = Some w' \<Longrightarrow> (\<And>x. w_txns w t = Some x \<Longrightarrow> txn_shape (f x) = txn_shape x) \<Longrightarrow> same_shape w w'"
  by (auto simp: upd_txn_def same_shape_def)

section \<open>The walk to the root ends\<close>

lemma finite_ancestors:
  assumes "segments_ok w"
  shows "(up w)\<^sup>+ `` {a} \<subseteq> {..< w_next w}"
proof
  fix b assume "b \<in> (up w)\<^sup>+ `` {a}"
  then obtain c where "(c, b) \<in> up w" by (metis Image_singleton_iff tranclD2)
  then have "w_segs w b \<noteq> None" using up_live [OF _ assms] by blast
  then show "b \<in> {..< w_next w}" using assms by (auto simp: segments_ok_def seg_ok_def)
qed

lemma is_ancestor_ok:
  assumes ok: "segments_ok w"
  shows "w_segs w a \<noteq> None \<Longrightarrow> card ((up w)\<^sup>+ `` {a}) < fuel \<Longrightarrow>
    is_ancestor fuel s (Some a) w = Some ((a, s) \<in> (up w)\<^sup>*)"
proof (induction fuel arbitrary: a)
  case (Suc fuel)
  then obtain seg where seg: "w_segs w a = Some seg" by blast
  show ?case
  proof (cases "a = s \<or> seg_parent seg = None")
    case True
    have "(a, s) \<notin> (up w)\<^sup>*" if none: "seg_parent seg = None" and ne: "a \<noteq> s"
    proof
      assume "(a, s) \<in> (up w)\<^sup>*"
      then obtain b where "(a, b) \<in> up w" using ne by (meson converse_rtranclE)
      then show False using seg none by (simp add: up_def parent_of_def)
    qed
    with True seg show ?thesis by (cases "a = s") (auto simp: is_ancestor.simps [of _ s _ w])
  next
    case False
    then obtain p where p: "seg_parent seg = Some p" by blast
    have e: "(a, p) \<in> up w" using seg p by (simp add: up_def parent_of_def)
    have "p \<notin> (up w)\<^sup>+ `` {p}" using segments_okD(2) [OF ok] by (auto simp: acyclic_def)
    moreover have "p \<in> (up w)\<^sup>+ `` {a}" using e by auto
    moreover have "(up w)\<^sup>+ `` {p} \<subseteq> (up w)\<^sup>+ `` {a}" using e by (auto intro: trancl_into_trancl2)
    ultimately have "(up w)\<^sup>+ `` {p} \<subset> (up w)\<^sup>+ `` {a}" by blast
    then have "card ((up w)\<^sup>+ `` {p}) < card ((up w)\<^sup>+ `` {a})"
      using finite_ancestors [OF ok, of a] by (meson finite_lessThan finite_subset psubset_card_mono)
    then have "is_ancestor fuel s (Some p) w = Some ((p, s) \<in> (up w)\<^sup>*)"
      using Suc.IH [of p] Suc.prems(2) up_live [OF e ok] by simp
    moreover have "(a, s) \<in> (up w)\<^sup>* \<longleftrightarrow> (p, s) \<in> (up w)\<^sup>*" if ne: "a \<noteq> s"
    proof
      assume "(a, s) \<in> (up w)\<^sup>*"
      then obtain b where b: "(a, b) \<in> up w" "(b, s) \<in> (up w)\<^sup>*" using ne by (meson converse_rtranclE)
      then have "b = p" using seg p by (simp add: up_def parent_of_def)
      with b show "(p, s) \<in> (up w)\<^sup>*" by simp
    qed (use e in \<open>auto intro: converse_rtrancl_into_rtrancl\<close>)
    ultimately show ?thesis using False seg p by (simp add: is_ancestor.simps [of "Suc fuel"])
  qed
qed simp

lemma is_ancestor_next:
  assumes ok: "segments_ok w" and a: "w_segs w a \<noteq> None"
  shows "is_ancestor (w_next w) s (Some a) w = Some ((a, s) \<in> (up w)\<^sup>*)"
proof -
  have "a \<notin> (up w)\<^sup>+ `` {a}" using segments_okD(2) [OF ok] by (auto simp: acyclic_def)
  moreover have "a < w_next w" using ok a by (auto simp: segments_ok_def seg_ok_def)
  ultimately have "(up w)\<^sup>+ `` {a} \<subset> {..< w_next w}" using finite_ancestors [OF ok, of a] by blast
  then have "card ((up w)\<^sup>+ `` {a}) < card {..< w_next w}" by (meson finite_lessThan psubset_card_mono)
  then show ?thesis using is_ancestor_ok [OF ok a] by simp
qed

section \<open>Starting a segment\<close>

text \<open>The segments after a leaf was added below \<open>cur\<close>.\<close>

definition add_leaf :: "nat \<Rightarrow> nat option \<Rightarrow> nr_segment \<Rightarrow> (nat \<Rightarrow> nr_segment option) \<Rightarrow> nat \<Rightarrow> nr_segment option" where
  "add_leaf s cur new m a =
     (if a = s then Some new
      else if cur = Some a then map_option (\<lambda>q. q\<lparr>seg_children := seg_children q @ [s]\<rparr>) (m a) else m a)"

lemma add_leaf_top: "add_leaf s None new m = m(s \<mapsto> new)"
  by (auto simp: add_leaf_def)

lemma add_leaf_below:
  "m p = Some q \<Longrightarrow> p \<noteq> s \<Longrightarrow>
    add_leaf s (Some p) new m = m(s \<mapsto> new, p \<mapsto> q\<lparr>seg_children := seg_children q @ [s]\<rparr>)"
  by (auto simp: add_leaf_def fun_eq_iff)

lemma fresh: "segments_ok w \<Longrightarrow> w_segs w (w_next w) = None" "segments_ok w \<Longrightarrow> w_txns w (w_next w) = None"
  unfolding segments_ok_def seg_ok_def txn_ok_def by (metis less_irrefl not_None_eq)+

lemma segments_ok_add_leaf:
  assumes ok: "segments_ok w" and x: "w_txns w t = Some x" and cur: "\<And>p. cur = Some p \<Longrightarrow> seg_of w t p"
    and new: "seg_txn new = Some t" "seg_parent new = cur" "seg_children new = []"
    and w': "w_next w' = Suc (w_next w)" "w_segs w' = add_leaf (w_next w) cur new (w_segs w)"
      "w_txns w' = (w_txns w)(t \<mapsto> x\<lparr>tx_default_parent_stack := tx_default_parent_stack x @ [w_next w]\<rparr>)"
  shows "segments_ok w'"
proof -
  let ?s = "w_next w"
  note fr = fresh(1) [OF ok]
  have parent: "parent_of w' a = (if a = ?s then cur else parent_of w a)" for a
    using new by (cases "w_segs w a") (auto simp: parent_of_def w'(2) add_leaf_def)
  have top: "parent_of w ?s = None" using fr by (simp add: parent_of_def)
  have not_s: "parent_of w a \<noteq> Some ?s" for a
    using up_live [of a ?s w] ok fr by (auto simp: up_def)
  have live: "seg_of w' t' a" if "seg_of w t' a" for t' a
    using that fr by (cases "a = ?s") (auto simp: seg_of_def w'(2) add_leaf_def)
  have "seg_ok w' a seg" if seg: "w_segs w' a = Some seg" for a seg
  proof (cases "a = ?s")
    case True
    then have [simp]: "seg = new" using seg by (simp add: w'(2) add_leaf_def)
    have "\<exists>ps. w_segs w' p = Some ps \<and> ?s \<in> set (seg_children ps) \<and> seg_txn ps = seg_txn new" if p: "cur = Some p" for p
    proof -
      obtain ps where ps: "w_segs w p = Some ps" "seg_txn ps = Some t" using cur [OF p] by (auto simp: seg_of_def)
      have "p \<noteq> ?s" using ps(1) fr by auto
      then show ?thesis using ps p new(1) by (simp add: w'(2) add_leaf_def)
    qed
    then show ?thesis using True new x by (auto simp: seg_ok_def w'(1,3))
  next
    case False
    then obtain s0 where s0: "w_segs w a = Some s0" and
      eq: "seg_txn seg = seg_txn s0" "seg_parent seg = seg_parent s0"
        "seg_children seg = seg_children s0 @ (if cur = Some a then [?s] else [])"
      using seg by (auto simp: w'(2) add_leaf_def split: if_splits)
    have k: "seg_ok w a s0" using s0 ok by (simp add: segments_ok_def)
    have "?s \<notin> set (seg_children s0)" using k fr by (auto simp: seg_ok_def parent_of_def)
    then have "distinct (seg_children seg)" "\<forall>c \<in> set (seg_children seg). parent_of w' c = Some a"
      using k eq(3) parent by (auto simp: seg_ok_def)
    moreover have "\<exists>ps. w_segs w' p = Some ps \<and> a \<in> set (seg_children ps) \<and> seg_txn ps = seg_txn seg"
      if p: "seg_parent seg = Some p" for p
    proof -
      obtain ps where "w_segs w p = Some ps" "a \<in> set (seg_children ps)" "seg_txn ps = seg_txn s0"
        using k p eq(2) by (auto simp: seg_ok_def)
      moreover have "p \<noteq> ?s" using calculation(1) fr by auto
      ultimately show ?thesis using eq(1) by (auto simp: w'(2) add_leaf_def)
    qed
    ultimately show ?thesis using k eq(1) by (auto simp: seg_ok_def w'(1,3))
  qed
  moreover have "acyclic (up w')"
  proof (cases cur)
    case None
    have "up w' = up w" using top None by (auto simp: up_def parent split: if_splits)
    then show ?thesis using segments_okD(2) [OF ok] by simp
  next
    case (Some p)
    have "up w' = insert (?s, p) (up w)" using top Some by (auto simp: up_def parent split: if_splits)
    moreover have "(p, ?s) \<notin> (up w)\<^sup>*"
    proof
      assume "(p, ?s) \<in> (up w)\<^sup>*"
      moreover have "p \<noteq> ?s" using cur [OF Some] fr by (auto simp: seg_of_def)
      ultimately obtain b where "(b, ?s) \<in> up w" by (meson rtranclE)
      then show False using not_s by (simp add: up_def)
    qed
    ultimately show ?thesis using segments_okD(2) [OF ok] by (simp add: acyclic_insert)
  qed
  moreover have "txn_ok w' t' y" if "w_txns w' t' = Some y" for t' y
  proof -
    have "seg_of w' t ?s" using new(1) by (simp add: seg_of_def w'(2) add_leaf_def)
    moreover have "txn_ok w t x" "t' \<noteq> t \<Longrightarrow> txn_ok w t' y" using that x ok by (auto simp: segments_ok_def w'(3))
    ultimately show ?thesis using that live by (cases "t' = t") (auto simp: txn_ok_def w'(1,3))
  qed
  ultimately show ?thesis by (simp add: segments_ok_def)
qed

text \<open>The new segment of a transaction, as the SDK starts it: below the current segment.\<close>

definition new_segment :: "nrtxn \<Rightarrow> nat \<Rightarrow> nrtime_t \<Rightarrow> nr_segment" where
  "new_segment x t now = zero_segment\<lparr>seg_txn := Some t, seg_parent := stack_top (Some (tx_default_parent_stack x)),
     seg_start_time := nr_time_duration (tx_abs_start_time x) now\<rparr>"

lemma nr_segment_start_eq:
  assumes ok: "segments_ok w" and x: "w_txns w t = Some x" and rec: "st_recording (tx_status x)"
  shows "nr_segment_start (Some t) None None now w = Some (Some (w_next w), w\<lparr>w_next := Suc (w_next w),
    w_segs := add_leaf (w_next w) (stack_top (Some (tx_default_parent_stack x))) (new_segment x t now) (w_segs w),
    w_txns := (w_txns w)(t \<mapsto> x\<lparr>tx_default_parent_stack := tx_default_parent_stack x @ [w_next w]\<rparr>)\<rparr>)"
proof (cases "stack_top (Some (tx_default_parent_stack x))")
  case None
  then show ?thesis using x rec
    by (auto simp: nr_segment_start_def nr_segment_init_def upd_seg_def nr_txn_get_current_segment_def push_current_def
        nr_txn_set_current_segment_def upd_txn_def add_leaf_top new_segment_def zero_segment_def nr_txn_start_time_def Let_def)
next
  case (Some p)
  then have "seg_of w t p" using ok x by (auto simp: segments_ok_def txn_ok_def stack_top_def split: if_splits)
  then obtain ps where ps: "w_segs w p = Some ps" by (auto simp: seg_of_def)
  moreover have "p \<noteq> w_next w" using ps fresh(1) [OF ok] by auto
  ultimately show ?thesis using x rec Some
    by (auto simp: nr_segment_start_def nr_segment_init_def upd_seg_def nr_txn_get_current_segment_def push_current_def
        nr_txn_set_current_segment_def upd_txn_def add_leaf_below [of "w_segs w" p ps "w_next w"] new_segment_def zero_segment_def nr_txn_start_time_def
        nr_segment_children_add_def Let_def fun_upd_twist)
qed

lemma stack_top_in: "stack_top (Some xs) = Some p \<Longrightarrow> p \<in> set xs"
  by (auto simp: stack_top_def split: if_splits)

lemma nr_segment_start_ok:
  assumes ok: "segments_ok w" and start: "nr_segment_start txn None None now w = Some (r, w')"
  shows "segments_ok w'"
proof (cases "\<exists>t x. txn = Some t \<and> w_txns w t = Some x \<and> st_recording (tx_status x)")
  case True
  then obtain t x where t: "txn = Some t" "w_txns w t = Some x" "st_recording (tx_status x)" by blast
  have "seg_of w t p" if "stack_top (Some (tx_default_parent_stack x)) = Some p" for p
    using segments_okD(3) [OF ok t(2)] stack_top_in [OF that] by (simp add: txn_ok_def)
  then show ?thesis
    using start unfolding t(1) nr_segment_start_eq [OF ok t(2,3)]
    by (auto intro!: segments_ok_add_leaf [OF ok t(2), of "stack_top (Some (tx_default_parent_stack x))" "new_segment x t now"]
        simp: new_segment_def zero_segment_def)
next
  case False
  then show ?thesis using start ok by (auto simp: nr_segment_start_def split: option.splits Option.bind_splits if_splits)
qed

section \<open>Changing the parent\<close>

text \<open>The segments after \<open>s\<close> was moved from \<open>old\<close> to \<open>p\<close>.\<close>

definition moved :: "nat \<Rightarrow> nat option \<Rightarrow> nat \<Rightarrow> (nat \<Rightarrow> nr_segment option) \<Rightarrow> nat \<Rightarrow> nr_segment option" where
  "moved s old p m a =
     (if a = s then map_option (\<lambda>q. q\<lparr>seg_parent := Some p\<rparr>) (m a)
      else if old = Some a then map_option (\<lambda>q. q\<lparr>seg_children := remove1 s (seg_children q)\<rparr>) (m a)
      else if a = p then map_option (\<lambda>q. q\<lparr>seg_children := seg_children q @ [s]\<rparr>) (m a)
      else m a)"

lemma segments_ok_moved:
  assumes ok: "segments_ok w" and sg: "w_segs w s = Some sg" and ps: "w_segs w p = Some ps" and same: "seg_txn sg = seg_txn ps"
    and other: "seg_parent sg \<noteq> Some p" and no_cycle: "(p, s) \<notin> (up w)\<^sup>*"
  shows "segments_ok (w\<lparr>w_segs := moved s (seg_parent sg) p (w_segs w)\<rparr>)" (is "segments_ok ?w")
proof -
  have sp: "s \<noteq> p" using no_cycle by auto
  have so: "seg_parent sg \<noteq> Some s"
  proof
    assume "seg_parent sg = Some s"
    then have "(s, s) \<in> up w" using sg by (simp add: up_def parent_of_def)
    then show False using segments_okD(2) [OF ok] by (auto simp: acyclic_def)
  qed
  have parent: "parent_of ?w a = (if a = s then Some p else parent_of w a)" for a
    using sg by (cases "w_segs w a") (auto simp: parent_of_def moved_def)
  have txn: "seg_of ?w t a = seg_of w t a" for t a
    by (cases "w_segs w a") (auto simp: seg_of_def moved_def)
  have "seg_ok ?w a seg" if seg: "w_segs ?w a = Some seg" for a seg
  proof -
    from seg obtain s0 where s0: "w_segs w a = Some s0"
      and eq: "seg_txn seg = seg_txn s0" "seg_parent seg = (if a = s then Some p else seg_parent s0)"
        "seg_children seg = (if a = s then seg_children s0 else if seg_parent sg = Some a then remove1 s (seg_children s0)
          else if a = p then seg_children s0 @ [s] else seg_children s0)"
      by (auto simp: moved_def split: if_splits)
    have k: "seg_ok w a s0" using s0 ok by (simp add: segments_ok_def)
    have s_child: "s \<in> set (seg_children s0) \<Longrightarrow> seg_parent sg = Some a"
      using k sg by (auto simp: seg_ok_def parent_of_def)
    have "distinct (seg_children seg)" using k s_child eq(3) other by (auto simp: seg_ok_def)
    moreover have "\<forall>c \<in> set (seg_children seg). parent_of ?w c = Some a"
      using k s_child eq(3) so unfolding parent by (auto simp: seg_ok_def split: if_splits)
    moreover have "\<exists>qs. w_segs ?w q = Some qs \<and> a \<in> set (seg_children qs) \<and> seg_txn qs = seg_txn seg"
      if q: "seg_parent seg = Some q" for q
    proof (cases "a = s")
      case True
      then have "q = p" using q eq(2) by simp
      then show ?thesis using True ps same s0 sg sp eq(1) other by (auto simp: moved_def)
    next
      case False
      then obtain qs where "w_segs w q = Some qs" "a \<in> set (seg_children qs)" "seg_txn qs = seg_txn s0"
        using k q eq(2) by (auto simp: seg_ok_def)
      then show ?thesis using False eq(1) by (auto simp: moved_def)
    qed
    ultimately show ?thesis using k eq(1) by (auto simp: seg_ok_def)
  qed
  moreover have "acyclic (up ?w)"
  proof -
    let ?r = "up w - {e. fst e = s}"
    have "up ?w = insert (s, p) ?r" by (auto simp: up_def parent split: if_splits)
    moreover have "(p, s) \<notin> ?r\<^sup>*" using no_cycle rtrancl_mono [of ?r "up w"] by blast
    moreover have "acyclic ?r" using segments_okD(2) [OF ok] by (meson Diff_subset acyclic_subset)
    ultimately show ?thesis by (simp add: acyclic_insert)
  qed
  moreover have "txn_ok ?w t x" if "w_txns ?w t = Some x" for t x
    using segments_okD(3) [OF ok, of t x] that unfolding txn_ok_def txn by simp
  ultimately show ?thesis by (simp add: segments_ok_def)
qed

lemma nr_segment_set_parent_eq:
  assumes ok: "segments_ok w" and sg: "w_segs w s = Some sg" and ps: "w_segs w p = Some ps"
  shows "nr_segment_set_parent (Some s) (Some p) w =
    (if seg_txn sg \<noteq> seg_txn ps then Some (False, w)
     else if seg_parent sg = Some p then Some (True, w)
     else if (p, s) \<in> (up w)\<^sup>* then Some (False, w)
     else Some (True, w\<lparr>w_segs := moved s (seg_parent sg) p (w_segs w)\<rparr>))"
proof (cases "seg_txn sg = seg_txn ps \<and> seg_parent sg \<noteq> Some p \<and> (p, s) \<notin> (up w)\<^sup>*")
  case True
  then have sp: "s \<noteq> p" by auto
  have anc: "is_ancestor (w_next w) s (Some p) w = Some False" using is_ancestor_next [OF ok, of p s] ps True by simp
  show ?thesis
  proof (cases "seg_parent sg")
    case None
    then show ?thesis using True sg ps sp anc
      by (auto simp: nr_segment_set_parent_def upd_seg_def nr_segment_children_add_def moved_def fun_eq_iff)
  next
    case (Some q)
    then obtain qs where qs: "w_segs w q = Some qs" using segments_okD(1) [OF ok sg] by (auto simp: seg_ok_def)
    have "(s, q) \<in> up w" using sg Some by (simp add: up_def parent_of_def)
    then have "q \<noteq> s" using segments_okD(2) [OF ok] by (auto simp: acyclic_def)
    then show ?thesis using True sg ps sp anc Some qs
      by (auto simp: nr_segment_set_parent_def upd_seg_def nr_segment_children_add_def nr_segment_children_remove_def
          moved_def fun_eq_iff)
  qed
next
  case False
  then show ?thesis using sg ps is_ancestor_next [OF ok, of p s]
    by (auto simp: nr_segment_set_parent_def)
qed

lemma nr_segment_set_parent_ok:
  assumes "segments_ok w" "nr_segment_set_parent seg (Some p) w = Some (r, w')"
  shows "segments_ok w'"
proof (cases "\<exists>s sg ps. seg = Some s \<and> w_segs w s = Some sg \<and> w_segs w p = Some ps")
  case True
  then obtain s sg ps where s: "seg = Some s" "w_segs w s = Some sg" "w_segs w p = Some ps" by blast
  show ?thesis
    using assms(2) segments_ok_moved [OF assms(1) s(2,3)] assms(1)
    unfolding s(1) nr_segment_set_parent_eq [OF assms(1) s(2,3)] by (auto split: if_splits)
next
  case False
  then show ?thesis using assms by (auto simp: nr_segment_set_parent_def split: option.splits Option.bind_splits if_splits)
qed

section \<open>Ending a segment\<close>

lemma segments_ok_stacks:
  assumes ok: "segments_ok w" and x: "w_txns w t = Some x" and "set (tx_default_parent_stack y) \<subseteq> set (tx_default_parent_stack x)"
    and "\<And>c ys. tx_parent_stacks y c = Some ys \<Longrightarrow> \<exists>xs. tx_parent_stacks x c = Some xs \<and> set ys \<subseteq> set xs"
    and "\<And>r. tx_segment_root y = Some r \<Longrightarrow> seg_of w t r"
  shows "segments_ok (w\<lparr>w_txns := (w_txns w)(t \<mapsto> y)\<rparr>)" (is "segments_ok ?w")
proof -
  have same: "parent_of ?w = parent_of w" "seg_of ?w = seg_of w" "up ?w = up w"
    by (simp_all add: parent_of_def seg_of_def up_def fun_eq_iff)
  have "seg_ok ?w s seg" if "w_segs w s = Some seg" for s seg
    using segments_okD(1) [OF ok that] x unfolding seg_ok_def same by auto
  moreover have "txn_ok ?w u z" if "w_txns ?w u = Some z" for u z
    using segments_okD(3) [OF ok, of u] segments_okD(3) [OF ok x] that assms(3-5) unfolding txn_ok_def same
    by (cases "u = t") (simp_all, blast)
  ultimately show ?thesis using ok by (simp add: segments_ok_def same)
qed

lemma set_remove_last_occ: "set (remove_last_occ s xs) \<subseteq> set xs"
  by (induction s xs rule: remove_last_occ.induct) auto

lemma segments_ok_pop:
  assumes "segments_ok w" "upd_txn t (pop_current s c) w = Some w'"
  shows "segments_ok w'"
proof -
  obtain x where x: "w_txns w t = Some x" "w' = w\<lparr>w_txns := (w_txns w)(t \<mapsto> pop_current s c x)\<rparr>"
    using assms(2) by (auto simp: upd_txn_def)
  have "\<exists>xs. tx_parent_stacks x k = Some xs \<and> set ys \<subseteq> set xs" if "tx_parent_stacks (pop_current s c x) k = Some ys" for k ys
    using that set_remove_last_occ [of s] by (auto simp: pop_current_def split: if_splits)
  moreover have "set (tx_default_parent_stack (pop_current s c x)) \<subseteq> set (tx_default_parent_stack x)"
    "tx_segment_root (pop_current s c x) = tx_segment_root x"
    using set_remove_last_occ [of s] by (auto simp: pop_current_def)
  ultimately show ?thesis
    unfolding x(2) using segments_okD(3) [OF assms(1) x(1)]
    by (intro segments_ok_stacks [OF assms(1) x(1)]) (auto simp: txn_ok_def)
qed

lemma nr_segment_end_ok:
  assumes "segments_ok w" "nr_segment_end segment now w = Some (r, w')"
  shows "segments_ok w'"
proof (cases "\<exists>s sg t. segment = Some s \<and> w_segs w s = Some sg \<and> seg_txn sg = Some t")
  case True
  then obtain s sg t where s: "segment = Some s" "w_segs w s = Some sg" "seg_txn sg = Some t" by blast
  from assms(2) s obtain x w1 w2 where
    w1: "(if seg_stop_time sg = 0 then upd_seg s (\<lambda>seg. seg\<lparr>seg_stop_time := nr_time_duration (nr_txn_start_time (Some x)) now\<rparr>) w
      else Some w) = Some w1" and
    w2: "upd_txn t (\<lambda>x. x\<lparr>tx_segment_count := tx_segment_count x + 1\<rparr>) w1 = Some w2" and
    w': "nr_txn_retire_current_segment t s w2 = Some w'"
    by (auto simp: nr_segment_end_def split: Option.bind_splits)
  have "same_shape w w1" using w1 by (auto split: if_splits intro: same_shape_upd_seg simp: seg_shape_def)
  moreover have "same_shape w1 w2" using w2 by (rule same_shape_upd_txn) (simp add: txn_shape_def)
  ultimately have "segments_ok w2" using segments_ok_shape same_shape_trans assms(1) by blast
  then show ?thesis using w' segments_ok_pop by (auto simp: nr_txn_retire_current_segment_def split: Option.bind_splits)
next
  case False
  then show ?thesis using assms by (auto simp: nr_segment_end_def split: option.splits Option.bind_splits)
qed

end
