(* ===== verification/Sdk_Invariant.thy ===== *)
theory Sdk_Invariant
  imports Api_Transaction Segment_Tree
begin

text \<open>
  The invariant of a process that uses the SDK, and what every call keeps of it.

  \<open>sdk_ok\<close> says that the segments form trees, the tables and pools of every transaction are well formed,
  and the handles point to live transactions.  \<open>keep\<close> relates the memory before and after an operation
  that preserves it and leaves the transaction handles with their locks alone; it is a preorder, so the
  operations compose.
\<close>

section \<open>Invariant\<close>

definition txn_data_ok :: "nrtxn \<Rightarrow> bool" where
  "txn_data_ok x \<longleftrightarrow> pool_ok (tx_trace_strings x) \<and> pool_ok (tx_datastore_products x) \<and> table_ok (tx_unscoped_metrics x) \<and>
     attributes_ok (tx_attributes x)"

fun fields_match :: "nr_segment_type_t \<Rightarrow> segment_fields \<Rightarrow> bool" where
  "fields_match NR_SEGMENT_DATASTORE (External_fields _) = False"
| "fields_match NR_SEGMENT_EXTERNAL (Datastore_fields _) = False"
| "fields_match _ _ = True"

text \<open>A segment handle, whose segment lives as long as its transaction.\<close>

definition wseg_ok :: "world \<Rightarrow> nat \<Rightarrow> newrelic_segment \<Rightarrow> bool" where
  "wseg_ok w a n \<longleftrightarrow> a < w_next w \<and>
     (\<exists>s t. ns_segment n = Some s \<and> ns_transaction n = Some t \<and> s < w_next w \<and> t < w_next w \<and>
        (w_txns w t \<noteq> None \<longrightarrow> seg_of w t s) \<and> (w_txns w t = None \<longrightarrow> w_segs w s = None) \<and>
        (\<forall>seg. w_segs w s = Some seg \<longrightarrow> fields_match (seg_type seg) (ns_type n))) \<and>
     (\<forall>h. ns_txn_lock n = Some h \<longrightarrow> h < w_next w \<and> (\<forall>x. w_handles w h = Some x \<longrightarrow> ns_transaction n = Some (nt_txn x)))"

definition handles_ok :: "world \<Rightarrow> bool" where
  "handles_ok w \<longleftrightarrow>
     (\<forall>h x. w_handles w h = Some x \<longrightarrow> h < w_next w \<and> w_txns w (nt_txn x) \<noteq> None) \<and>
     (\<forall>h x h' x'. w_handles w h = Some x \<longrightarrow> w_handles w h' = Some x' \<longrightarrow> nt_txn x = nt_txn x' \<longrightarrow> h = h')"

definition sdk_ok :: "world \<Rightarrow> bool" where
  "sdk_ok w \<longleftrightarrow>
     segments_ok w \<and> (\<forall>t x. w_txns w t = Some x \<longrightarrow> txn_data_ok x) \<and> handles_ok w \<and>
     (\<forall>a n. w_wsegs w a = Some n \<longrightarrow> wseg_ok w a n)"

definition unlocked :: "world \<Rightarrow> bool" where
  "unlocked w \<longleftrightarrow> (\<forall>h x. w_handles w h = Some x \<longrightarrow> \<not> nt_locked x)"

lemma sdk_okD:
  assumes "sdk_ok w"
  shows "segments_ok w" "w_txns w t = Some x \<Longrightarrow> txn_data_ok x" "handles_ok w" "w_wsegs w a = Some n \<Longrightarrow> wseg_ok w a n"
  using assms unfolding sdk_ok_def by blast+

lemma empty_world_ok: "sdk_ok empty_world" "unlocked empty_world"
  by (simp_all add: sdk_ok_def unlocked_def empty_world_def segments_ok_def handles_ok_def up_def parent_of_def acyclic_def)

text \<open>What a segment handle depends on.\<close>

lemma wseg_ok_cong:
  assumes ok: "wseg_ok w a n" and "w_next w \<le> w_next w'"
    and "\<And>t. t < w_next w \<Longrightarrow> (w_txns w' t = None) = (w_txns w t = None)"
    and "\<And>t s. seg_of w t s \<Longrightarrow> seg_of w' t s"
    and "\<And>s seg. s < w_next w \<Longrightarrow> w_segs w' s = Some seg \<Longrightarrow> \<exists>seg0. w_segs w s = Some seg0 \<and> seg_type seg0 = seg_type seg"
    and "\<And>h x. h < w_next w \<Longrightarrow> w_handles w' h = Some x \<Longrightarrow> \<exists>y. w_handles w h = Some y \<and> nt_txn y = nt_txn x"
  shows "wseg_ok w' a n"
proof -
  obtain s t where st: "ns_segment n = Some s" "ns_transaction n = Some t" "s < w_next w" "t < w_next w"
      "w_txns w t \<noteq> None \<longrightarrow> seg_of w t s" "w_txns w t = None \<longrightarrow> w_segs w s = None"
      "\<forall>seg. w_segs w s = Some seg \<longrightarrow> fields_match (seg_type seg) (ns_type n)"
    using ok unfolding wseg_ok_def by (elim conjE exE)
  have lk: "a < w_next w" "\<forall>h. ns_txn_lock n = Some h \<longrightarrow> h < w_next w \<and>
      (\<forall>x. w_handles w h = Some x \<longrightarrow> ns_transaction n = Some (nt_txn x))"
    using ok unfolding wseg_ok_def by blast+
  have "w_txns w' t \<noteq> None \<longrightarrow> seg_of w' t s" using st(4,5) assms(3) [of t] assms(4) [of t s] by simp
  moreover have "w_txns w' t = None \<longrightarrow> w_segs w' s = None" using st(3,4,6) assms(3,5) by (metis not_None_eq)
  moreover have "\<forall>seg. w_segs w' s = Some seg \<longrightarrow> fields_match (seg_type seg) (ns_type n)"
    using st(3,7) assms(5) by metis
  moreover have "\<forall>h. ns_txn_lock n = Some h \<longrightarrow> h < w_next w' \<and>
      (\<forall>x. w_handles w' h = Some x \<longrightarrow> ns_transaction n = Some (nt_txn x))"
    using lk(2) assms(2,6) by (metis order_less_le_trans)
  moreover have "a < w_next w'" "s < w_next w'" "t < w_next w'" using lk(1) st(3,4) assms(2) by simp_all
  ultimately show ?thesis unfolding wseg_ok_def using st(1,2) by (intro conjI exI) simp_all
qed

section \<open>The preorder\<close>

definition keep :: "world \<Rightarrow> world \<Rightarrow> bool" where
  "keep w w' \<longleftrightarrow> (sdk_ok w \<longrightarrow> sdk_ok w') \<and> w_handles w' = w_handles w"

lemma keep_refl [simp, intro]: "keep w w" by (simp add: keep_def)

lemma keep_trans: "keep w w' \<Longrightarrow> keep w' w'' \<Longrightarrow> keep w w''" by (simp add: keep_def)

text \<open>The operations below the API also leave the segment handles and the types of the segments alone.\<close>

definition inner :: "world \<Rightarrow> world \<Rightarrow> bool" where
  "inner w w' \<longleftrightarrow> keep w w' \<and> w_wsegs w' = w_wsegs w \<and> w_next w' = w_next w \<and>
     (\<forall>s. map_option seg_type (w_segs w' s) = map_option seg_type (w_segs w s))"

lemma inner_refl [simp, intro]: "inner w w" by (simp add: inner_def)

lemma inner_trans: "inner w w' \<Longrightarrow> inner w' w'' \<Longrightarrow> inner w w''" using keep_trans by (auto simp: inner_def)

lemma inner_keep: "inner w w' \<Longrightarrow> keep w w'" by (simp add: inner_def)

named_theorems keeps

text \<open>A lock taken and released around an operation that keeps the memory.\<close>

lemma sdk_ok_handles:
  assumes "sdk_ok w" "\<And>h. map_option nt_txn (hs h) = map_option nt_txn (w_handles w h)"
  shows "sdk_ok (w\<lparr>w_handles := hs\<rparr>)"
proof -
  let ?w = "w\<lparr>w_handles := hs\<rparr>"
  have hs: "\<exists>y. w_handles w h = Some y \<and> nt_txn y = nt_txn x" if "hs h = Some x" for h x
    using assms(2) [of h] that by (cases "w_handles w h") auto
  have "same_shape w ?w" by (simp add: same_shape_def)
  then have "segments_ok ?w" using segments_ok_shape sdk_okD(1) [OF assms(1)] by blast
  moreover have "handles_ok ?w" using sdk_okD(3) [OF assms(1)] hs unfolding handles_ok_def by simp metis
  moreover have "wseg_ok ?w a n" if "w_wsegs w a = Some n" for a n
    by (rule wseg_ok_cong [OF sdk_okD(4) [OF assms(1) that]]) (use hs in \<open>auto simp: seg_of_def\<close>)
  ultimately show ?thesis using sdk_okD(2) [OF assms(1)] by (simp add: sdk_ok_def)
qed

lemma lock_eq:
  assumes "nrt_mutex_lock (Some h) w = Some w'"
  shows "\<exists>x. w_handles w h = Some x \<and> \<not> nt_locked x \<and> w' = w\<lparr>w_handles := (w_handles w)(h \<mapsto> x\<lparr>nt_locked := True\<rparr>)\<rparr>"
  using assms by (auto simp: nrt_mutex_lock_def upd_handle_def split: option.splits if_splits)

lemma lock_bracket:
  assumes l: "nrt_mutex_lock lk w = Some w1" and k: "keep w1 w2" and u: "nrt_mutex_unlock lk w2 = Some w3"
  shows "keep w w3"
proof (cases lk)
  case None
  then show ?thesis using assms by (simp add: nrt_mutex_lock_def nrt_mutex_unlock_def)
next
  case (Some h)
  obtain x where x: "w_handles w h = Some x" "\<not> nt_locked x" "w1 = w\<lparr>w_handles := (w_handles w)(h \<mapsto> x\<lparr>nt_locked := True\<rparr>)\<rparr>"
    using lock_eq l Some by blast
  have h2: "w_handles w2 = (w_handles w)(h \<mapsto> x\<lparr>nt_locked := True\<rparr>)" using k x(3) by (simp add: keep_def)
  then have w3: "w3 = w2\<lparr>w_handles := (w_handles w)(h \<mapsto> x\<lparr>nt_locked := False\<rparr>)\<rparr>"
    using u Some by (simp add: nrt_mutex_unlock_def upd_handle_def)
  have "x\<lparr>nt_locked := False\<rparr> = x" using x(2) by (cases x) simp
  then have "w_handles w3 = w_handles w" using w3 x(1) by auto
  moreover have "sdk_ok w3" if "sdk_ok w"
  proof -
    have "sdk_ok w1" unfolding x(3) by (rule sdk_ok_handles [OF that]) (use x(1) in auto)
    then have "sdk_ok w2" using k by (simp add: keep_def)
    then show ?thesis unfolding w3 by (rule sdk_ok_handles) (use h2 in auto)
  qed
  ultimately show ?thesis by (simp add: keep_def)
qed

section \<open>Updates\<close>

lemma upd_txn_inner:
  assumes "upd_txn t f w = Some w'"
    and "\<And>x. w_txns w t = Some x \<Longrightarrow> txn_shape (f x) = txn_shape x \<and> (txn_data_ok x \<longrightarrow> txn_data_ok (f x))"
  shows "inner w w'"
proof -
  obtain x where x: "w_txns w t = Some x" "w' = w\<lparr>w_txns := (w_txns w)(t \<mapsto> f x)\<rparr>" using assms(1) by (auto simp: upd_txn_def)
  have "sdk_ok w'" if ok: "sdk_ok w"
  proof -
    have "same_shape w w'" using same_shape_upd_txn [OF assms(1)] assms(2) by blast
    then have "segments_ok w'" using segments_ok_shape sdk_okD(1) [OF ok] by blast
    moreover have "handles_ok w'" using sdk_okD(3) [OF ok] by (simp add: handles_ok_def x(2))
    moreover have "wseg_ok w' a n" if "w_wsegs w a = Some n" for a n
      by (rule wseg_ok_cong [OF sdk_okD(4) [OF ok that]]) (use x in \<open>auto simp: seg_of_def\<close>)
    moreover have "txn_data_ok y" if "w_txns w' u = Some y" for u y
      using sdk_okD(2) [OF ok] assms(2) [OF x(1)] that x by (cases "u = t") auto
    ultimately show ?thesis by (simp add: sdk_ok_def x(2))
  qed
  then show ?thesis using x(1) by (simp add: inner_def keep_def x(2))
qed

lemma upd_seg_inner:
  assumes "upd_seg s f w = Some w'"
    and "\<And>seg. w_segs w s = Some seg \<Longrightarrow> seg_shape (f seg) = seg_shape seg \<and> seg_type (f seg) = seg_type seg"
  shows "inner w w'"
proof -
  obtain x where x: "w_segs w s = Some x" "w' = w\<lparr>w_segs := (w_segs w)(s \<mapsto> f x)\<rparr>" using assms(1) by (auto simp: upd_seg_def)
  note f = assms(2) [OF x(1)]
  have "sdk_ok w'" if ok: "sdk_ok w"
  proof -
    have "same_shape w w'" using f x by (simp add: same_shape_def)
    then have seg: "segments_ok w'" "\<And>t s. seg_of w' t s = seg_of w t s"
      using segments_ok_shape sdk_okD(1) [OF ok] seg_of_shape by blast+
    moreover have "handles_ok w'" using sdk_okD(3) [OF ok] by (simp add: handles_ok_def x(2))
    moreover have "wseg_ok w' a n" if "w_wsegs w a = Some n" for a n
      by (rule wseg_ok_cong [OF sdk_okD(4) [OF ok that]]) (use x f seg(2) in \<open>auto split: if_splits\<close>)
    ultimately show ?thesis using sdk_okD(2) [OF ok] by (simp add: sdk_ok_def x(2))
  qed
  then show ?thesis using x(1) f by (auto simp: inner_def keep_def x(2))
qed

lemma upd_wseg_keep:
  assumes "upd_wseg a f w = Some w'"
    and "\<And>n. w_wsegs w a = Some n \<Longrightarrow> sdk_ok w \<Longrightarrow> wseg_ok w a n \<Longrightarrow> wseg_ok w a (f n)"
  shows "keep w w'"
proof -
  obtain x where x: "w_wsegs w a = Some x" "w' = w\<lparr>w_wsegs := (w_wsegs w)(a \<mapsto> f x)\<rparr>" using assms(1) by (auto simp: upd_wseg_def)
  have "sdk_ok w'" if ok: "sdk_ok w"
  proof -
    have "same_shape w w'" by (simp add: same_shape_def x(2))
    then have "segments_ok w'" using segments_ok_shape sdk_okD(1) [OF ok] by blast
    moreover have "wseg_ok w' b n = wseg_ok w b n" for b n by (simp add: wseg_ok_def seg_of_def x(2))
    moreover have "wseg_ok w b n" if "w_wsegs w' b = Some n" for b n
      using that sdk_okD(4) [OF ok] assms(2) [OF x(1) ok sdk_okD(4) [OF ok x(1)]] by (auto simp: x(2) split: if_splits)
    moreover have "handles_ok w'" using sdk_okD(3) [OF ok] by (simp add: handles_ok_def x(2))
    ultimately show ?thesis using sdk_okD(2) [OF ok] by (simp add: sdk_ok_def x(2))
  qed
  then show ?thesis by (simp add: keep_def x(2))
qed

section \<open>Changes of segments and data\<close>

definition mild :: "world \<Rightarrow> world \<Rightarrow> bool" where
  "mild w w' \<longleftrightarrow>
     w_next w' = w_next w \<and> w_handles w' = w_handles w \<and> w_wsegs w' = w_wsegs w \<and>
     (\<forall>t. rel_option (\<lambda>x x'. txn_data_ok x \<longrightarrow> txn_data_ok x') (w_txns w t) (w_txns w' t)) \<and>
     (\<forall>s. map_option (\<lambda>g. (seg_txn g, seg_type g)) (w_segs w' s) = map_option (\<lambda>g. (seg_txn g, seg_type g)) (w_segs w s))"

lemma mild_refl: "mild w w" by (simp add: mild_def option.rel_refl)

lemma mild_trans:
  assumes "mild w w'" "mild w' w''"
  shows "mild w w''"
proof -
  have "rel_option (\<lambda>x x'. txn_data_ok x \<longrightarrow> txn_data_ok x') (w_txns w t) (w_txns w'' t)" for t
  proof -
    have "rel_option (\<lambda>x x'. txn_data_ok x \<longrightarrow> txn_data_ok x') (w_txns w t) (w_txns w' t)"
      "rel_option (\<lambda>x x'. txn_data_ok x \<longrightarrow> txn_data_ok x') (w_txns w' t) (w_txns w'' t)"
      using assms by (simp_all add: mild_def)
    then show ?thesis by (cases "w_txns w t"; cases "w_txns w' t"; cases "w_txns w'' t") simp_all
  qed
  then show ?thesis using assms by (simp add: mild_def)
qed

lemma mild_upd_txn: "upd_txn t f w = Some w' \<Longrightarrow> (\<And>x. txn_data_ok (f x) = txn_data_ok x) \<Longrightarrow> mild w w'"
  by (auto simp: upd_txn_def mild_def option.rel_refl)

lemma mild_upd_seg:
  "upd_seg s f w = Some w' \<Longrightarrow> (\<And>g. seg_txn (f g) = seg_txn g \<and> seg_type (f g) = seg_type g) \<Longrightarrow> mild w w'"
  by (auto simp: upd_seg_def mild_def option.rel_refl)

lemma inner_mild:
  assumes m: "mild w w'" and s: "segments_ok w \<Longrightarrow> segments_ok w'"
  shows "inner w w'"
proof -
  have seg: "\<exists>g. w_segs w a = Some g \<and> seg_txn g = seg_txn g' \<and> seg_type g = seg_type g'" if "w_segs w' a = Some g'" for a g'
  proof -
    have "map_option (\<lambda>g. (seg_txn g, seg_type g)) (w_segs w a) = Some (seg_txn g', seg_type g')" using m that unfolding mild_def by (metis option.simps(9))
    then show ?thesis by auto
  qed
  have seg': "\<exists>g'. w_segs w' a = Some g' \<and> seg_txn g' = seg_txn g \<and> seg_type g' = seg_type g" if "w_segs w a = Some g" for a g
  proof -
    have "map_option (\<lambda>g. (seg_txn g, seg_type g)) (w_segs w' a) = Some (seg_txn g, seg_type g)" using m that unfolding mild_def by (metis option.simps(9))
    then show ?thesis by auto
  qed
  have txn: "rel_option (\<lambda>x x'. txn_data_ok x \<longrightarrow> txn_data_ok x') (w_txns w t) (w_txns w' t)" for t using m by (simp add: mild_def)
  then have none: "w_txns w' t = None \<longleftrightarrow> w_txns w t = None" for t by (metis option.rel_distinct(1,2) not_None_eq)
  have "sdk_ok w'" if ok: "sdk_ok w"
  proof -
    have "txn_data_ok x'" if "w_txns w' t = Some x'" for t x'
      using txn [of t] that sdk_okD(2) [OF ok] by (cases "w_txns w t") auto
    moreover have "handles_ok w'" using sdk_okD(3) [OF ok] m none by (auto simp: handles_ok_def mild_def)
    moreover have "wseg_ok w' a n" if "w_wsegs w' a = Some n" for a n
    proof (rule wseg_ok_cong [of w])
      show "wseg_ok w a n" using that m sdk_okD(4) [OF ok] by (simp add: mild_def)
      show "seg_of w' t s" if "seg_of w t s" for t s using that seg' by (fastforce simp: seg_of_def)
      show "\<exists>seg0. w_segs w s = Some seg0 \<and> seg_type seg0 = seg_type seg" if "w_segs w' s = Some seg" for s seg
        using seg [OF that] by blast
    qed (use m none in \<open>auto simp: mild_def\<close>)
    ultimately show ?thesis using s [OF sdk_okD(1) [OF ok]] by (simp add: sdk_ok_def)
  qed
  moreover have "map_option seg_type (w_segs w' s) = map_option seg_type (w_segs w s)" for s
    using seg [of s] seg' [of s] by (cases "w_segs w s"; cases "w_segs w' s") auto
  ultimately show ?thesis using m by (simp add: inner_def keep_def mild_def)
qed

section \<open>Operations on transactions and segments\<close>

lemma force_add_unscoped_inner [keeps]:
  assumes "force_add_unscoped t name d w = Some w'"
  shows "inner w w'"
proof -
  obtain x table where x: "w_txns w t = Some x" "nrm_force_add (tx_unscoped_metrics x) (Some name) d = Some table"
    and u: "upd_txn t (\<lambda>x. x\<lparr>tx_unscoped_metrics := table\<rparr>) w = Some w'"
    using assms by (auto simp: force_add_unscoped_def split: Option.bind_splits)
  have "table_ok table" if "table_ok (tx_unscoped_metrics x)"
    using nrm_force_add_ok [OF that, of name d] x(2) by auto
  then show ?thesis using x(1) by (intro upd_txn_inner [OF u]) (auto simp: txn_shape_def txn_data_ok_def)
qed

lemma nr_txn_force_single_count_inner [keeps]: "nr_txn_force_single_count t n w = Some w' \<Longrightarrow> inner w w'"
  by (auto simp: nr_txn_force_single_count_def split: option.splits intro: keeps)

lemma api_supportability_metric_inner [keeps]: "newrelic_add_api_supportability_metric t n w = Some w' \<Longrightarrow> inner w w'"
  by (auto simp: newrelic_add_api_supportability_metric_def split: option.splits intro: keeps)

lemma intern_trace_string_inner [keeps]:
  assumes "intern_trace_string t (Some s) w = Some (i, w')"
  shows "inner w w'"
proof -
  obtain x pool where x: "w_txns w t = Some x" "nr_string_add (tx_trace_strings x) (Some s) = Some (i, pool)"
    and u: "upd_txn t (\<lambda>x. x\<lparr>tx_trace_strings := pool\<rparr>) w = Some w'"
    using assms by (auto simp: intern_trace_string_def split: Option.bind_splits)
  have "pool_ok pool" if "pool_ok (tx_trace_strings x)" using nr_string_add_get(1) [OF that x(2)] .
  then show ?thesis using x(1) by (intro upd_txn_inner [OF u]) (auto simp: txn_shape_def txn_data_ok_def)
qed

lemma nr_segment_set_name_inner [keeps]:
  assumes "nr_segment_set_name s n w = Some (r, w')"
  shows "inner w w'"
proof (cases "\<exists>a m. s = Some a \<and> n = Some m")
  case True
  then obtain a m where [simp]: "s = Some a" "n = Some m" by blast
  obtain t i w1 where i: "intern_trace_string t (Some m) w = Some (i, w1)" and u: "upd_seg a (\<lambda>seg. seg\<lparr>seg_name := i\<rparr>) w1 = Some w'"
    using assms by (auto simp: nr_segment_set_name_def split: Option.bind_splits)
  have "inner w1 w'" by (rule upd_seg_inner [OF u]) (simp add: seg_shape_def)
  then show ?thesis by (rule inner_trans [OF intern_trace_string_inner [OF i]])
next
  case False
  then show ?thesis using assms by (auto simp: nr_segment_set_name_def split: option.splits)
qed

lemma nr_segment_add_metric_inner [keeps]: "nr_segment_add_metric s n b w = Some (r, w') \<Longrightarrow> inner w w'"
  by (auto simp: nr_segment_add_metric_def seg_shape_def split: option.splits Option.bind_splits intro: upd_seg_inner)

lemma nr_segment_set_timing_inner [keeps]: "nr_segment_set_timing s a b w = Some (r, w') \<Longrightarrow> inner w w'"
  by (auto simp: nr_segment_set_timing_def seg_shape_def split: option.splits Option.bind_splits intro: upd_seg_inner)

lemma nr_segment_set_priority_flag_inner [keeps]: "nr_segment_set_priority_flag s f w = Some w' \<Longrightarrow> inner w w'"
  by (auto simp: nr_segment_set_priority_flag_def seg_shape_def split: option.splits intro: upd_seg_inner)

lemma nr_segment_set_datastore_inner:
  "nr_segment_set_datastore (Some s) d w = Some (r, w') \<Longrightarrow> (\<And>g. w_segs w s = Some g \<Longrightarrow> seg_type g = NR_SEGMENT_DATASTORE) \<Longrightarrow> inner w w'"
  by (auto simp: nr_segment_set_datastore_def seg_shape_def split: option.splits Option.bind_splits intro!: upd_seg_inner)

lemma nr_segment_set_external_inner:
  "nr_segment_set_external (Some s) d w = Some (r, w') \<Longrightarrow> (\<And>g. w_segs w s = Some g \<Longrightarrow> seg_type g = NR_SEGMENT_EXTERNAL) \<Longrightarrow> inner w w'"
  by (auto simp: nr_segment_set_external_def seg_shape_def split: option.splits Option.bind_splits intro!: upd_seg_inner)

lemma txn_data_ok_pop [simp]: "txn_data_ok (pop_current s c x) = txn_data_ok x"
  by (simp add: txn_data_ok_def pop_current_def)

lemma nr_segment_end_mild:
  assumes "nr_segment_end (Some s) now w = Some (r, w')"
  shows "mild w w'"
proof -
  from assms obtain g where g: "w_segs w s = Some g" by (auto simp: nr_segment_end_def split: Option.bind_splits)
  show ?thesis
  proof (cases "seg_txn g")
    case None
    then show ?thesis using assms g by (simp add: nr_segment_end_def mild_refl)
  next
    case (Some t)
    from assms Some g obtain x w1 w2 where
      w1: "(if seg_stop_time g = 0 then upd_seg s (\<lambda>seg. seg\<lparr>seg_stop_time := nr_time_duration (nr_txn_start_time (Some x)) now\<rparr>) w
        else Some w) = Some w1" and
      w2: "upd_txn t (\<lambda>x. x\<lparr>tx_segment_count := tx_segment_count x + 1\<rparr>) w1 = Some w2" and
      w': "nr_txn_retire_current_segment t s w2 = Some w'"
      by (auto simp: nr_segment_end_def split: Option.bind_splits)
    have "mild w w1" using w1 mild_refl by (auto split: if_splits intro: mild_upd_seg)
    moreover have "mild w1 w2" using w2 by (rule mild_upd_txn) (simp add: txn_data_ok_def)
    moreover have "mild w2 w'"
      using w' by (auto simp: nr_txn_retire_current_segment_def split: Option.bind_splits intro: mild_upd_txn)
    ultimately show ?thesis using mild_trans by blast
  qed
qed

lemma nr_segment_end_inner [keeps]: "nr_segment_end s now w = Some (r, w') \<Longrightarrow> inner w w'"
  using nr_segment_end_mild nr_segment_end_ok inner_mild
  by (cases s) (simp add: nr_segment_end_def, blast)

lemma nr_segment_set_parent_inner [keeps]:
  assumes "nr_segment_set_parent s (Some p) w = Some (r, w')"
  shows "inner w w'"
proof (rule inner_mild)
  consider "w' = w" | a sg w1 w2 where "w_segs w a = Some sg"
      "(case seg_parent sg of None \<Rightarrow> Some w | Some old \<Rightarrow> nr_segment_children_remove old a w) = Some w1"
      "nr_segment_children_add p a w1 = Some w2" "upd_seg a (\<lambda>seg. seg\<lparr>seg_parent := Some p\<rparr>) w2 = Some w'"
    using assms unfolding nr_segment_set_parent_def
    by (cases s) (auto split: Option.bind_splits if_splits)
  then show "mild w w'"
  proof cases
    case (2 a sg w1 w2)
    have "mild w w1" using 2(2) mild_refl by (auto simp: nr_segment_children_remove_def split: option.splits intro: mild_upd_seg)
    moreover have "mild w1 w2" using 2(3) unfolding nr_segment_children_add_def by (rule mild_upd_seg) simp
    moreover have "mild w2 w'" using 2(4) by (rule mild_upd_seg) simp
    ultimately show ?thesis using mild_trans by blast
  qed (simp add: mild_refl)
qed (rule nr_segment_set_parent_ok [OF _ assms])

end
