(* ===== verification/Sdk_Operations.thy ===== *)
theory Sdk_Operations
  imports Sdk_Invariant
begin

text \<open>The operations of nr_txn.c and of the typed segments keep the invariant.\<close>

section \<open>nr_txn.c\<close>

lemma upd_txn_plain:
  "upd_txn t f w = Some w' \<Longrightarrow> (\<And>x. txn_shape (f x) = txn_shape x) \<Longrightarrow> (\<And>x. txn_data_ok (f x) = txn_data_ok x) \<Longrightarrow> inner w w'"
  by (rule upd_txn_inner [of t f]) blast+

lemma upd_seg_plain:
  "upd_seg s f w = Some w' \<Longrightarrow> (\<And>g. seg_shape (f g) = seg_shape g \<and> seg_type (f g) = seg_type g) \<Longrightarrow> inner w w'"
  by (rule upd_seg_inner [of s f]) blast+

lemmas plain_simps = txn_shape_def txn_data_ok_def seg_shape_def

lemma nr_txn_set_path_inner [keeps]: "nr_txn_set_path t n p o' w = Some (r, w') \<Longrightarrow> inner w w'"
  by (auto simp: nr_txn_set_path_def plain_simps split: option.splits if_splits Option.bind_splits intro: upd_txn_plain)

lemma nr_txn_change_background_status_inner [keeps]: "nr_txn_change_background_status t b w = Some w' \<Longrightarrow> inner w w'"
  by (auto simp: nr_txn_change_background_status_def plain_simps split: option.splits if_splits Option.bind_splits
      intro: upd_txn_plain keeps)

lemma nr_txn_set_timing_inner [keeps]:
  assumes "nr_txn_set_timing t a d w = Some (r, w')"
  shows "inner w w'"
proof -
  consider "w' = w" | t' s w1 where "upd_txn t' (\<lambda>x. x\<lparr>tx_abs_start_time := a\<rparr>) w = Some w1"
      "upd_seg s (\<lambda>s. s\<lparr>seg_stop_time := d\<rparr>) w1 = Some w'"
    using assms by (auto simp: nr_txn_set_timing_def split: option.splits Option.bind_splits)
  then show ?thesis
  proof cases
    case (2 t' s w1)
    have "inner w w1" using 2(1) by (rule upd_txn_plain) (simp_all add: plain_simps)
    moreover have "inner w1 w'" using 2(2) by (rule upd_seg_plain) (simp add: plain_simps)
    ultimately show ?thesis by (rule inner_trans)
  qed simp
qed

lemma nr_txn_ignore_inner [keeps]: "nr_txn_ignore t w = Some (r, w') \<Longrightarrow> inner w w'"
  by (auto simp: nr_txn_ignore_def plain_simps split: option.splits Option.bind_splits intro: upd_txn_plain)

lemma guid_inner: "inner w (w\<lparr>w_guid_count := n\<rparr>)"
proof -
  have "mild w (w\<lparr>w_guid_count := n\<rparr>)" by (simp add: mild_def option.rel_refl)
  moreover have "same_shape w (w\<lparr>w_guid_count := n\<rparr>)" by (simp add: same_shape_def)
  ultimately show ?thesis using inner_mild segments_ok_shape by blast
qed

lemma nr_segment_ensure_id_inner [keeps]:
  assumes "nr_segment_ensure_id e s t w = Some (r, w')"
  shows "inner w w'"
proof -
  consider "w' = w" | "upd_seg s (\<lambda>seg. seg\<lparr>seg_id := r\<rparr>) (w\<lparr>w_guid_count := Suc (w_guid_count w)\<rparr>) = Some w'"
    using assms by (auto simp: nr_segment_ensure_id_def nr_guid_create_def split: Option.bind_splits if_splits)
  then show ?thesis
  proof cases
    case 2
    have "inner (w\<lparr>w_guid_count := Suc (w_guid_count w)\<rparr>) w'" using 2 by (rule upd_seg_plain) (simp add: plain_simps)
    then show ?thesis by (rule inner_trans [OF guid_inner])
  qed simp
qed

lemma make_dt_payload_inner [keeps]:
  assumes "make_dt_payload e t s w = Some (r, w')"
  shows "inner w w'"
proof (cases "w' = w")
  case False
  then obtain s' t' p w1 where "nr_segment_ensure_id e s' t' w = Some (p, w1)"
    "nr_segment_set_priority_flag (Some s') NR_SEGMENT_PRIORITY_DT w1 = Some w'"
    using assms unfolding make_dt_payload_def by (cases t; cases s) (auto split: Option.bind_splits if_splits)
  then show ?thesis using inner_trans by (blast dest: keeps)
qed simp

lemma nr_txn_create_distributed_trace_payload_inner [keeps]:
  assumes "nr_txn_create_distributed_trace_payload e t s w = Some (r, w')"
  shows "inner w w'"
proof -
  obtain m w1 where "make_dt_payload e t s w = Some (r, w1)" "nr_txn_force_single_count t m w1 = Some w'"
    using assms by (auto simp: nr_txn_create_distributed_trace_payload_def split: Option.bind_splits)
  then show ?thesis using inner_trans by (blast dest: keeps)
qed

lemma nr_txn_create_dt_metrics_inner [keeps]:
  assumes "nr_txn_create_dt_metrics t p v w = Some w'"
  shows "inner w w'"
proof -
  obtain n m w1 where "force_add_unscoped t n v w = Some w1" "force_add_unscoped t m v w1 = Some w'"
    using assms by (auto simp: nr_txn_create_dt_metrics_def Let_def split: Option.bind_splits)
  then show ?thesis using inner_trans keeps(1) by (blast dest: force_add_unscoped_inner)
qed

text \<open>The three ways out of accepting a payload: nothing, a metric that counts the refusal, acceptance.\<close>

lemma accept_payload_cases:
  assumes "nr_txn_accept_distributed_trace_payload e t s y w = Some (r, w')"
  obtains (same) "w' = w" | (refused) t' m where "force_add_unscoped t' m 0 w = Some w'"
  | (accepted) t' dt v w1 w2 w3 where "upd_txn t' (\<lambda>x. x\<lparr>tx_distributed_trace := dt\<rparr>) w = Some w1"
      "force_add_unscoped t' NR_DISTRIBUTED_TRACE_ACCEPT_SUCCESS 0 w1 = Some w2"
      "nr_txn_create_dt_metrics t' ''TransportDuration'' v w2 = Some w3"
      "upd_txn t' (\<lambda>x. x\<lparr>tx_type := tx_type x OR NR_TXN_TYPE_DT_INBOUND\<rparr>) w3 = Some w'"
proof (cases t)
  case None
  then show thesis using assms same by (simp add: nr_txn_accept_distributed_trace_payload_def)
next
  case (Some t')
  from assms obtain x where x: "w_txns w t' = Some x" unfolding nr_txn_accept_distributed_trace_payload_def Some option.case
    by (auto split: Option.bind_splits)
  let ?refuse = "\<lambda>m. map_option (Pair False) (force_add_unscoped t' m 0 w)"
  have ref: thesis if "?refuse m = Some (r, w')" for m using that refused by (metis map_option_eq_Some prod.inject)
  note a = assms [unfolded nr_txn_accept_distributed_trace_payload_def Some option.case x Option.bind.simps Let_def]
  show thesis
  proof (cases "opt_distributed_tracing_enabled (tx_options x)")
    case False
    then have "?refuse NR_DISTRIBUTED_TRACE_ACCEPT_EXCEPTION = Some (r, w')" using a by simp
    then show thesis by (rule ref)
  next
    case True
    note b = a [simplified if_not_P True, simplified]
    from b obtain f where f: "nrm_find (tx_unscoped_metrics x) (Some NR_DISTRIBUTED_TRACE_CREATE_SUCCESS) = Some f"
      by (auto split: Option.bind_splits)
    note c = b [unfolded f Option.bind.simps]
    show thesis
    proof (cases "in_set (dt_inbound (tx_distributed_trace x)) \<or> f \<noteq> None")
      case True
      then have "\<exists>m. ?refuse m = Some (r, w')" using c by (auto split: if_splits)
      then show thesis using ref by blast
    next
      case False
      show thesis
      proof (cases "nr_distributed_trace_convert_payload_to_object (env_from_json e) s")
        case (Inl m)
        then have "?refuse m = Some (r, w')" using c False by simp
        then show thesis by (rule ref)
      next
        case (Inr obj)
        let ?key = "case nr_distributed_trace_object_get_trusted_key obj of
          None \<Rightarrow> nr_distributed_trace_object_get_account_id obj | Some k \<Rightarrow> Some k"
        show thesis
        proof (cases "nr_txn_is_account_trusted_dt x ?key")
          case untrusted: False
          then have "?refuse NR_DISTRIBUTED_TRACE_ACCEPT_UNTRUSTED_ACCOUNT = Some (r, w')" using c False Inr by simp
          then show thesis by (rule ref)
        next
          case trusted: True
          show thesis
          proof (cases "nr_distributed_trace_accept_inbound_payload (tx_distributed_trace x) (Some obj) y")
            case (Inl m)
            then have "?refuse m = Some (r, w')" using c False Inr trusted by simp
            then show thesis by (rule ref)
          next
            case acc: (Inr dt)
            show thesis
              using c False Inr trusted acc by (auto split: Option.bind_splits intro: accepted)
          qed
        qed
      qed
    qed
  qed
qed

lemma nr_txn_accept_distributed_trace_payload_inner [keeps]:
  assumes "nr_txn_accept_distributed_trace_payload e t s y w = Some (r, w')"
  shows "inner w w'"
  using assms
proof (cases rule: accept_payload_cases)
  case (accepted t' dt v w1 w2 w3)
  have "inner w w1" using accepted(1) by (rule upd_txn_plain) (simp_all add: plain_simps)
  moreover have "inner w1 w2" using accepted(2) by (rule keeps)
  moreover have "inner w2 w3" using accepted(3) by (rule keeps)
  moreover have "inner w3 w'" using accepted(4) by (rule upd_txn_plain) (simp_all add: plain_simps)
  ultimately show ?thesis using inner_trans by blast
qed (auto intro: keeps)

lemma nr_txn_accept_distributed_trace_payload_httpsafe_inner [keeps]:
  "nr_txn_accept_distributed_trace_payload_httpsafe e t s y w = Some (r, w') \<Longrightarrow> inner w w'"
  by (auto simp: nr_txn_accept_distributed_trace_payload_httpsafe_def split: option.splits Option.bind_splits intro: keeps)

end
