(* ===== verification/Sdk_Calls.thy ===== *)
theory Sdk_Calls
  imports Sdk_Operations
begin

text \<open>
  The calls of the API keep the invariant of the process, each for itself and in any sequence.
\<close>

section \<open>Typed segments\<close>

lemma inner_type:
  "inner w w' \<Longrightarrow> (\<And>g. w_segs w s = Some g \<Longrightarrow> seg_type g = T) \<Longrightarrow> w_segs w' s = Some g' \<Longrightarrow> seg_type g' = T"
  unfolding inner_def by (metis (no_types, lifting) map_option_eq_Some)

lemma bindE: "Option.bind m k = Some r \<Longrightarrow> (\<And>a. m = Some a \<Longrightarrow> k a = Some r \<Longrightarrow> P) \<Longrightarrow> P"
  by (cases m) simp_all

lemma statement_metric_inner [keeps]: "statement_metric s product c p w = Some (n, w') \<Longrightarrow> inner w w'"
  by (auto simp: statement_metric_def Let_def split: option.splits Option.bind_splits intro: keeps)

lemma instance_metric_inner [keeps]: "instance_metric e s o' product i w = Some (n, w') \<Longrightarrow> inner w w'"
  by (auto simp: instance_metric_def Let_def split: option.splits Option.bind_splits if_splits intro: keeps)

lemma create_metrics_inner [keeps]: "create_metrics e t s d product c p i w = Some (sc, out, w') \<Longrightarrow> inner w w'"
  unfolding create_metrics_def
  by (clarsimp split: Option.bind_splits)
     (meson inner_trans force_add_unscoped_inner statement_metric_inner nr_segment_add_metric_inner instance_metric_inner)

lemma store_datastore_chain:
  assumes ty: "\<And>g. w_segs w s = Some g \<Longrightarrow> seg_type g = NR_SEGMENT_DATASTORE"
    and w1: "(if c then nr_slowsqls_add t f w else Some w) = Some w1"
    and d: "nr_segment_set_datastore (Some s) data w1 = Some a" "(case a of (_, w) \<Rightarrow> Some w) = Some w'"
  shows "inner w w'"
proof -
  have i: "inner w w1"
    using w1 by (auto simp: nr_slowsqls_add_def plain_simps split: if_splits intro: upd_txn_plain)
  moreover obtain r where "a = (r, w')" using d(2) by (cases a) simp
  then have "inner w1 w'" using d(1) inner_type [OF i ty] by (intro nr_segment_set_datastore_inner) simp_all
  ultimately show ?thesis using inner_trans by blast
qed

lemma store_datastore_inner:
  assumes st: "store_datastore t s b d ds sc rp ps w = Some w'" and ty: "\<And>g. w_segs w s = Some g \<Longrightarrow> seg_type g = NR_SEGMENT_DATASTORE"
  shows "inner w w'"
  using st unfolding store_datastore_def Let_def by (elim bindE) (rule store_datastore_chain [OF ty])

lemma datastore_end_chain:
  assumes ty: "\<And>g. w_segs w s = Some g \<Longrightarrow> seg_type g = NR_SEGMENT_DATASTORE"
    and pool: "w_txns w t = Some x" "nr_string_add (tx_datastore_products x) (Some n) = Some (i, pool)"
    and w1: "upd_txn t (\<lambda>x. x\<lparr>tx_datastore_products := pool\<rparr>) w = Some w1"
    and w2: "nr_segment_end (Some s) (env_now e) w1 = Some (r, w2)"
    and w3: "create_metrics e t s d ds c p inst w2 = Some (sc, rp, w3)"
    and w4: "nr_segment_set_name (Some s) (Some sc) w3 = Some (m, w4)"
    and w': "store_datastore t s b d ds sc rp ps w4 = Some w'"
  shows "inner w w'"
proof -
  have "pool_ok pool" if "pool_ok (tx_datastore_products x)" using nr_string_add_get(1) [OF that pool(2)] .
  then have "inner w w1" using pool(1) by (intro upd_txn_inner [OF w1]) (auto simp: plain_simps)
  moreover have "inner w1 w2" using w2 by (rule keeps)
  moreover have "inner w2 w3" using w3 by (rule keeps)
  moreover have "inner w3 w4" using w4 by (rule keeps)
  ultimately have i: "inner w w4" using inner_trans by blast
  have "inner w4 w'" using w' inner_type [OF i ty] by (rule store_datastore_inner)
  with i show ?thesis by (rule inner_trans)
qed

lemma nr_segment_datastore_end_inner:
  assumes "nr_segment_datastore_end e (Some s) ps w = Some w'" and ty: "\<And>g. w_segs w s = Some g \<Longrightarrow> seg_type g = NR_SEGMENT_DATASTORE"
  shows "inner w w'"
proof (cases ps)
  case None
  then show ?thesis using assms by (simp add: nr_segment_datastore_end_def)
next
  case (Some p)
  show ?thesis
    using assms(1) unfolding nr_segment_datastore_end_def Some prod.case option.case Let_def
    by (clarsimp split: Option.bind_splits option.splits) (rule datastore_end_chain [OF ty]; assumption)+
qed

lemma nr_segment_external_end_inner:
  assumes "nr_segment_external_end e (Some s) ps w = Some (r, w')" "\<And>g. w_segs w s = Some g \<Longrightarrow> seg_type g = NR_SEGMENT_EXTERNAL"
  shows "inner w w'"
proof (cases "w' = w")
  case False
  then obtain t ps' w1 w2 where
    w1: "nr_segment_external_set_attrs s ps' w = Some w1" and w2: "nr_segment_end (Some s) (env_now e) w1 = Some (r, w2)"
    and w': "nr_segment_external_create_metrics t s (xp_uri ps') w2 = Some w'"
    using assms(1) unfolding nr_segment_external_end_def by (cases ps) (auto split: Option.bind_splits option.splits)
  have "inner w w1" using w1 nr_segment_set_external_inner [OF _ assms(2)]
    by (auto simp: nr_segment_external_set_attrs_def split: Option.bind_splits)
  moreover have "inner w1 w2" using w2 by (rule keeps)
  moreover have "inner w2 w'"
  proof -
    obtain d n w3 m i w4 where w3: "force_add_unscoped t ''External/all'' d w2 = Some w3"
      and w4: "nr_segment_add_metric (Some s) (Some n) True w3 = Some (m, w4)"
      and w5: "\<exists>w5. intern_trace_string t (Some n) w4 = Some (i, w5) \<and> upd_seg s (\<lambda>seg. seg\<lparr>seg_name := i\<rparr>) w5 = Some w'"
      using w' by (auto simp: nr_segment_external_create_metrics_def Let_def split: Option.bind_splits)
    from w5 obtain w5 where "intern_trace_string t (Some n) w4 = Some (i, w5)" "upd_seg s (\<lambda>seg. seg\<lparr>seg_name := i\<rparr>) w5 = Some w'"
      by blast
    then have "inner w4 w5" "inner w5 w'" using upd_seg_plain [of s "\<lambda>seg. seg\<lparr>seg_name := i\<rparr>" w5 w'] by (auto simp: plain_simps dest: keeps)
    moreover have "inner w2 w3" using w3 by (rule keeps)
    moreover have "inner w3 w4" using w4 by (rule keeps)
    ultimately show ?thesis using inner_trans by blast
  qed
  ultimately show ?thesis using inner_trans by blast
qed simp

section \<open>Segment handles\<close>

lemma keepI: "(sdk_ok w \<Longrightarrow> sdk_ok w') \<Longrightarrow> w_handles w' = w_handles w \<Longrightarrow> keep w w'"
  by (simp add: keep_def)

lemma nr_segment_start_keep:
  assumes "nr_segment_start txn None None now w = Some (r, w')"
  shows "keep w w'" "w_wsegs w' = w_wsegs w"
proof -
  have *: "keep w w' \<and> w_wsegs w' = w_wsegs w" if ok: "sdk_ok w"
  proof (cases "\<exists>t x. txn = Some t \<and> w_txns w t = Some x \<and> st_recording (tx_status x)")
    case True
    then obtain t x where t: "txn = Some t" "w_txns w t = Some x" "st_recording (tx_status x)" by blast
    note eq = nr_segment_start_eq [OF sdk_okD(1) [OF ok] t(2,3), of now, folded t(1), unfolded assms, simplified]
    have seg: "segments_ok w'" by (rule nr_segment_start_ok [OF sdk_okD(1) [OF ok] assms])
    have fr: "w_segs w (w_next w) = None" using fresh(1) [OF sdk_okD(1) [OF ok]] .
    have "txn_data_ok y" if "w_txns w' u = Some y" for u y
      using that sdk_okD(2) [OF ok] t(2) eq by (cases "u = t") (auto simp: txn_data_ok_def)
    moreover have "handles_ok w'" using sdk_okD(3) [OF ok] eq t(2) unfolding handles_ok_def by (auto simp: less_Suc_eq)
    moreover have "wseg_ok w' a n" if "w_wsegs w a = Some n" for a n
    proof (rule wseg_ok_cong [OF sdk_okD(4) [OF ok that]])
      show "seg_of w' t' s" if "seg_of w t' s" for t' s
        using that fr eq by (cases "s = w_next w") (auto simp: seg_of_def add_leaf_def)
      show "\<exists>g0. w_segs w s = Some g0 \<and> seg_type g0 = seg_type g" if "s < w_next w" "w_segs w' s = Some g" for s g
        using that eq by (auto simp: add_leaf_def split: if_splits)
    qed (use eq t(2) in auto)
    ultimately have "sdk_ok w'" using seg eq by (simp add: sdk_ok_def)
    then show ?thesis using eq by (simp add: keep_def)
  next
    case False
    then have "w' = w" using assms by (auto simp: nr_segment_start_def split: option.splits Option.bind_splits if_splits)
    then show ?thesis by simp
  qed
  have **: "w_handles w' = w_handles w \<and> w_wsegs w' = w_wsegs w"
    using assms unfolding nr_segment_start_def nr_segment_init_def Let_def
    by (auto simp: upd_seg_def upd_txn_def nr_txn_set_current_segment_def nr_segment_children_add_def
        split: option.splits Option.bind_splits if_splits)
  show "keep w w'" using * ** by (auto intro: keepI simp: keep_def)
  show "w_wsegs w' = w_wsegs w" using ** by simp
qed

lemma add_wseg_ok:
  assumes ok: "sdk_ok w" and n: "wseg_ok (w\<lparr>w_next := Suc (w_next w)\<rparr>) (w_next w) n"
  shows "sdk_ok (w\<lparr>w_next := Suc (w_next w), w_wsegs := (w_wsegs w)(w_next w \<mapsto> n)\<rparr>)" (is "sdk_ok ?w")
proof -
  have same: "parent_of ?w = parent_of w" "seg_of ?w = seg_of w" "up ?w = up w"
    by (simp_all add: parent_of_def seg_of_def up_def fun_eq_iff)
  have "segments_ok ?w" using sdk_okD(1) [OF ok] unfolding segments_ok_def seg_ok_def txn_ok_def same
    by (auto simp: less_Suc_eq)
  moreover have "handles_ok ?w" using sdk_okD(3) [OF ok] unfolding handles_ok_def by (auto simp: less_Suc_eq)
  moreover have "wseg_ok ?w a m" if "w_wsegs ?w a = Some m" for a m
  proof (cases "a = w_next w")
    case True
    then show ?thesis using that n by (simp add: wseg_ok_def seg_of_def)
  next
    case False
    then have "wseg_ok w a m" using that sdk_okD(4) [OF ok] by simp
    then show ?thesis by (rule wseg_ok_cong) (auto simp: seg_of_def)
  qed
  ultimately show ?thesis using sdk_okD(2) [OF ok] by (simp add: sdk_ok_def)
qed

lemma newrelic_segment_create_keep:
  assumes "newrelic_segment_create e (Some t) w = Some (r, w')"
  shows "keep w w'"
proof -
  obtain q w1 where q: "nr_segment_start (Some t) None None (env_now e) w = Some (q, w1)"
    using assms by (auto simp: newrelic_segment_create_def split: Option.bind_splits)
  note k = nr_segment_start_keep(1) [OF q]
  show ?thesis
  proof (cases q)
    case None
    then show ?thesis using assms q k by (simp add: newrelic_segment_create_def)
  next
    case (Some s)
    let ?n = "\<lparr>ns_segment = Some s, ns_transaction = Some t, ns_txn_lock = None, ns_type = No_fields\<rparr>"
    have w': "w' = w1\<lparr>w_next := Suc (w_next w1), w_wsegs := (w_wsegs w1)(w_next w1 \<mapsto> ?n)\<rparr>"
      using assms q Some by (simp add: newrelic_segment_create_def Let_def)
    have "wseg_ok (w1\<lparr>w_next := Suc (w_next w1)\<rparr>) (w_next w1) ?n" if ok: "sdk_ok w"
    proof -
      from q Some obtain x where x: "w_txns w t = Some x" "st_recording (tx_status x)"
        by (auto simp: nr_segment_start_def split: Option.bind_splits if_splits)
      have e: "s = w_next w" "w1 = w\<lparr>w_next := Suc (w_next w),
          w_segs := add_leaf (w_next w) (stack_top (Some (tx_default_parent_stack x))) (new_segment x t (env_now e)) (w_segs w),
          w_txns := (w_txns w)(t \<mapsto> x\<lparr>tx_default_parent_stack := tx_default_parent_stack x @ [w_next w]\<rparr>)\<rparr>"
        using nr_segment_start_eq [OF sdk_okD(1) [OF ok] x, of "env_now e"] q Some by simp_all
      have "t < w_next w" using segments_okD(3) [OF sdk_okD(1) [OF ok] x(1)] by (simp add: txn_ok_def)
      then show ?thesis
        by (simp add: wseg_ok_def e seg_of_def add_leaf_def new_segment_def zero_segment_def)
    qed
    then show ?thesis using k add_wseg_ok [of w1 ?n] unfolding w' by (auto simp: keep_def)
  qed
qed

text \<open>The new handle: it is the only one of its segment.\<close>

lemma newrelic_segment_create_new:
  assumes "newrelic_segment_create e (Some t) w = Some (Some a, w')" "sdk_ok w"
  shows "\<exists>s. w_wsegs w' a = Some \<lparr>ns_segment = Some s, ns_transaction = Some t, ns_txn_lock = None, ns_type = No_fields\<rparr> \<and>
    (\<forall>b n. w_wsegs w' b = Some n \<longrightarrow> ns_segment n = Some s \<longrightarrow> b = a)"
proof -
  obtain q w1 where q: "nr_segment_start (Some t) None None (env_now e) w = Some (q, w1)"
    using assms(1) by (auto simp: newrelic_segment_create_def split: Option.bind_splits)
  obtain s where [simp]: "q = Some s" using assms(1) q by (cases q) (simp_all add: newrelic_segment_create_def)
  have w': "w' = w1\<lparr>w_next := Suc (w_next w1), w_wsegs := (w_wsegs w1)(w_next w1 \<mapsto>
      \<lparr>ns_segment = Some s, ns_transaction = Some t, ns_txn_lock = None, ns_type = No_fields\<rparr>)\<rparr>" "a = w_next w1"
    using assms(1) q by (auto simp: newrelic_segment_create_def Let_def)
  note s = q [simplified]
  from s obtain x where x: "w_txns w t = Some x" "st_recording (tx_status x)"
    by (auto simp: nr_segment_start_def split: Option.bind_splits if_splits)
  have "s = w_next w" using nr_segment_start_eq [OF sdk_okD(1) [OF assms(2)] x, of "env_now e"] s by simp
  moreover have "ns_segment n \<noteq> Some (w_next w)" if "w_wsegs w b = Some n" for b n
    using sdk_okD(4) [OF assms(2) that] by (auto simp: wseg_ok_def)
  ultimately show ?thesis unfolding w' nr_segment_start_keep(2) [OF s] by auto
qed

lemma fields_match_No [simp]: "fields_match T No_fields" by (cases T) simp_all

lemma wseg_ok_type:
  assumes ok: "wseg_ok w a n" and g: "w_segs w s = Some g" and f: "ns_segment n = Some s \<Longrightarrow> fields_match T (ns_type n)"
  shows "wseg_ok (w\<lparr>w_segs := (w_segs w)(s \<mapsto> g\<lparr>seg_type := T\<rparr>)\<rparr>) a n" (is "wseg_ok ?w a n")
proof -
  have seg: "seg_of ?w t u = seg_of w t u" for t u using g by (simp add: seg_of_def)
  obtain u t where ut: "ns_segment n = Some u" "ns_transaction n = Some t" "u < w_next w" "t < w_next w"
      "w_txns w t \<noteq> None \<longrightarrow> seg_of w t u" "w_txns w t = None \<longrightarrow> w_segs w u = None"
      "\<forall>seg. w_segs w u = Some seg \<longrightarrow> fields_match (seg_type seg) (ns_type n)"
    using ok unfolding wseg_ok_def by (elim conjE exE)
  have "\<forall>seg. w_segs ?w u = Some seg \<longrightarrow> fields_match (seg_type seg) (ns_type n)"
    using ut(7) f ut(1) by (cases "u = s") auto
  moreover have "w_txns w t = None \<longrightarrow> w_segs ?w u = None" using ut(6) g by auto
  moreover have "a < w_next w" "\<forall>h. ns_txn_lock n = Some h \<longrightarrow> h < w_next w \<and>
      (\<forall>x. w_handles w h = Some x \<longrightarrow> ns_transaction n = Some (nt_txn x))"
    using ok unfolding wseg_ok_def by blast+
  ultimately show ?thesis unfolding wseg_ok_def seg using ut(1-5) by (intro conjI exI) (simp_all del: fun_upd_apply)
qed

lemma set_type_keep:
  assumes u: "upd_seg s (\<lambda>g. g\<lparr>seg_type := T\<rparr>) w = Some w'"
    and f: "\<And>a n. sdk_ok w \<Longrightarrow> w_wsegs w a = Some n \<Longrightarrow> ns_segment n = Some s \<Longrightarrow> fields_match T (ns_type n)"
  shows "keep w w'"
proof -
  obtain g where g: "w_segs w s = Some g" "w' = w\<lparr>w_segs := (w_segs w)(s \<mapsto> g\<lparr>seg_type := T\<rparr>)\<rparr>" using u by (auto simp: upd_seg_def)
  have "sdk_ok w'" if ok: "sdk_ok w"
  proof -
    have "same_shape w w'" using u by (rule same_shape_upd_seg) (simp add: seg_shape_def)
    then have "segments_ok w'" using segments_ok_shape sdk_okD(1) [OF ok] by blast
    moreover have "wseg_ok w' a n" if "w_wsegs w a = Some n" for a n
      unfolding g(2) using f [OF ok that] by (intro wseg_ok_type [OF sdk_okD(4) [OF ok that] g(1)]) blast
    moreover have "handles_ok w'" using sdk_okD(3) [OF ok] by (simp add: handles_ok_def g(2))
    ultimately show ?thesis using sdk_okD(2) [OF ok] by (simp add: sdk_ok_def g(2))
  qed
  then show ?thesis by (simp add: keep_def g(2))
qed

lemma set_fields_keep:
  assumes "upd_wseg a (\<lambda>n. n\<lparr>ns_type := fs\<rparr>) w = Some w'"
    and "\<And>n s g. w_wsegs w a = Some n \<Longrightarrow> ns_segment n = Some s \<Longrightarrow> w_segs w s = Some g \<Longrightarrow> fields_match (seg_type g) fs"
  shows "keep w w'"
  using assms(1)
proof (rule upd_wseg_keep)
  fix n assume n: "w_wsegs w a = Some n" "wseg_ok w a n"
  then show "wseg_ok w a (n\<lparr>ns_type := fs\<rparr>)" using assms(2) [OF n(1)] unfolding wseg_ok_def by auto
qed

lemma remove_wseg_keep: "keep w (w\<lparr>w_wsegs := (w_wsegs w)(a := None)\<rparr>)"
proof (rule keepI)
  assume ok: "sdk_ok w"
  let ?w = "w\<lparr>w_wsegs := (w_wsegs w)(a := None)\<rparr>"
  have "same_shape w ?w" by (simp add: same_shape_def)
  then have "segments_ok ?w" using segments_ok_shape sdk_okD(1) [OF ok] by blast
  moreover have "wseg_ok ?w b n" if "w_wsegs w b = Some n" for b n
    using sdk_okD(4) [OF ok that] by (rule wseg_ok_cong) (auto simp: seg_of_def)
  ultimately show "sdk_ok ?w" using sdk_okD(2,3) [OF ok] by (simp add: sdk_ok_def handles_ok_def)
qed simp

end
