(* ===== verification/Sdk_Api.thy ===== *)
theory Sdk_Api
  imports Sdk_Calls
begin

text \<open>
  Every call of the API keeps the invariant and leaves every lock as it found it; a process that starts
  with nothing and makes any sequence of calls stays well formed.
\<close>

section \<open>segment.c, datastore.c, external.c\<close>

lemma newrelic_segment_destroy_keep:
  assumes "newrelic_segment_destroy p w = Some (q, w')"
  shows "keep w w'"
proof (cases "w' = w")
  case False
  then obtain a w1 where "w1 = w \<or> upd_wseg a (\<lambda>s. s\<lparr>ns_type := No_fields\<rparr>) w = Some w1"
    and w': "w' = w1\<lparr>w_wsegs := (w_wsegs w1)(a := None)\<rparr>"
    using assms unfolding newrelic_segment_destroy_def newrelic_destroy_datastore_segment_fields_def
      newrelic_destroy_external_segment_fields_def
    by (auto split: option.splits Option.bind_splits nr_segment_type_t.splits)
  then have "keep w w1" by (auto intro: set_fields_keep)
  then show ?thesis unfolding w' by (rule keep_trans [OF _ remove_wseg_keep])
qed simp

lemma lock_wseg_keep:
  assumes "upd_wseg a (\<lambda>s. s\<lparr>ns_txn_lock := Some h\<rparr>) w = Some w'" "w_handles w h = Some x"
    and "\<And>n. w_wsegs w a = Some n \<Longrightarrow> ns_transaction n = Some (nt_txn x)"
  shows "keep w w'"
  using assms(1)
proof (rule upd_wseg_keep)
  fix n assume n: "w_wsegs w a = Some n" "sdk_ok w" "wseg_ok w a n"
  have "h < w_next w" using sdk_okD(3) [OF n(2)] assms(2) by (auto simp: handles_ok_def)
  then show "wseg_ok w a (n\<lparr>ns_txn_lock := Some h\<rparr>)" using n(3) assms(2) assms(3) [OF n(1)] unfolding wseg_ok_def by auto
qed

lemma unlock_wsegs: "nrt_mutex_unlock lk w = Some w' \<Longrightarrow> w_wsegs w' = w_wsegs w"
  by (auto simp: nrt_mutex_unlock_def upd_handle_def split: option.splits)

lemma lock_ok: "nrt_mutex_lock lk w = Some w' \<Longrightarrow> sdk_ok w \<Longrightarrow> sdk_ok w'"
  using lock_eq [of _ w w'] by (cases lk) (fastforce simp: nrt_mutex_lock_def intro: sdk_ok_handles)+

lemma newrelic_start_segment_keep:
  assumes "newrelic_start_segment e tr name category w = Some (r, w')"
  shows "keep w w'"
proof (cases tr)
  case None
  then show ?thesis using assms by (simp add: newrelic_start_segment_def)
next
  case (Some h)
  from assms obtain x w1 a w2 w3 w4 m n where x: "w_handles w h = Some x" and
    w1: "nrt_mutex_lock (Some h) w = Some w1" and w2: "newrelic_segment_create e (Some (nt_txn x)) w1 = Some (Some a, w2)" and
    w3: "\<exists>b. nr_segment_set_name n (Some m) w2 = Some (b, w3)" and w4: "nrt_mutex_unlock (Some h) w3 = Some w4" and
    w': "upd_wseg a (\<lambda>s. s\<lparr>ns_txn_lock := Some h\<rparr>) w4 = Some w'"
    unfolding newrelic_start_segment_def Some option.case Let_def
    by (elim bindE, clarsimp split: option.splits) (elim bindE, clarsimp, blast)
  from w3 have i: "inner w2 w3" by (auto dest: keeps)
  have k: "keep w w4" using w1 keep_trans [OF newrelic_segment_create_keep [OF w2] inner_keep [OF i]] w4 by (rule lock_bracket)
  have "keep w4 w'" if ok: "sdk_ok w"
    using w'
  proof (rule lock_wseg_keep)
    show "w_handles w4 h = Some x" using k x by (simp add: keep_def)
    show "ns_transaction n = Some (nt_txn x)" if "w_wsegs w4 a = Some n" for n
      using newrelic_segment_create_new [OF w2 lock_ok [OF w1 ok]] that i unlock_wsegs [OF w4] by (auto simp: inner_def)
  qed
  moreover have "w_handles w' = w_handles w4" using w' by (auto simp: upd_wseg_def)
  ultimately show ?thesis using k by (auto simp: keep_def)
qed

lemma set_parent_chain:
  assumes w: "nrt_mutex_lock lk w = Some w1" "newrelic_add_api_supportability_metric t n w1 = Some w2"
      "w_wsegs w2 p = Some m" "nr_segment_set_parent s (ns_segment m) w2 = Some (r, w3)" "nrt_mutex_unlock lk w3 = Some w'"
    and ok: "sdk_ok w"
  shows "keep w w'"
proof -
  have "inner w1 w2" using w(2) by (rule keeps)
  then have "sdk_ok w2" using lock_ok [OF w(1) ok] by (simp add: inner_def keep_def)
  then obtain q where "ns_segment m = Some q" using sdk_okD(4) [OF _ w(3)] by (auto simp: wseg_ok_def)
  then have "inner w2 w3" using w(4) keeps by simp
  then show ?thesis using lock_bracket [OF w(1) _ w(5)] inner_trans [OF \<open>inner w1 w2\<close>] inner_keep by blast
qed

lemma newrelic_set_segment_parent_keep:
  assumes "newrelic_set_segment_parent a b w = Some (r, w')" "sdk_ok w"
  shows "keep w w'"
  using assms(1) unfolding newrelic_set_segment_parent_def
  by (auto elim!: bindE split: option.splits if_splits) (rule set_parent_chain [OF _ _ _ _ _ assms(2)])

lemma newrelic_set_segment_parent_root_keep:
  assumes "newrelic_set_segment_parent_root a w = Some (r, w')"
  shows "keep w w'"
  using assms unfolding newrelic_set_segment_parent_root_def
  by (auto elim!: bindE split: option.splits)
    (rule lock_bracket, assumption, rule inner_keep, rule inner_trans, erule keeps, erule keeps, assumption)

lemma newrelic_set_segment_timing_keep:
  assumes "newrelic_set_segment_timing a st d w = Some (r, w')"
  shows "keep w w'"
  using assms unfolding newrelic_set_segment_timing_def
  by (auto elim!: bindE split: option.splits)
    (rule lock_bracket, assumption, rule inner_keep, erule keeps, assumption)

text \<open>A typed segment: the type and the fields of the fresh segment are set together.\<close>

lemma typed_start_keep:
  assumes w1: "nrt_mutex_lock (Some h) w = Some w1" and w2: "newrelic_segment_create e (Some t) w1 = Some (q, w2)"
    and w3: "(case q of None \<Rightarrow> Some w2
      | Some a \<Rightarrow> do {
          s \<leftarrow> w_wsegs w2 a;
          seg \<leftarrow> ns_segment s;
          w \<leftarrow> upd_seg seg (\<lambda>s. s\<lparr>seg_type := T\<rparr>) w2;
          upd_wseg a (\<lambda>s. s\<lparr>ns_type := fs\<rparr>) w
        }) = Some w3"
    and w4: "nrt_mutex_unlock (Some h) w3 = Some w4" and f: "fields_match T fs"
  shows "keep w w4"
proof (cases q)
  case None
  then show ?thesis using lock_bracket [OF w1 newrelic_segment_create_keep [OF w2]] w3 w4 by simp
next
  case (Some a)
  then obtain n s u where n: "w_wsegs w2 a = Some n" "ns_segment n = Some s" and u: "upd_seg s (\<lambda>s. s\<lparr>seg_type := T\<rparr>) w2 = Some u"
    and w3': "upd_wseg a (\<lambda>s. s\<lparr>ns_type := fs\<rparr>) u = Some w3"
    using w3 by (auto split: Option.bind_splits)
  have k3: "keep u w3" using w3'
  proof (rule set_fields_keep)
    fix n' s' g assume "w_wsegs u a = Some n'" "ns_segment n' = Some s'" "w_segs u s' = Some g"
    then have "s' = s" "seg_type g = T" using u n by (auto simp: upd_seg_def)
    then show "fields_match (seg_type g) fs" using f by simp
  qed
  have "keep w1 w3"
  proof (rule keepI)
    assume ok: "sdk_ok w1"
    obtain s' where new: "w_wsegs w2 a = Some \<lparr>ns_segment = Some s', ns_transaction = Some t, ns_txn_lock = None, ns_type = No_fields\<rparr>"
        "\<forall>b n. w_wsegs w2 b = Some n \<longrightarrow> ns_segment n = Some s' \<longrightarrow> b = a"
      using newrelic_segment_create_new [OF w2 [unfolded Some] ok] by blast
    have "keep w2 u" using u
    proof (rule set_type_keep)
      fix b m assume "w_wsegs w2 b = Some m" "ns_segment m = Some s"
      then have "b = a" using new n by auto
      then show "fields_match T (ns_type m)" using \<open>w_wsegs w2 b = Some m\<close> new(1) by auto
    qed
    then show "sdk_ok w3" using ok newrelic_segment_create_keep [OF w2] k3 by (simp add: keep_def)
  next
    have "w_handles u = w_handles w2" using u by (auto simp: upd_seg_def)
    then show "w_handles w3 = w_handles w1" using newrelic_segment_create_keep [OF w2] k3 by (simp add: keep_def)
  qed
  then show ?thesis using lock_bracket [OF w1 _ w4] by blast
qed

lemma newrelic_start_datastore_segment_keep:
  assumes "newrelic_start_datastore_segment e tr ps w = Some (r, w')"
  shows "keep w w'"
proof (cases "\<exists>h p. tr = Some h \<and> ps = Some p")
  case True
  then obtain h p where [simp]: "tr = Some h" "ps = Some p" by blast
  show ?thesis
    using assms unfolding newrelic_start_datastore_segment_def
    by (simp split: if_splits) (elim bindE, clarsimp elim!: bindE, rule typed_start_keep, assumption+, simp)
next
  case False
  then show ?thesis using assms unfolding newrelic_start_datastore_segment_def by (cases tr; cases ps) auto
qed

lemma newrelic_start_external_segment_keep:
  assumes "newrelic_start_external_segment e tr ps w = Some (r, w')"
  shows "keep w w'"
proof (cases "\<exists>h p. tr = Some h \<and> ps = Some p")
  case True
  then obtain h p where [simp]: "tr = Some h" "ps = Some p" by blast
  show ?thesis
    using assms unfolding newrelic_start_external_segment_def
    by (simp split: if_splits) (elim bindE, clarsimp elim!: bindE, rule typed_start_keep, assumption+, simp)
next
  case False
  then show ?thesis using assms unfolding newrelic_start_external_segment_def by (cases tr; cases ps) auto
qed

lemma newrelic_end_datastore_segment_keep:
  assumes "newrelic_end_datastore_segment e a w = Some (r, w')"
  shows "keep w w'"
proof (cases "w' = w")
  case False
  then obtain n s g ps w1 where n: "w_wsegs w a = Some n" "ns_segment n = Some s" and g: "w_segs w s = Some g" "seg_type g = NR_SEGMENT_DATASTORE"
    and w1: "nr_segment_datastore_end e (Some s) ps w = Some w1" and w': "upd_wseg a (\<lambda>s. s\<lparr>ns_type := No_fields\<rparr>) w1 = Some w'"
    using assms unfolding newrelic_end_datastore_segment_def newrelic_destroy_datastore_segment_fields_def deref_def Let_def
    by (auto split: Option.bind_splits if_splits option.splits)
  have "inner w w1" using w1 by (rule nr_segment_datastore_end_inner) (use g in simp)
  moreover have "keep w1 w'" using w' by (rule set_fields_keep) simp
  ultimately show ?thesis using inner_keep keep_trans by blast
qed simp

lemma newrelic_end_external_segment_keep:
  assumes "newrelic_end_external_segment e a w = Some (r, w')"
  shows "keep w w'"
proof (cases "w' = w")
  case False
  then obtain n s g ps w1 b where n: "w_wsegs w a = Some n" "ns_segment n = Some s" and g: "w_segs w s = Some g" "seg_type g = NR_SEGMENT_EXTERNAL"
    and w1: "nr_segment_external_end e (Some s) ps w = Some (b, w1)" and w': "upd_wseg a (\<lambda>s. s\<lparr>ns_type := No_fields\<rparr>) w1 = Some w'"
    using assms unfolding newrelic_end_external_segment_def newrelic_destroy_external_segment_fields_def deref_def Let_def
    by (auto split: Option.bind_splits if_splits option.splits)
  have "inner w w1" using w1 by (rule nr_segment_external_end_inner) (use g in simp)
  moreover have "keep w1 w'" using w' by (rule set_fields_keep) simp
  ultimately show ?thesis using inner_keep keep_trans by blast
qed simp

lemma end_segment_switch_keep:
  assumes "end_segment_switch e a n t w = Some w'"
  shows "keep w w'"
proof -
  obtain g where g: "deref (w_segs w) (ns_segment n) = Some g" using assms by (auto simp: end_segment_switch_def split: Option.bind_splits)
  show ?thesis
  proof (cases "seg_type g")
    case NR_SEGMENT_CUSTOM
    then obtain b w1 c m where "nr_segment_end (ns_segment n) (env_now e) w = Some (b, w1)"
        "nr_segment_add_metric (ns_segment n) m True w1 = Some (c, w')"
      using assms g by (auto simp: end_segment_switch_def split: Option.bind_splits)
    then show ?thesis using inner_trans inner_keep by (blast dest: nr_segment_end_inner nr_segment_add_metric_inner)
  next
    case NR_SEGMENT_DATASTORE
    then show ?thesis using assms g newrelic_end_datastore_segment_keep by (auto simp: end_segment_switch_def split: Option.bind_splits)
  next
    case NR_SEGMENT_EXTERNAL
    then show ?thesis using assms g newrelic_end_external_segment_keep by (auto simp: end_segment_switch_def split: Option.bind_splits)
  qed
qed

lemma newrelic_end_segment_keep:
  assumes "newrelic_end_segment e tr p w = Some (r, q, w')"
  shows "keep w w'"
proof (cases "\<exists>a. p = Some (Some a)")
  case True
  then obtain a where [simp]: "p = Some (Some a)" by blast
  from assms obtain n w1 where s: "end_segment_status e tr a n w = Some (r, w1)" and d: "newrelic_segment_destroy p w1 = Some (q, w')"
    by (auto simp: newrelic_end_segment_def split: Option.bind_splits)
  have "keep w w1"
  proof (cases "w1 = w")
    case False
    then obtain h t u v where "nrt_mutex_lock (Some h) w = Some u" "end_segment_switch e a n t u = Some v" "nrt_mutex_unlock (Some h) v = Some w1"
      using s by (auto simp: end_segment_status_def split: option.splits Option.bind_splits if_splits)
    then show ?thesis using lock_bracket end_segment_switch_keep by blast
  qed simp
  then show ?thesis using newrelic_segment_destroy_keep [OF d] by (rule keep_trans)
next
  case False
  then show ?thesis using assms by (auto simp: newrelic_end_segment_def split: option.splits)
qed

section \<open>Calls on a transaction\<close>

lemma on_locked_txn_keep:
  assumes "on_locked_txn h f w = Some (r, w')"
    and "\<And>x r y. f x = Some (r, y) \<Longrightarrow> txn_shape y = txn_shape x \<and> (txn_data_ok x \<longrightarrow> txn_data_ok y)"
  shows "keep w w'"
proof -
  obtain t w1 x y w2 where w: "nrt_mutex_lock (Some h) w = Some w1" "w_txns w1 t = Some x" "f x = Some (r, y)"
      "upd_txn t (\<lambda>_. y) w1 = Some w2" "nrt_mutex_unlock (Some h) w2 = Some w'"
    using assms(1) by (auto simp: on_locked_txn_def split: Option.bind_splits)
  have "inner w1 w2" using w(4) by (rule upd_txn_inner) (use w(2) assms(2) [OF w(3)] in simp)
  then show ?thesis using lock_bracket [OF w(1) inner_keep w(5)] by simp
qed

lemma newrelic_notice_error_keep:
  assumes "newrelic_notice_error e tr p m c w = Some w'"
  shows "keep w w'"
proof (cases "w' = w")
  case False
  then obtain h r where "on_locked_txn h (\<lambda>x. Some ((), notice_error_locked e p m c x)) w = Some (r, w')"
    using assms unfolding newrelic_notice_error_def by (auto split: option.splits if_splits)
  then show ?thesis
    by (rule on_locked_txn_keep) (auto simp: notice_error_locked_def nr_txn_record_error_def plain_simps Let_def)
qed simp

lemma nr_txn_add_user_custom_parameter_ok:
  assumes "nr_txn_add_user_custom_parameter x (Some k) (Some v) = (r, y)"
  shows "txn_shape y = txn_shape x \<and> (txn_data_ok x \<longrightarrow> txn_data_ok y)"
proof (cases "tx_high_security x \<or> \<not> opt_custom_parameters_enabled (tx_options x)")
  case False
  obtain r' ats where a: "nr_attributes_user_add (Some (tx_attributes x)) NR_ATTRIBUTE_DESTINATION_ALL (Some k) (Some v) = (r', ats)"
    by fastforce
  then have y: "y = (case ats of None \<Rightarrow> x | Some a \<Rightarrow> x\<lparr>tx_attributes := a\<rparr>)"
    using assms False by (simp add: nr_txn_add_user_custom_parameter_def)
  have "attributes_ok a'" if "attributes_ok (tx_attributes x)" "ats = Some a'" for a'
    using user_add_ok [OF that(1), where k = k and v = v and default_destinations = NR_ATTRIBUTE_DESTINATION_ALL] a that(2)
    by (auto split: if_splits)
  then show ?thesis unfolding y by (auto simp: plain_simps split: option.splits)
next
  case True
  then have "y = x" using assms by (simp add: nr_txn_add_user_custom_parameter_def split: if_splits)
  then show ?thesis by simp
qed

lemma newrelic_add_attribute_keep:
  assumes "newrelic_add_attribute tr k v w = Some (r, w')"
  shows "keep w w'"
proof (cases tr)
  case (Some h)
  show ?thesis
    using assms unfolding newrelic_add_attribute_def Some option.case
    by (rule on_locked_txn_keep) (auto split: if_splits prod.splits dest: nr_txn_add_user_custom_parameter_ok)
qed (use assms in \<open>simp add: newrelic_add_attribute_def\<close>)

lemma custom_event_locked_keep:
  "on_locked_txn h (\<lambda>x. Some ((), nr_txn_record_custom_event e x n ps)) w = Some (r, w') \<Longrightarrow> keep w w'"
  by (erule on_locked_txn_keep)
    (auto simp: nr_txn_record_custom_event_def nr_txn_record_custom_event_internal_def plain_simps)

lemma newrelic_record_custom_event_keep:
  "newrelic_record_custom_event e tr ev w = Some (q, w') \<Longrightarrow> keep w w'"
  by (auto simp: newrelic_record_custom_event_def elim!: bindE split: option.splits intro: custom_event_locked_keep)

lemma newrelic_record_custom_metric_keep:
  assumes "newrelic_record_custom_metric tr n d w = Some (r, w')"
  shows "keep w w'"
proof (cases "w' = w")
  case False
  then obtain h q where o: "on_locked_txn h (\<lambda>x. nr_txn_add_custom_metric x n d) w = Some (q, w')"
    using assms unfolding newrelic_record_custom_metric_def by (auto split: option.splits Option.bind_splits if_splits)
  show ?thesis using o
  proof (rule on_locked_txn_keep)
    fix x q y assume m: "nr_txn_add_custom_metric x n d = Some (q, y)"
    show "txn_shape y = txn_shape x \<and> (txn_data_ok x \<longrightarrow> txn_data_ok y)"
    proof (cases "y = x")
      case False
      then obtain s v table where t: "n = Some s" "nrm_add (tx_unscoped_metrics x) n v = Some table" "y = x\<lparr>tx_unscoped_metrics := table\<rparr>"
        using m unfolding nr_txn_add_custom_metric_def by (auto split: if_splits c_double.splits Option.bind_splits)
      have "table_ok table" if "table_ok (tx_unscoped_metrics x)" using nrm_add_ok [OF that, of s v] t(1,2) by auto
      then show ?thesis unfolding t(3) by (auto simp: plain_simps)
    qed simp
  qed
qed simp

end
