(* ===== verification/Sdk_Example.thy ===== *)
theory Sdk_Example
  imports Api_Transaction
begin

text \<open>
  A process with one transaction, as \<open>newrelic_start_transaction\<close> leaves it, for the concrete instances of
  the theorems on the API: the application is connected, distributed tracing is on, and the daemon has
  sent the account.  The transaction is at address 0, its root segment at 1 and its handle at 2.
\<close>

definition demo_env :: sdk_env where
  "demo_env = \<lparr>env_now = 5000, env_mutex_init_ok = True, env_version = ''1.0'', env_hostname = ''web1'',
     env_guid = (\<lambda>n. replicate (Suc n) (CHR ''a'')), env_sampled = True, env_priority = (\<lambda>_. Finite 1 0), env_replace_idx = 0,
     env_backtrace = None, env_to_json = (\<lambda>_. []), env_from_json = (\<lambda>_. None), env_app_rules = None,
     env_finalise = (\<lambda>x _. x), env_daemon_accepts = (\<lambda>_. True), env_sql_operation_and_table = (\<lambda>_. (None, None))\<rparr>"

definition demo_reply :: app_reply where
  "demo_reply = \<lparr>rp_connect_reply = Some (NR_OBJECT_HASH [(''trusted_account_key'', NR_OBJECT_STRING ''1''),
       (''account_id'', NR_OBJECT_STRING ''2''), (''primary_application_id'', NR_OBJECT_STRING ''3''),
       (''collect_traces'', NR_OBJECT_INT 1), (''collect_errors'', NR_OBJECT_INT 1)]),
     rp_security_policies = None, rp_limit_analytics_events = 10, rp_limit_custom_events = 10,
     rp_limit_error_events = 10, rp_limit_span_events = 10\<rparr>"

definition demo_config :: newrelic_app_config where
  "demo_config = set_config_defaults (zero_app_config\<lparr>cfg_app_name := ''shop'' @ zero_array 251,
     cfg_license_key := replicate 40 (CHR ''a'') @ zero_array 215\<rparr>)\<lparr>cfg_distributed_tracing := \<lparr>dtc_enabled = True\<rparr>\<rparr>"

definition demo_app :: newrelic_app where
  "demo_app = \<lparr>na_app = Some 0, na_app_info = None, na_config = Some demo_config, na_lock_ready = True\<rparr>"

definition demo_agent :: agent where
  "demo_agent = agent_demo\<lparr>g_applist := Some [\<lparr>ap_info = zero_app_info, ap_state = NR_APP_OK, ap_locked = False\<rparr>]\<rparr>"

definition demo_opts :: nrtxnopt where
  "demo_opts = the (txn_options (newrelic_get_transaction_options (Some demo_config)) demo_reply)"

lemma demo_apdex: "us_of_seconds (Finite 1 (- 1)) = Some 500000"
  by (simp add: us_of_seconds_def double_of_ratio_def bit_len.simps scaled_def round_half_even_def double_to_u64_def Let_def)

lemmas txn_options_eval = txn_options_def nr_txn_enforce_security_settings_def nr_reply_get_bool_def nr_reply_get_double_def
  nro_get_hash_value_def nro_get_ival_def demo_reply_def demo_apdex newrelic_get_transaction_options_def
  newrelic_get_default_options_def set_config_defaults_def demo_config_def

lemma demo_opts_txn: "txn_options (newrelic_get_transaction_options (Some demo_config)) demo_reply = Some demo_opts"
  by (simp add: demo_opts_def) (simp add: txn_options_eval)

definition demo_dt :: nr_distributed_trace where
  "demo_dt = nr_distributed_trace_create\<lparr>dt_txn_id := Some ''a'', dt_trace_id := Some ''a'',
     dt_trusted_key := Some ''1'', dt_account_id := Some ''2'', dt_app_id := Some ''3'',
     dt_sampled := True, dt_priority := Finite 1 0\<rparr>"

definition demo_txn :: nrtxn where
  "demo_txn = (new_txn 5000 demo_opts None demo_reply)\<lparr>
     tx_status := \<lparr>st_path_is_frozen = False, st_path_type = NR_PATH_TYPE_ACTION, st_ignore = False,
        st_background = False, st_recording = True, st_complete = False\<rparr>,
     tx_default_parent_stack := [1], tx_segment_root := Some 1, tx_path := Some ''login'',
     tx_app_connect_reply := rp_connect_reply demo_reply, tx_distributed_trace := demo_dt\<rparr>"

definition demo_root :: nr_segment where
  "demo_root = zero_segment\<lparr>seg_txn := Some 0, seg_priority := NR_SEGMENT_PRIORITY_ROOT\<rparr>"

definition demo_world :: world where
  "demo_world = \<lparr>w_txns = [0 \<mapsto> demo_txn], w_segs = [1 \<mapsto> demo_root],
     w_handles = [2 \<mapsto> \<lparr>nt_txn = 0, nt_locked = False\<rparr>], w_wsegs = (\<lambda>_. None), w_next = 3, w_guid_count = 1, w_sent = []\<rparr>"

lemma demo_reply_strings:
  "nro_get_hash_string (rp_connect_reply demo_reply) ''trusted_account_key'' = Some ''1''"
  "nro_get_hash_string (rp_connect_reply demo_reply) ''account_id'' = Some ''2''"
  "nro_get_hash_string (rp_connect_reply demo_reply) ''primary_application_id'' = Some ''3''"
  by (simp_all add: nro_get_hash_string_def nro_get_hash_value_def demo_reply_def)

lemma demo_start:
  "newrelic_start_transaction demo_env demo_reply None (Some demo_app) (Some ''login'') True (demo_agent, empty_world) =
     Some (Some 2, demo_agent, demo_world)"
proof -
  have app: "app_at (Some 0) demo_agent = Some \<lparr>ap_info = zero_app_info, ap_state = NR_APP_OK, ap_locked = False\<rparr>"
    by (simp add: app_at_def demo_agent_def)
  have cons: "nr_app_consider_appinfo None (Some 0) demo_agent = demo_agent" by (simp add: nr_app_consider_appinfo_def)
  show ?thesis
    unfolding newrelic_start_transaction_def
    apply (simp add: demo_app_def demo_env_def app cons nr_txn_begin_def demo_opts_txn demo_reply_strings)
    apply (simp add: nr_segment_start_def nr_segment_init_def empty_world_def upd_seg_def upd_txn_def nr_txn_get_current_segment_def
      new_txn_def stack_top_def nr_txn_set_current_segment_def push_current_def Let_def nr_segment_set_priority_flag_def
      zero_app_info_def nr_strempty_def nr_guid_create_def nr_txn_set_path_def nr_txn_set_as_web_transaction_def
      nr_txn_change_background_status_def zero_segment_def nr_txn_start_time_def nr_time_duration_def)
    apply (simp add: demo_world_def demo_txn_def demo_root_def demo_dt_def new_txn_def zero_segment_def demo_reply_strings fun_eq_iff)
    done
qed

end
