(* ===== verification/Sdk_Reachable.thy ===== *)
theory Sdk_Reachable
  imports Sdk_Api Sdk_Example
begin

text \<open>
  Starting and ending transactions, and the invariant of every process that uses the SDK: \<open>sdk_step\<close> is one
  call of the API, made with any arguments and any answers of the surroundings, that returns.
\<close>

section \<open>Simple calls on a transaction\<close>

lemma locked_inner_keep:
  "nrt_mutex_lock lk w = Some w1 \<Longrightarrow> inner w1 w2 \<Longrightarrow> nrt_mutex_unlock lk w2 = Some w' \<Longrightarrow> keep w w'"
  using lock_bracket inner_keep by blast

lemma newrelic_set_transaction_timing_keep:
  "newrelic_set_transaction_timing tr a d w = Some (r, w') \<Longrightarrow> keep w w'"
  by (auto simp: newrelic_set_transaction_timing_def elim!: bindE split: option.splits)
    (rule locked_inner_keep, assumption, rule inner_trans, erule keeps, erule keeps, assumption)

lemma newrelic_ignore_transaction_keep: "newrelic_ignore_transaction tr w = Some (r, w') \<Longrightarrow> keep w w'"
  by (auto simp: newrelic_ignore_transaction_def elim!: bindE split: option.splits intro: inner_keep keeps)

lemma newrelic_set_transaction_name_keep: "newrelic_set_transaction_name tr n w = Some (r, w') \<Longrightarrow> keep w w'"
  by (auto simp: newrelic_set_transaction_name_def elim!: bindE split: option.splits if_splits intro: inner_keep keeps)

lemma newrelic_create_distributed_trace_payload_keep:
  "newrelic_create_distributed_trace_payload e tr s w = Some (r, w') \<Longrightarrow> keep w w'"
  by (auto simp: newrelic_create_distributed_trace_payload_def elim!: bindE split: option.splits)
    (rule locked_inner_keep, assumption, erule keeps, assumption)+

lemma newrelic_create_distributed_trace_payload_httpsafe_keep:
  "newrelic_create_distributed_trace_payload_httpsafe e tr s w = Some (r, w') \<Longrightarrow> keep w w'"
  by (auto simp: newrelic_create_distributed_trace_payload_httpsafe_def elim!: bindE
      intro: newrelic_create_distributed_trace_payload_keep)

lemma newrelic_accept_distributed_trace_payload_keep:
  "newrelic_accept_distributed_trace_payload e tr p tt w = Some (r, w') \<Longrightarrow> keep w w'"
  by (auto simp: newrelic_accept_distributed_trace_payload_def elim!: bindE split: option.splits)
    (rule locked_inner_keep, assumption, erule keeps, assumption)

lemma newrelic_accept_distributed_trace_payload_httpsafe_keep:
  "newrelic_accept_distributed_trace_payload_httpsafe e tr p tt w = Some (r, w') \<Longrightarrow> keep w w'"
  by (auto simp: newrelic_accept_distributed_trace_payload_httpsafe_def elim!: bindE split: option.splits)
    (rule locked_inner_keep, assumption, erule keeps, assumption)

section \<open>Starting a transaction\<close>

lemma add_txn_ok:
  assumes ok: "sdk_ok w" and x: "txn_data_ok x" "txn_shape x = ([], \<lambda>_. None, None)"
  shows "sdk_ok (w\<lparr>w_next := Suc (w_next w), w_txns := (w_txns w)(w_next w \<mapsto> x)\<rparr>)" (is "sdk_ok ?w")
proof -
  have same: "parent_of ?w = parent_of w" "seg_of ?w = seg_of w" "up ?w = up w"
    by (simp_all add: parent_of_def seg_of_def up_def fun_eq_iff)
  have none: "w_txns w (w_next w) = None" using fresh(2) [OF sdk_okD(1) [OF ok]] .
  have live: "w_txns w t \<noteq> None \<Longrightarrow> w_txns ?w t \<noteq> None" for t by simp
  have "seg_ok ?w s g" if "w_segs w s = Some g" for s g
    using segments_okD(1) [OF sdk_okD(1) [OF ok] that] live unfolding seg_ok_def same
    by (simp del: fun_upd_apply) (metis less_SucI)
  moreover have "txn_ok ?w t y" if "w_txns ?w t = Some y" for t y
    using that segments_okD(3) [OF sdk_okD(1) [OF ok], of t y] x(2)
    by (cases "t = w_next w") (auto simp: txn_ok_def same txn_shape_def)
  ultimately have "segments_ok ?w" using segments_okD(2) [OF sdk_okD(1) [OF ok]] by (simp add: segments_ok_def same)
  moreover have "handles_ok ?w" using sdk_okD(3) [OF ok] unfolding handles_ok_def by (auto simp: less_Suc_eq)
  moreover have "wseg_ok ?w a m" if "w_wsegs w a = Some m" for a m
    using sdk_okD(4) [OF ok that] by (rule wseg_ok_cong) (use none in \<open>auto simp: seg_of_def\<close>)
  moreover have "txn_data_ok y" if "w_txns ?w t = Some y" for t y
    using that sdk_okD(2) [OF ok, of t y] x(1) by (cases "t = w_next w") simp_all
  ultimately show ?thesis by (simp add: sdk_ok_def)
qed

lemma set_root_keep:
  assumes u: "upd_txn t (\<lambda>x. x\<lparr>tx_segment_root := Some r\<rparr>) w = Some w'" and r: "seg_of w t r"
  shows "keep w w'"
proof (rule keepI)
  obtain x where x: "w_txns w t = Some x" "w' = w\<lparr>w_txns := (w_txns w)(t \<mapsto> x\<lparr>tx_segment_root := Some r\<rparr>)\<rparr>"
    using u by (auto simp: upd_txn_def)
  show "w_handles w' = w_handles w" by (simp add: x(2))
  assume ok: "sdk_ok w"
  have "segments_ok w'" unfolding x(2) by (rule segments_ok_stacks [OF sdk_okD(1) [OF ok] x(1)]) (use r in auto)
  moreover have "handles_ok w'" using sdk_okD(3) [OF ok] by (simp add: handles_ok_def x(2))
  moreover have "wseg_ok w' a n" if "w_wsegs w a = Some n" for a n
    by (rule wseg_ok_cong [OF sdk_okD(4) [OF ok that]]) (use x in \<open>auto simp: seg_of_def\<close>)
  moreover have "txn_data_ok y" if "w_txns w' v = Some y" for v y
    using sdk_okD(2) [OF ok] that x by (cases "v = t") (auto simp: txn_data_ok_def)
  ultimately show "sdk_ok w'" by (simp add: sdk_ok_def x(2))
qed

lemma new_txn_ok: "txn_data_ok (new_txn now opts ac reply)" "txn_shape (new_txn now opts ac reply) = ([], \<lambda>_. None, None)"
  by (simp_all add: new_txn_def txn_data_ok_def txn_shape_def pool_ok_create table_ok_create attributes_ok_create)

text \<open>The updates of \<open>nr_txn_begin\<close> after the root segment was recorded.\<close>

lemma begin_chain:
  assumes "upd_seg r (\<lambda>s. s\<lparr>seg_start_time := 0\<rparr>) w = Some w1"
    "nr_segment_set_priority_flag (Some r) NR_SEGMENT_PRIORITY_ROOT w1 = Some w2"
    "upd_txn t (\<lambda>x. x\<lparr>tx_app_connect_reply := rep\<rparr>) w2 = Some w3"
    "(if hs then upd_txn t (\<lambda>x. x\<lparr>tx_high_security := True\<rparr>) w3 else Some w3) = Some w4"
    "(if lasp then upd_txn t (\<lambda>x. x\<lparr>tx_lasp := True, tx_options := (tx_options x)\<lparr>opt_request_params_enabled := False\<rparr>\<rparr>) w4
      else Some w4) = Some w5"
    "upd_txn t (\<lambda>x. x\<lparr>tx_distributed_trace := dt\<rparr>) (w5\<lparr>w_guid_count := n\<rparr>) = Some w6"
  shows "inner w w6"
proof -
  have "inner w w1" using assms(1) by (rule upd_seg_plain) (simp add: plain_simps)
  moreover have "inner w1 w2" using assms(2) by (rule keeps)
  moreover have "inner w2 w3" using assms(3) by (rule upd_txn_plain) (simp_all add: plain_simps)
  moreover have "inner w3 w4" using assms(4) by (auto split: if_splits intro: upd_txn_plain simp: plain_simps)
  moreover have "inner w4 w5" using assms(5) by (auto split: if_splits intro: upd_txn_plain simp: plain_simps)
  moreover have "inner (w5\<lparr>w_guid_count := n\<rparr>) w6" using assms(6) by (rule upd_txn_plain) (simp_all add: plain_simps)
  ultimately show ?thesis using guid_inner [of w5 n] by (meson inner_trans)
qed

text \<open>A transaction that was begun, from the new record to the last update.\<close>

lemma begin_root_chain:
  assumes ok: "sdk_ok w" and v: "v = w\<lparr>w_next := Suc (w_next w), w_txns := (w_txns w)(w_next w \<mapsto> new_txn now opts ac reply)\<rparr>"
    and s: "nr_segment_start (Some (w_next w)) None None now' v = Some (Some r, w1)"
    and u: "upd_txn (w_next w) (\<lambda>x. x\<lparr>tx_segment_root := Some r\<rparr>) w1 = Some w2"
    and i: "inner w2 w'"
  shows "keep w w'"
proof -
  have okv: "sdk_ok v" unfolding v by (rule add_txn_ok [OF ok new_txn_ok])
  have x: "w_txns v (w_next w) = Some (new_txn now opts ac reply)" "st_recording (tx_status (new_txn now opts ac reply))"
    by (simp_all add: v new_txn_def)
  have "seg_of w1 (w_next w) r"
    using s nr_segment_start_eq [OF sdk_okD(1) [OF okv] x, of now']
    by (auto simp: seg_of_def add_leaf_def new_segment_def)
  then have "keep w1 w2" using set_root_keep [OF u] by blast
  moreover have "keep v w1" using nr_segment_start_keep(1) [OF s] .
  ultimately have "keep v w'" using inner_keep [OF i] keep_trans by blast
  then show ?thesis using okv by (simp add: keep_def v)
qed

lemma upd_txn_live: "upd_txn t f w = Some w' \<Longrightarrow> w_txns w' t \<noteq> None"
  by (auto simp: upd_txn_def)

lemma nr_txn_begin_keep:
  assumes b: "nr_txn_begin e app reply opts ac w = Some (q, w')" and ok: "sdk_ok w"
  shows "keep w w' \<and> (\<forall>t. q = Some t \<longrightarrow> t = w_next w \<and> w_txns w' t \<noteq> None)"
proof (cases "\<exists>a o'. app = Some a \<and> opts = Some o' \<and> ap_state a = NR_APP_OK")
  case True
  then obtain a o' where [simp]: "app = Some a" "opts = Some o'" "ap_state a = NR_APP_OK" by blast
  show ?thesis
    using b unfolding nr_txn_begin_def nr_guid_create_def Let_def
    apply (simp only: \<open>app = Some a\<close> \<open>opts = Some o'\<close> \<open>ap_state a = NR_APP_OK\<close> prod.case option.case simp_thms if_False)
    apply (elim bindE)
    apply (simp only: prod.case split_paired_all)
    apply (elim bindE)
    apply (simp only: option.inject prod.inject)
    apply (elim conjE)
    apply (hypsubst)
    apply (frule upd_txn_live)
    apply (drule (5) begin_chain)
    apply (drule (2) begin_root_chain [OF ok refl])
    apply (drule upd_txn_live [where w' = w'])
    apply simp
    done
next
  case False
  then have "w' = w \<and> q = None"
    using b by (cases app; cases opts) (auto simp: nr_txn_begin_def)
  then show ?thesis by simp
qed

lemma add_handle_ok:
  assumes ok: "sdk_ok w" and t: "w_txns w t \<noteq> None" "\<And>h x. w_handles w h = Some x \<Longrightarrow> nt_txn x \<noteq> t"
  shows "sdk_ok (w\<lparr>w_next := Suc (w_next w), w_handles := (w_handles w)(w_next w \<mapsto> \<lparr>nt_txn = t, nt_locked = False\<rparr>)\<rparr>)"
    (is "sdk_ok ?w")
proof -
  have same: "parent_of ?w = parent_of w" "seg_of ?w = seg_of w" "up ?w = up w"
    by (simp_all add: parent_of_def seg_of_def up_def fun_eq_iff)
  have "segments_ok ?w" using sdk_okD(1) [OF ok] unfolding segments_ok_def seg_ok_def txn_ok_def same
    by (auto simp: less_Suc_eq)
  moreover have "handles_ok ?w" using sdk_okD(3) [OF ok] t unfolding handles_ok_def by (auto simp: less_Suc_eq)
  moreover have "wseg_ok ?w a m" if "w_wsegs w a = Some m" for a m
    using sdk_okD(4) [OF ok that] by (rule wseg_ok_cong) (auto simp: seg_of_def)
  ultimately show ?thesis using sdk_okD(2) [OF ok] by (simp add: sdk_ok_def)
qed

lemma background_status_inner:
  "(if web then nr_txn_set_as_web_transaction (Some t) w else nr_txn_set_as_background_job (Some t) w) = Some w' \<Longrightarrow> inner w w'"
  by (auto simp: nr_txn_set_as_web_transaction_def nr_txn_set_as_background_job_def split: if_splits dest: keeps)

lemma newrelic_start_transaction_ok:
  assumes s: "newrelic_start_transaction e reply answer app name web (g, w) = Some (r, g', w')" and ok: "sdk_ok w"
  shows "sdk_ok w' \<and> (w_handles w' = w_handles w \<or>
    (\<exists>h t. r = Some h \<and> w_handles w' = (w_handles w)(h \<mapsto> \<lparr>nt_txn = t, nt_locked = False\<rparr>)))"
proof (cases r)
  case None
  then consider "w' = w" | a q opts where "nr_txn_begin e a reply opts None w = Some (q, w')"
    using s unfolding newrelic_start_transaction_def Let_def
    by (auto elim!: bindE split: option.splits if_splits)
  then show ?thesis using nr_txn_begin_keep [OF _ ok] ok by cases (auto simp: keep_def)
next
  case (Some h)
  then obtain a opts t w1 n q w2 where b: "nr_txn_begin e a reply opts None w = Some (Some t, w1)" and h: "h = w_next w1"
    and p: "nr_txn_set_path (Some t) n NR_PATH_TYPE_ACTION NR_OK_TO_OVERWRITE
       (w1\<lparr>w_next := Suc h, w_handles := (w_handles w1)(h \<mapsto> \<lparr>nt_txn = t, nt_locked = False\<rparr>)\<rparr>) = Some (q, w2)"
    and w': "(if web then nr_txn_set_as_web_transaction (Some t) w2 else nr_txn_set_as_background_job (Some t) w2) = Some w'"
    using s unfolding newrelic_start_transaction_def Let_def
    by (auto elim!: bindE split: option.splits if_splits)
  note k = nr_txn_begin_keep [OF b ok]
  have ok1: "sdk_ok w1" and hs: "w_handles w1 = w_handles w" using k ok by (simp_all add: keep_def)
  have "nt_txn x \<noteq> t" if "w_handles w1 h' = Some x" for h' x
  proof -
    have "w_txns w (nt_txn x) \<noteq> None" using sdk_okD(3) [OF ok] that unfolding handles_ok_def hs by blast
    moreover have "w_txns w t = None" using k fresh(2) [OF sdk_okD(1) [OF ok]] by simp
    ultimately show ?thesis by metis
  qed
  then have "sdk_ok (w1\<lparr>w_next := Suc h, w_handles := (w_handles w1)(h \<mapsto> \<lparr>nt_txn = t, nt_locked = False\<rparr>)\<rparr>)" (is "sdk_ok ?w1")
    unfolding h using k by (intro add_handle_ok [OF ok1]) blast+
  moreover have "inner ?w1 w'" using inner_trans [OF nr_txn_set_path_inner [OF p] background_status_inner [OF w']] .
  ultimately have "sdk_ok w' \<and> w_handles w' = w_handles ?w1" by (simp add: inner_def keep_def)
  then show ?thesis using Some hs by auto
qed

section \<open>Ending a transaction\<close>

definition same_base :: "nrtxn \<Rightarrow> nrtxn \<Rightarrow> bool" where
  "same_base x y \<longleftrightarrow> txn_shape y = txn_shape x \<and> (txn_data_ok x \<longrightarrow> txn_data_ok y)"

lemma same_base_refl [simp]: "same_base x x" by (simp add: same_base_def)

lemma same_base_trans: "same_base x y \<Longrightarrow> same_base y z \<Longrightarrow> same_base x z" by (simp add: same_base_def)

lemma same_base_updates [simp]:
  "same_base x (x\<lparr>tx_status := st\<rparr>)" "same_base x (x\<lparr>tx_path := p\<rparr>)" "same_base x (x\<lparr>tx_name := n\<rparr>)"
  "same_base x (x\<lparr>tx_options := opts\<rparr>)"
  by (simp_all add: same_base_def plain_simps)

lemma rules_base:
  "nr_txn_apply_url_rules rules x = (r, y) \<Longrightarrow> same_base x y"
  "nr_txn_apply_txn_rules rules x = (r, y) \<Longrightarrow> same_base x y"
  "same_base x (nr_txn_apply_segment_terms rules x)"
  "nr_txn_update_apdex_if_key_txn x = Some y \<Longrightarrow> same_base x y"
  by (auto simp: nr_txn_apply_url_rules_def nr_txn_apply_txn_rules_def nr_txn_apply_segment_terms_def
      nr_txn_update_apdex_if_key_txn_def Let_def split: option.splits nr_rules_result.splits if_splits elim!: bindE)

lemma strip_slash_base:
  "same_base x (case tx_path x of Some (c # p) \<Rightarrow> if c = CHR ''/'' then x\<lparr>tx_path := Some p\<rparr> else x | _ \<Rightarrow> x)"
  by (auto split: option.split list.split)

lemma freeze_with_app_base:
  assumes "freeze_with_app rules x = Some (r, y)"
  shows "same_base x y"
proof -
  obtain r1 x1 where x1: "(if tx_path x \<noteq> None \<and> nr_txn_should_do_url_rules (st_path_type (tx_status x)) (st_background (tx_status x))
      then nr_txn_apply_url_rules rules x else (NR_SUCCESS, x)) = (r1, x1)" by fastforce
  then have b1: "same_base x x1" using rules_base(1) [of rules x r1 x1] by (auto split: if_splits)
  show ?thesis
  proof (cases "r1 = NR_FAILURE")
    case True
    then show ?thesis using assms x1 b1 by (simp add: freeze_with_app_def Let_def)
  next
    case False
    define x2 where "x2 = (case tx_path x1 of Some (c # p) \<Rightarrow> if c = CHR ''/'' then x1\<lparr>tx_path := Some p\<rparr> else x1 | _ \<Rightarrow> x1)"
    then have b2: "same_base x x2" using same_base_trans [OF b1] strip_slash_base by simp
    have "\<exists>n. freeze_with_app rules x = (let (r3, x3) = nr_txn_apply_txn_rules rules (x2\<lparr>tx_name := Some n\<rparr>)
        in if r3 = NR_FAILURE then Some (NR_FAILURE, x3)
           else map_option (Pair NR_SUCCESS) (nr_txn_update_apdex_if_key_txn (nr_txn_apply_segment_terms rules x3)))"
      unfolding freeze_with_app_def Let_def x1 prod.case x2_def by (simp only: False if_False) (rule exI, rule refl)
    then obtain n where n: "freeze_with_app rules x = (let (r3, x3) = nr_txn_apply_txn_rules rules (x2\<lparr>tx_name := Some n\<rparr>)
        in if r3 = NR_FAILURE then Some (NR_FAILURE, x3)
           else map_option (Pair NR_SUCCESS) (nr_txn_update_apdex_if_key_txn (nr_txn_apply_segment_terms rules x3)))" ..
    obtain r3 x3 where x3: "nr_txn_apply_txn_rules rules (x2\<lparr>tx_name := Some n\<rparr>) = (r3, x3)" by fastforce
    then have y: "(if r3 = NR_FAILURE then Some (NR_FAILURE, x3)
           else map_option (Pair NR_SUCCESS) (nr_txn_update_apdex_if_key_txn (nr_txn_apply_segment_terms rules x3))) = Some (r, y)"
      using assms n by (simp add: Let_def)
    have "same_base x x3" using same_base_trans [OF b2] same_base_trans [OF _ rules_base(2) [OF x3]] same_base_updates(3) by blast
    then show ?thesis using y rules_base(3) [of x3 rules] rules_base(4) same_base_trans by (auto split: if_splits)
  qed
qed

lemma freeze_base:
  "nr_txn_freeze_name_update_apdex e x = Some (r, y) \<Longrightarrow> same_base x y"
  using same_base_trans [OF same_base_updates(1) freeze_with_app_base]
  by (auto simp: nr_txn_freeze_name_update_apdex_def Let_def split: if_splits option.splits)

text \<open>Up to the finalisation of the trace, ending a transaction keeps the invariant.\<close>

lemma nr_txn_end_cases:
  assumes "nr_txn_end e (Some t) w = Some w'"
  shows "\<exists>v. inner w v \<and> (w' = v \<or> (\<exists>y. w' = v\<lparr>w_txns := (w_txns v)(t \<mapsto> y)\<rparr>))"
proof -
  obtain x where x: "w_txns w t = Some x" using assms by (auto simp: nr_txn_end_def elim!: bindE)
  show ?thesis
  proof (cases "st_complete (tx_status x)")
    case True
    then show ?thesis using assms x by (auto simp: nr_txn_end_def)
  next
    case False
    let ?x1 = "x\<lparr>tx_status := (tx_status x)\<lparr>st_complete := True, st_recording := False\<rparr>\<rparr>"
    define w1 where "w1 = w\<lparr>w_txns := (w_txns w)(t \<mapsto> ?x1)\<rparr>"
    have u1: "upd_txn t (\<lambda>x. x\<lparr>tx_status := (tx_status x)\<lparr>st_complete := True, st_recording := False\<rparr>\<rparr>) w = Some w1"
      using x by (simp add: upd_txn_def w1_def)
    then have i1: "inner w w1" by (rule upd_txn_plain) (simp_all add: plain_simps)
    have x1: "w_txns w1 t = Some ?x1" by (simp add: w1_def)
    show ?thesis
    proof (cases "st_ignore (tx_status ?x1)")
      case True
      then show ?thesis using assms x False u1 x1 i1 by (auto simp: nr_txn_end_def)
    next
      case ig: False
      from assms x False u1 x1 ig obtain r y where f: "nr_txn_freeze_name_update_apdex e ?x1 = Some (r, y)" and
        rest: "upd_txn t (\<lambda>_. y) w1 \<bind> (\<lambda>w. if r \<noteq> NR_SUCCESS then Some w
            else nr_segment_set_name (tx_segment_root y) (tx_name y) w \<bind> (\<lambda>(_, w).
              nr_segment_end (tx_segment_root y) (env_now e) w \<bind> (\<lambda>(_, w).
                upd_txn t (\<lambda>x. env_finalise e x (w_segs w)) w))) = Some w'"
        by (auto simp: nr_txn_end_def elim!: bindE)
      define w2 where "w2 = w1\<lparr>w_txns := (w_txns w1)(t \<mapsto> y)\<rparr>"
      have u2: "upd_txn t (\<lambda>_. y) w1 = Some w2" using x1 by (simp add: upd_txn_def w2_def)
      have "inner w1 w2" using u2 by (rule upd_txn_inner) (use x1 freeze_base [OF f] in \<open>simp add: same_base_def\<close>)
      then have i2: "inner w w2" using i1 inner_trans by blast
      show ?thesis
      proof (cases "r = NR_SUCCESS")
        case False
        then show ?thesis using rest u2 i2 by auto
      next
        case True
        then obtain a w3 b w4 where "nr_segment_set_name (tx_segment_root y) (tx_name y) w2 = Some (a, w3)"
            "nr_segment_end (tx_segment_root y) (env_now e) w3 = Some (b, w4)" and
          w': "upd_txn t (\<lambda>x. env_finalise e x (w_segs w4)) w4 = Some w'"
          using rest u2 by (auto elim!: bindE)
        then have "inner w w4" using i2 inner_trans keeps by meson
        then show ?thesis using w' by (auto simp: upd_txn_def)
      qed
    qed
  qed
qed

lemma nr_txn_destroy_ok:
  assumes ok: "sdk_ok w" and x: "w_handles w h = Some x" "nt_txn x = t"
  shows "sdk_ok ((nr_txn_destroy t w)\<lparr>w_handles := (w_handles w)(h := None)\<rparr>)"
proof -
  define w2 where "w2 = (nr_txn_destroy t w)\<lparr>w_handles := (w_handles w)(h := None)\<rparr>"
  have seg: "w_segs w2 s = Some g \<longleftrightarrow> w_segs w s = Some g \<and> seg_txn g \<noteq> Some t" for s g
    by (auto simp: w2_def nr_txn_destroy_def split: option.split)
  have txn: "w_txns w2 = (w_txns w)(t := None)" and nxt: "w_next w2 = w_next w" and ws: "w_wsegs w2 = w_wsegs w"
    and hs: "w_handles w2 = (w_handles w)(h := None)" by (simp_all add: w2_def nr_txn_destroy_def)
  have segof: "seg_of w2 u s \<longleftrightarrow> u \<noteq> t \<and> seg_of w u s" for u s by (auto simp: seg_of_def seg)
  have parent: "parent_of w2 c = Some s \<longleftrightarrow> parent_of w c = Some s \<and> (\<exists>g. w_segs w c = Some g \<and> seg_txn g \<noteq> Some t)" for c s
    by (auto simp: parent_of_def w2_def nr_txn_destroy_def split: option.split)
  note sok = sdk_okD(1) [OF ok]
  have "seg_ok w2 s g" if g: "w_segs w2 s = Some g" for s g
  proof -
    have g0: "w_segs w s = Some g" "seg_txn g \<noteq> Some t" using g seg by simp_all
    note so = segments_okD(1) [OF sok g0(1), unfolded seg_ok_def]
    have "parent_of w2 c = Some s" if "c \<in> set (seg_children g)" for c
    proof -
      have pc: "parent_of w c = Some s" using so that by blast
      then obtain q where q: "w_segs w c = Some q" "seg_parent q = Some s" by (auto simp: parent_of_def split: option.splits)
      then have "seg_txn g = seg_txn q" using segments_okD(1) [OF sok q(1)] g0(1) by (auto simp: seg_ok_def)
      then show ?thesis using pc q(1) g0(2) parent by auto
    qed
    moreover have "\<exists>ps. w_segs w2 p = Some ps \<and> s \<in> set (seg_children ps) \<and> seg_txn ps = seg_txn g" if "seg_parent g = Some p" for p
      using so that g0(2) seg by metis
    ultimately show ?thesis unfolding seg_ok_def using so g0(2) by (auto simp: txn nxt)
  qed
  moreover have "acyclic (up w2)" using segments_okD(2) [OF sok] by (rule acyclic_subset) (auto simp: up_def parent)
  moreover have "txn_ok w2 u y" if "w_txns w2 u = Some y" for u y
    using that segments_okD(3) [OF sok, of u y] by (auto simp: txn txn_ok_def nxt segof split: if_splits)
  ultimately have "segments_ok w2" by (simp add: segments_ok_def)
  moreover have "handles_ok w2"
    using sdk_okD(3) [OF ok] x unfolding handles_ok_def hs txn nxt by (auto split: if_splits)
  moreover have "wseg_ok w2 a n" if an: "w_wsegs w a = Some n" for a n
  proof -
    obtain s u where su: "ns_segment n = Some s" "ns_transaction n = Some u" "s < w_next w" "u < w_next w"
        "w_txns w u \<noteq> None \<longrightarrow> seg_of w u s" "w_txns w u = None \<longrightarrow> w_segs w s = None"
        "\<forall>seg. w_segs w s = Some seg \<longrightarrow> fields_match (seg_type seg) (ns_type n)"
      using sdk_okD(4) [OF ok an] unfolding wseg_ok_def by (elim conjE exE)
    have lk: "a < w_next w" "\<forall>h. ns_txn_lock n = Some h \<longrightarrow> h < w_next w \<and>
        (\<forall>x. w_handles w h = Some x \<longrightarrow> ns_transaction n = Some (nt_txn x))"
      using sdk_okD(4) [OF ok an] unfolding wseg_ok_def by blast+
    have live: "w_txns w t \<noteq> None" using sdk_okD(3) [OF ok] x unfolding handles_ok_def by blast
    have "w_segs w2 s = None" if "w_txns w2 u = None"
    proof (cases "u = t")
      case True
      then have "seg_of w t s" using su(5) live by simp
      then have "w_segs w2 s \<noteq> Some g" for g unfolding seg by (auto simp: seg_of_def)
      then show ?thesis by (cases "w_segs w2 s") blast+
    next
      case False
      then have "w_segs w s = None" using that su(6) by (simp add: txn)
      then have "w_segs w2 s \<noteq> Some g" for g unfolding seg by simp
      then show ?thesis by (cases "w_segs w2 s") blast+
    qed
    moreover have "seg_of w2 u s" if "w_txns w2 u \<noteq> None" using that su(5) by (auto simp: txn segof split: if_splits)
    moreover have "\<forall>g. w_segs w2 s = Some g \<longrightarrow> fields_match (seg_type g) (ns_type n)" using su(7) seg by blast
    moreover have "\<forall>h'. ns_txn_lock n = Some h' \<longrightarrow> h' < w_next w2 \<and>
        (\<forall>x. w_handles w2 h' = Some x \<longrightarrow> ns_transaction n = Some (nt_txn x))"
      using lk(2) unfolding hs nxt by (auto split: if_splits)
    ultimately show ?thesis unfolding wseg_ok_def nxt using su(1-4) lk(1)
      by (intro conjI exI [of _ s] exI [of _ u]) simp_all
  qed
  ultimately have "sdk_ok w2" using sdk_okD(2) [OF ok] by (auto simp: sdk_ok_def txn ws split: if_splits)
  then show ?thesis by (simp add: w2_def)
qed

lemma sdk_ok_ghost: "sdk_ok (w\<lparr>w_sent := xs\<rparr>) = sdk_ok w" "w_handles (w\<lparr>w_sent := xs\<rparr>) = w_handles w"
  by (auto simp: sdk_ok_def segments_ok_def seg_ok_def txn_ok_def seg_of_def parent_of_def up_def handles_ok_def wseg_ok_def)

text \<open>The world after \<open>nr_txn_destroy\<close> does not depend on the record of the transaction or on what was sent.\<close>

lemma destroy_forget:
  "nr_txn_destroy t (w\<lparr>w_txns := (w_txns w)(t \<mapsto> y)\<rparr>) = nr_txn_destroy t w"
  "nr_txn_destroy t (w\<lparr>w_sent := xs\<rparr>) = (nr_txn_destroy t w)\<lparr>w_sent := xs\<rparr>"
  by (simp_all add: nr_txn_destroy_def)

lemma end_chain:
  assumes ok: "sdk_ok w" and x: "w_handles w h = Some x" and l: "nrt_mutex_lock (Some h) w = Some w1"
    and f: "nr_txn_force_single_count (Some (nt_txn x)) m w1 = Some w2"
    and en: "nr_txn_end e (Some (nt_txn x)) w2 = Some w3"
    and sent: "(if ignore then (True, w3) else if accepted then (True, w3\<lparr>w_sent := xs\<rparr>) else (False, w3)) = (ret, w5)"
    and u: "nrt_mutex_unlock (Some h) (nr_txn_destroy (nt_txn x) w5) = Some w4"
  shows "sdk_ok (w4\<lparr>w_handles := (w_handles w4)(h := None)\<rparr>) \<and> (w_handles w4)(h := None) = (w_handles w)(h := None)"
proof -
  obtain v where v: "inner w2 v" "nr_txn_destroy (nt_txn x) w3 = nr_txn_destroy (nt_txn x) v"
    using nr_txn_end_cases [OF en] destroy_forget(1) by metis
  have "inner w1 w2" using f by (rule keeps)
  then have iv: "inner w1 v" using inner_trans v(1) by blast
  obtain y where y: "w1 = w\<lparr>w_handles := (w_handles w)(h \<mapsto> y)\<rparr>" "nt_txn y = nt_txn x"
    using lock_eq [OF l] x by auto
  have okv: "sdk_ok v" and hv: "w_handles v = (w_handles w)(h \<mapsto> y)"
    using iv lock_ok [OF l ok] y by (simp_all add: inner_def keep_def)
  have d: "sdk_ok ((nr_txn_destroy (nt_txn x) v)\<lparr>w_handles := (w_handles v)(h := None)\<rparr>)"
    by (rule nr_txn_destroy_ok [OF okv, of h y]) (simp_all add: hv y)
  have "\<exists>ys. nr_txn_destroy (nt_txn x) w5 = (nr_txn_destroy (nt_txn x) v)\<lparr>w_sent := ys\<rparr>"
  proof -
    have "nr_txn_destroy (nt_txn x) v = (nr_txn_destroy (nt_txn x) v)\<lparr>w_sent := w_sent (nr_txn_destroy (nt_txn x) v)\<rparr>" by simp
    moreover have "w5 = w3 \<or> w5 = w3\<lparr>w_sent := xs\<rparr>" using sent by (auto split: if_splits)
    ultimately show ?thesis using v(2) destroy_forget(2) by metis
  qed
  then obtain ys where ys: "nr_txn_destroy (nt_txn x) w5 = (nr_txn_destroy (nt_txn x) v)\<lparr>w_sent := ys\<rparr>" ..
  have w4: "w4\<lparr>w_handles := (w_handles w4)(h := None)\<rparr> =
      ((nr_txn_destroy (nt_txn x) v)\<lparr>w_handles := (w_handles v)(h := None)\<rparr>)\<lparr>w_sent := ys\<rparr>"
    "(w_handles w4)(h := None) = (w_handles v)(h := None)"
    using u unfolding ys by (auto simp: nrt_mutex_unlock_def upd_handle_def nr_txn_destroy_def)
  show ?thesis unfolding w4(1) sdk_ok_ghost using d w4(2) hv by simp
qed

lemma newrelic_end_transaction_ok:
  assumes "newrelic_end_transaction e p w = Some (r, q, w')" "sdk_ok w"
  shows "sdk_ok w' \<and> (w_handles w' = w_handles w \<or> (\<exists>h. p = Some (Some h) \<and> w_handles w' = (w_handles w)(h := None)))"
proof (cases "\<exists>h. p = Some (Some h)")
  case True
  then obtain h where p: "p = Some (Some h)" by blast
  have "sdk_ok w' \<and> w_handles w' = (w_handles w)(h := None)"
    using assms(1) unfolding newrelic_end_transaction_def p option.case Let_def
    apply (elim bindE)
    apply (simp only: prod.case split: prod.split_asm)
    apply (elim bindE)
    apply (simp only: option.inject prod.inject)
    apply (elim conjE)
    apply hypsubst
    apply (drule (5) end_chain [OF assms(2)])
    apply (elim conjE)
    apply (rule conjI, assumption)
    apply simp
    done
  then show ?thesis using p by blast
next
  case False
  then show ?thesis using assms by (auto simp: newrelic_end_transaction_def split: option.splits)
qed

section \<open>Every sequence of calls\<close>

text \<open>
  One call of the API that returns.  The surroundings (\<open>e\<close>, the replies, the application with the state of
  the agent) may be different in each call.
\<close>

inductive sdk_step :: "world \<Rightarrow> world \<Rightarrow> bool" where
  start_transaction: "newrelic_start_transaction e reply answer app name web (g, w) = Some (r, g', w') \<Longrightarrow> sdk_step w w'"
| end_transaction: "newrelic_end_transaction e p w = Some (r, q, w') \<Longrightarrow> sdk_step w w'"
| set_transaction_timing: "newrelic_set_transaction_timing tr start d w = Some (r, w') \<Longrightarrow> sdk_step w w'"
| ignore_transaction: "newrelic_ignore_transaction tr w = Some (r, w') \<Longrightarrow> sdk_step w w'"
| set_transaction_name: "newrelic_set_transaction_name tr name w = Some (r, w') \<Longrightarrow> sdk_step w w'"
| start_segment: "newrelic_start_segment e tr name category w = Some (r, w') \<Longrightarrow> sdk_step w w'"
| start_datastore_segment: "newrelic_start_datastore_segment e tr ds w = Some (r, w') \<Longrightarrow> sdk_step w w'"
| start_external_segment: "newrelic_start_external_segment e tr xs w = Some (r, w') \<Longrightarrow> sdk_step w w'"
| set_segment_parent: "newrelic_set_segment_parent a b w = Some (r, w') \<Longrightarrow> sdk_step w w'"
| set_segment_parent_root: "newrelic_set_segment_parent_root a w = Some (r, w') \<Longrightarrow> sdk_step w w'"
| set_segment_timing: "newrelic_set_segment_timing a start d w = Some (r, w') \<Longrightarrow> sdk_step w w'"
| end_segment: "newrelic_end_segment e tr p w = Some (r, q, w') \<Longrightarrow> sdk_step w w'"
| notice_error: "newrelic_notice_error e tr pr msg cls w = Some w' \<Longrightarrow> sdk_step w w'"
| add_attribute: "newrelic_add_attribute tr key obj w = Some (r, w') \<Longrightarrow> sdk_step w w'"
| record_custom_event: "newrelic_record_custom_event e tr ev w = Some (v, w') \<Longrightarrow> sdk_step w w'"
| record_custom_metric: "newrelic_record_custom_metric tr name ms w = Some (r, w') \<Longrightarrow> sdk_step w w'"
| create_payload: "newrelic_create_distributed_trace_payload e tr s w = Some (payload, w') \<Longrightarrow> sdk_step w w'"
| create_payload_httpsafe: "newrelic_create_distributed_trace_payload_httpsafe e tr s w = Some (payload, w') \<Longrightarrow> sdk_step w w'"
| accept_payload: "newrelic_accept_distributed_trace_payload e tr str transport w = Some (r, w') \<Longrightarrow> sdk_step w w'"
| accept_payload_httpsafe: "newrelic_accept_distributed_trace_payload_httpsafe e tr str transport w = Some (r, w') \<Longrightarrow> sdk_step w w'"

lemmas api_keeps =
  newrelic_set_transaction_timing_keep newrelic_ignore_transaction_keep newrelic_set_transaction_name_keep
  newrelic_start_segment_keep newrelic_start_datastore_segment_keep newrelic_start_external_segment_keep
  newrelic_set_segment_parent_keep newrelic_set_segment_parent_root_keep newrelic_set_segment_timing_keep
  newrelic_end_segment_keep newrelic_notice_error_keep newrelic_add_attribute_keep
  newrelic_record_custom_event_keep newrelic_record_custom_metric_keep
  newrelic_create_distributed_trace_payload_keep newrelic_create_distributed_trace_payload_httpsafe_keep
  newrelic_accept_distributed_trace_payload_keep newrelic_accept_distributed_trace_payload_httpsafe_keep

lemma keep_invariant: "keep w w' \<Longrightarrow> sdk_ok w \<Longrightarrow> unlocked w \<Longrightarrow> sdk_ok w' \<and> unlocked w'"
  by (simp add: keep_def unlocked_def)

lemmas keep_invariantD = keep_invariant [THEN conjunct1] keep_invariant [THEN conjunct2]

lemma sdk_step_ok:
  assumes "sdk_step w w'" "sdk_ok w" "unlocked w"
  shows "sdk_ok w' \<and> unlocked w'"
  using assms
proof (induction rule: sdk_step.induct)
  case (start_transaction e reply answer app name web g w r g' w')
  then show ?case using newrelic_start_transaction_ok [OF start_transaction(1,2)]
    by (auto simp: unlocked_def split: if_splits)
next
  case (end_transaction e p w r q w')
  then show ?case using newrelic_end_transaction_ok [OF end_transaction(1,2)]
    by (auto simp: unlocked_def split: if_splits)
qed (auto dest!: api_keeps intro: keep_invariantD)

lemma sdk_reachable_ok:
  assumes "sdk_step\<^sup>*\<^sup>* empty_world w"
  shows "sdk_ok w \<and> unlocked w"
  using assms by induction (use empty_world_ok sdk_step_ok in blast)+

text \<open>
  C1 (invariant).  Whatever calls a program makes, in any order and with any arguments, the process stays
  well formed: every segment belongs to a live transaction; its children name it as their parent and
  have it only once among them; its parent belongs to the same transaction and lists it as a child;
  no segment is its own ancestor; the stacks and the root of a transaction hold segments of that
  transaction; every transaction has one handle at most and no call returns with its lock held.
\<close>

theorem sdk_calls_keep_invariant:
  assumes "sdk_step\<^sup>*\<^sup>* empty_world w"
  shows "(\<forall>s seg. w_segs w s = Some seg \<longrightarrow>
        (\<exists>t. seg_txn seg = Some t \<and> w_txns w t \<noteq> None) \<and> distinct (seg_children seg) \<and>
        (\<forall>c \<in> set (seg_children seg). \<exists>child. w_segs w c = Some child \<and> seg_parent child = Some s) \<and>
        (\<forall>p. seg_parent seg = Some p \<longrightarrow>
           (\<exists>parent. w_segs w p = Some parent \<and> s \<in> set (seg_children parent) \<and> seg_txn parent = seg_txn seg))) \<and>
    acyclic {(s, p). \<exists>seg. w_segs w s = Some seg \<and> seg_parent seg = Some p} \<and>
    (\<forall>t x s. w_txns w t = Some x \<longrightarrow>
        s \<in> set (tx_default_parent_stack x) \<or> tx_segment_root x = Some s \<longrightarrow>
        (\<exists>seg. w_segs w s = Some seg \<and> seg_txn seg = Some t)) \<and>
    (\<forall>h x. w_handles w h = Some x \<longrightarrow> \<not> nt_locked x \<and> w_txns w (nt_txn x) \<noteq> None) \<and>
    (\<forall>h x h' x'. w_handles w h = Some x \<longrightarrow> w_handles w h' = Some x' \<longrightarrow> nt_txn x = nt_txn x' \<longrightarrow> h = h')"
proof -
  have ok: "sdk_ok w" and un: "unlocked w" using sdk_reachable_ok [OF assms] by simp_all
  have up: "up w = {(s, p). \<exists>seg. w_segs w s = Some seg \<and> seg_parent seg = Some p}"
    by (auto simp: up_def parent_of_def split: option.splits)
  have child: "\<exists>child. w_segs w c = Some child \<and> seg_parent child = Some s" if "parent_of w c = Some s" for c s
    using that by (auto simp: parent_of_def split: option.splits)
  show ?thesis
    using segments_okD [OF sdk_okD(1) [OF ok]] sdk_okD(3) [OF ok] un child
    unfolding up seg_ok_def txn_ok_def handles_ok_def unlocked_def seg_of_def by (intro conjI) blast+
qed

theorem sdk_calls_keep_invariant_witness:
  "sdk_step\<^sup>*\<^sup>* empty_world demo_world \<and> w_segs demo_world 1 = Some demo_root \<and>
   (\<exists>t. seg_txn demo_root = Some t \<and> w_txns demo_world t \<noteq> None)"
proof -
  have reach: "sdk_step\<^sup>*\<^sup>* empty_world demo_world"
    by (rule r_into_rtranclp, rule sdk_step.start_transaction, rule demo_start)
  have root: "w_segs demo_world 1 = Some demo_root" by (simp add: demo_world_def)
  with sdk_calls_keep_invariant [OF reach] reach show ?thesis by blast
qed

end
