(* ===== verification/Spec2Isabelle.thy ===== *)
theory Spec2Isabelle
  imports Exclusive_Time Segment_Heap Sdk_Reachable
begin

text \<open>
  A verification of the New Relic C SDK (src/src, src/include) together with the parts of the agent
  library \<^emph>\<open>axiom\<close> that it runs on (src/vendor/newrelic/axiom).

  \<^bold>\<open>The program.\<close>  A process configures and initialises the SDK (config.c, global.c), creates applications
  that a daemon has to accept (app.c, app_internal.c), and on them starts and ends transactions
  (transaction.c).  On a transaction it starts, moves, times and ends segments (segment.c, datastore.c,
  external.c), and records errors, attributes, custom events and metrics (error.c, attribute.c,
  custom_event.c, custom_metric.c, stack.c) and distributed traces (distributed_trace.c).  The API keeps
  handles and locks; the transactions, their segment trees, metric tables, string pools and attributes
  are those of axiom (nr_txn.c, nr_segment*.c, util_metrics.c, util_string_pool.c, nr_attributes.c and
  so on), and the metrics of a finished transaction use its vectors, stacks, heaps and the exclusive
  time computation.

  \<^bold>\<open>Conventions.\<close>  A pointer that may be NULL is an option, a pointer to a pointer an option of an option;
  \<open>char*\<close> is a \<open>string\<close> without the final zero, a fixed array of characters a list of its length.
  Machine integers are words where they can wrap (\<open>size_t\<close>, \<open>nrtime_t\<close>, \<open>uint32_t\<close>, the counters), and
  \<open>int\<close> or \<open>nat\<close> where the code stays in range; the sizes of the min-max heap are \<open>ssize_t\<close> in the code and
  unbounded here, since an array that large cannot be allocated.  A double is a dyadic fraction, an
  infinity or NaN (\<open>C_Double\<close>).  The result \<open>None\<close> of a function that may fail to return stands for
  undefined behaviour (a NULL or freed pointer followed, a write outside a buffer, a conversion out of
  range) and for a call that never returns (a lock already held, a loop without end).  Allocation
  failure is an argument where the code handles it (the vectors), and ends the process elsewhere.

  \<^bold>\<open>Theories.\<close>
  \<^item> \<open>Prelude\<close>, \<open>Sorting\<close>, \<open>C_Strings\<close>, \<open>C_Double\<close>, \<open>Hash_Tree\<close>: shared types and lemmas on lists, words, sorting
    (util_sort.c), character arrays (util_strings.c, util_memory.c), doubles, and the binary trees over
    hashes (util_hash.c) that string pools, metric tables and attributes look their keys up with.
  \<^item> \<open>Vector\<close>, \<open>Stack\<close> (util_vector.c, util_stack.c): every operation, sizes at 64 bits.  The vector refines a
    list; the stack is proved over a contract of the vector, the locale \<open>vector_contract\<close>.
  \<^item> \<open>MinMax_Heap\<close>, \<open>MinMax_Order\<close>, \<open>MinMax_Correct\<close>, \<open>Bounded_Heap\<close>, \<open>Segment_Heap\<close> (util_minmax_heap.c, the
    comparators of nr_segment.c): every operation, the order invariant, what a bounded heap keeps.
  \<^item> \<open>Exclusive_Time\<close> (nr_exclusive_time.c): the sweep over the starts and stops of the children equals a
    count of uncovered microseconds.
  \<^item> \<open>Config\<close>, \<open>Global\<close>, \<open>App\<close> (config.c, global.c, app.c, app_internal.c, with nr_agent.c and nr_app.c): the state
    of the process before its first transaction, with the operating system and the daemon as arguments.
  \<^item> \<open>Objects\<close>, \<open>String_Pool\<close>, \<open>Metrics\<close>, \<open>Attributes\<close>, \<open>Base64\<close>, \<open>Distributed_Trace\<close>, \<open>Sql_Obfuscation\<close>, \<open>Url\<close>:
    the data that a transaction holds and the texts it makes; each with its invariant, the functional
    behaviour of its operations and its round trips.
  \<^item> \<open>World\<close>, \<open>Segment\<close>, \<open>Txn\<close>, \<open>Typed_Segments\<close>: the memory of the process as maps from addresses to records, and
    the functions of nr_segment.c, nr_txn.c, nr_segment_datastore.c and nr_segment_external.c on it.
    \<open>Api_Segment\<close> and \<open>Api_Transaction\<close>: every function of the API, lock by lock and check by check.
  \<^item> \<open>Segment_Tree\<close>, \<open>Sdk_Invariant\<close>, \<open>Sdk_Operations\<close>, \<open>Sdk_Calls\<close>, \<open>Sdk_Api\<close>, \<open>Sdk_Reachable\<close>: the invariant of the
    memory, that every call keeps it, and the states that any sequence of calls reaches (the step
    relation \<open>sdk_step\<close>).  \<open>Sdk_Example\<close>: a concrete process.

  \<^bold>\<open>Fuel.\<close>  The only loop with fuel is the search for a cycle in \<open>nr_segment_set_parent\<close> (\<open>is_ancestor\<close>): it
  may take as many steps as addresses were handed out, and \<open>Segment_Tree\<close> proves that this is enough in every
  well-formed memory.  The growth loop of the vector is a \<open>partial_function\<close>, and the requests for which
  it does not end are characterised.

  \<^bold>\<open>Not modelled.\<close>  Log lines, the transport to the daemon and its encoding, the naming rules, the
  conversion of a finished segment tree into traces and span events, JSON text, the parser of SQL
  statements, cross application tracing, synthetics and RUM, and concurrency between threads: a call
  runs from its start to its end, and locks are flags that must be free when they are taken.  Where
  modelled code depends on one of these it is an argument (the fields of \<open>sdk_env\<close> and \<open>os_env\<close>).
\<close>

end
